(* ===== verification/Go_Prelude.thy ===== *)
theory Go_Prelude
  imports Main "HOL-Library.Word" "HOL-Library.Product_Lexorder"
begin

text \<open>
  What the model uses of the Go language and of its standard library: error values, byte strings
  and the functions of package \<open>strings\<close> that the sources call, 32-bit integers, and fallible
  loops. A Go string is a sequence of bytes, and so is a \<^typ>\<open>string\<close> of HOL (a \<^typ>\<open>char\<close> has
  eight bits), so \<open>[]byte(s)\<close> and \<open>string(b)\<close> are the identity here.
\<close>

section \<open>Errors and results\<close>

text \<open>
  An \<open>error\<close> value. \<open>Errorf f args\<close> is \<open>fmt.Errorf(f, args...)\<close> (or \<open>errors.New(f)\<close>) and
  \<open>Wrapf f args e\<close> is \<open>fmt.Errorf(f + ": %w", args..., e)\<close>. \<open>ErrNoRows\<close> is \<open>sql.ErrNoRows\<close>,
  \<open>ErrConstraint\<close> a violated PRIMARY KEY, \<open>DriverErr\<close> any other failure of code outside the
  repository (a database driver, a network stream, a child process).
\<close>

datatype go_error =
    Errorf string "string list"
  | Wrapf string "string list" go_error
  | ErrNoRows
  | ErrConstraint
  | DriverErr string

type_synonym 'a result = "go_error + 'a"

text \<open>\<open>errors.Is(err, target)\<close> for a sentinel: looks through the wrappers.\<close>

fun errors_Is :: "go_error \<Rightarrow> go_error \<Rightarrow> bool" where
  "errors_Is (Wrapf f args e) target = (Wrapf f args e = target \<or> errors_Is e target)"
| "errors_Is e target = (e = target)"

text \<open>The digits that \<open>%d\<close> prints for a number that is not negative.\<close>

fun decimal :: "nat \<Rightarrow> string" where
  "decimal n = (if n < 10 then [char_of (48 + n)] else decimal (n div 10) @ [char_of (48 + n mod 10)])"

declare decimal.simps [simp del]

named_theorems go_defs "unfolding rules of the small Go helpers"

section \<open>Machine integers\<close>

type_synonym int32 = "32 word"

text \<open>A conversion \<open>int(x)\<close> of an \<open>int32\<close>.\<close>

abbreviation int_of_int32 :: "int32 \<Rightarrow> int" where
  "int_of_int32 x \<equiv> sint x"

lemma int32_lower: "- (2 ^ 31) \<le> sint (x :: int32)"
  using sint_greater_eq [of x] by simp

lemma int32_upper: "sint (x :: int32) < 2 ^ 31"
  using sint_lt [of x] by simp

lemma sint_int32_inc:
  assumes "sint (x :: int32) < sint (y :: int32)"
  shows "sint (x + 1) = sint x + 1"
proof -
  have "sint x + 1 < 2 ^ 31" using assms int32_upper [of y] by linarith
  moreover have "- (2 ^ 31) \<le> sint x + 1" using int32_lower [of x] by linarith
  ultimately have "signed_take_bit 31 (sint x + 1) = sint x + 1"
    by (simp add: signed_take_bit_int_eq_self_iff)
  then show ?thesis by (simp add: sint_word_ariths)
qed

lemma sint_int32_dec:
  assumes "0 < sint (x :: int32)"
  shows "sint (x - 1) = sint x - 1"
proof -
  have "signed_take_bit 31 (sint x - 1) = sint x - 1"
    using assms int32_upper [of x] by (simp add: signed_take_bit_int_eq_self_iff)
  then show ?thesis by (simp add: sint_word_ariths)
qed

section \<open>Package strings\<close>

definition HasPrefix :: "string \<Rightarrow> string \<Rightarrow> bool" where
  "HasPrefix s p = (take (length p) s = p)"

definition TrimPrefix :: "string \<Rightarrow> string \<Rightarrow> string" where
  "TrimPrefix s p = (if HasPrefix s p then drop (length p) s else s)"

definition HasSuffix :: "string \<Rightarrow> string \<Rightarrow> bool" where
  "HasSuffix s p = (length p \<le> length s \<and> drop (length s - length p) s = p)"

definition TrimSuffix :: "string \<Rightarrow> string \<Rightarrow> string" where
  "TrimSuffix s p = (if HasSuffix s p then take (length s - length p) s else s)"

text \<open>\<open>strings.TrimRight(s, cutset)\<close> for a cutset of ASCII characters.\<close>

definition TrimRight :: "string \<Rightarrow> string \<Rightarrow> string" where
  "TrimRight s cutset = rev (dropWhile (\<lambda>c. c \<in> set cutset) (rev s))"

text \<open>
  \<open>cut sep s\<close> splits \<open>s\<close> at the first occurrence of \<open>sep\<close>; \<open>strings.SplitN(s, sep, 2)\<close> is the
  list of the two parts, or of \<open>s\<close> alone when \<open>sep\<close> does not occur (\<open>sep\<close> is not empty in the
  sources).
\<close>

fun cut :: "string \<Rightarrow> string \<Rightarrow> (string \<times> string) option" where
  "cut sep [] = (if sep = [] then Some ([], []) else None)"
| "cut sep (c # cs) =
     (if HasPrefix (c # cs) sep then Some ([], drop (length sep) (c # cs))
      else map_option (\<lambda>(a, b). (c # a, b)) (cut sep cs))"

definition SplitN2 :: "string \<Rightarrow> string \<Rightarrow> string list" where
  "SplitN2 s sep = (case cut sep s of None \<Rightarrow> [s] | Some (a, b) \<Rightarrow> [a, b])"

text \<open>
  \<open>strings.TrimSpace\<close> and \<open>strings.Fields\<close> use \<open>unicode.IsSpace\<close>. The UTF-8 encodings of its
  code points are listed here: the ASCII spaces, U+0085, U+00A0, U+1680, U+2000 to U+200A, U+2028,
  U+2029, U+202F, U+205F and U+3000. None of them starts with a continuation byte, so a rune of the
  string is a space exactly where one of these encodings occurs.
\<close>

definition space_encodings :: "string list" where
  "space_encodings =
     [[CHR 0x09], [CHR 0x0A], [CHR 0x0B], [CHR 0x0C], [CHR 0x0D], [CHR 0x20],
      [CHR 0xC2, CHR 0x85], [CHR 0xC2, CHR 0xA0], [CHR 0xE1, CHR 0x9A, CHR 0x80],
      [CHR 0xE2, CHR 0x80, CHR 0x80], [CHR 0xE2, CHR 0x80, CHR 0x81],
      [CHR 0xE2, CHR 0x80, CHR 0x82], [CHR 0xE2, CHR 0x80, CHR 0x83],
      [CHR 0xE2, CHR 0x80, CHR 0x84], [CHR 0xE2, CHR 0x80, CHR 0x85],
      [CHR 0xE2, CHR 0x80, CHR 0x86], [CHR 0xE2, CHR 0x80, CHR 0x87],
      [CHR 0xE2, CHR 0x80, CHR 0x88], [CHR 0xE2, CHR 0x80, CHR 0x89],
      [CHR 0xE2, CHR 0x80, CHR 0x8A], [CHR 0xE2, CHR 0x80, CHR 0xA8],
      [CHR 0xE2, CHR 0x80, CHR 0xA9], [CHR 0xE2, CHR 0x80, CHR 0xAF],
      [CHR 0xE2, CHR 0x81, CHR 0x9F], [CHR 0xE3, CHR 0x80, CHR 0x80]]"

text \<open>The first of the words \<open>ws\<close> that starts \<open>s\<close>, and the trimming of such words.\<close>

definition lead_word :: "string list \<Rightarrow> string \<Rightarrow> string option" where
  "lead_word ws s = find (\<lambda>w. w \<noteq> [] \<and> HasPrefix s w) ws"

lemma lead_word_Some:
  "lead_word ws s = Some w \<Longrightarrow> w \<in> set ws \<and> w \<noteq> [] \<and> HasPrefix s w"
  by (auto simp: lead_word_def find_Some_iff)

lemma lead_word_None:
  "lead_word ws s = None \<longleftrightarrow> (\<forall>w \<in> set ws. w \<noteq> [] \<longrightarrow> \<not> HasPrefix s w)"
  by (auto simp: lead_word_def find_None_iff)

lemma lead_word_shorter:
  assumes "lead_word ws s = Some w"
  shows "length (drop (length w) s) < length s"
proof -
  from assms have "w \<noteq> []" and "take (length w) s = w"
    by (auto dest: lead_word_Some simp: HasPrefix_def)
  then show ?thesis by (cases s) auto
qed

function trim_lead :: "string list \<Rightarrow> string \<Rightarrow> string" where
  "trim_lead ws s =
     (case lead_word ws s of None \<Rightarrow> s | Some w \<Rightarrow> trim_lead ws (drop (length w) s))"
  by pat_completeness auto
termination
  by (relation "measure (\<lambda>(ws, s). length s)") (auto dest: lead_word_shorter)

declare trim_lead.simps [simp del]

definition TrimSpace :: "string \<Rightarrow> string" where
  "TrimSpace s =
     rev (trim_lead (map rev space_encodings) (rev (trim_lead space_encodings s)))"

text \<open>\<open>strings.Fields\<close>: \<open>acc\<close> is the field being read.\<close>

function fields_loop :: "string \<Rightarrow> string \<Rightarrow> string list" where
  "fields_loop acc s =
     (case s of
        [] \<Rightarrow> (if acc = [] then [] else [acc])
      | c # cs \<Rightarrow>
          (case lead_word space_encodings s of
             None \<Rightarrow> fields_loop (acc @ [c]) cs
           | Some w \<Rightarrow> (if acc = [] then [] else [acc]) @ fields_loop [] (drop (length w) s)))"
  by pat_completeness auto
termination
  by (relation "measure (\<lambda>(acc, s). length s)") (auto dest: lead_word_shorter)

declare fields_loop.simps [simp del]

definition Fields :: "string \<Rightarrow> string list" where
  "Fields s = fields_loop [] s"

subsection \<open>Facts about package strings\<close>

lemma HasPrefix_iff: "HasPrefix s p \<longleftrightarrow> (\<exists>t. s = p @ t)"
  by (metis HasPrefix_def append_eq_conv_conj append_take_drop_id)

lemma HasPrefix_append [simp]: "HasPrefix (p @ t) p"
  by (simp add: HasPrefix_def)

lemma HasPrefix_self [simp]: "HasPrefix s s"
  by (simp add: HasPrefix_def)

lemma TrimPrefix_append [simp]: "TrimPrefix (p @ t) p = t"
  by (simp add: TrimPrefix_def)

lemma TrimPrefix_id: "\<not> HasPrefix s p \<Longrightarrow> TrimPrefix s p = s"
  by (simp add: TrimPrefix_def)

lemma HasSuffix_iff: "HasSuffix s p \<longleftrightarrow> (\<exists>t. s = t @ p)"
  unfolding HasSuffix_def
  by (metis append_eq_conv_conj append_take_drop_id diff_add_inverse2 le_add2 length_append)

lemma HasSuffix_append [simp]: "HasSuffix (t @ p) p"
  by (simp add: HasSuffix_def)

lemma TrimSuffix_append [simp]: "TrimSuffix (t @ p) p = t"
  by (simp add: TrimSuffix_def)

lemma cut_Some:
  "cut sep s = Some (a, b) \<Longrightarrow> s = a @ sep @ b"
proof (induction sep s arbitrary: a b rule: cut.induct)
  case (1 sep)
  then show ?case by (auto split: if_splits)
next
  case (2 sep c cs)
  show ?case
  proof (cases "HasPrefix (c # cs) sep")
    case True
    with "2.prems" show ?thesis
      by (auto simp: HasPrefix_def) (metis append_take_drop_id)
  next
    case False
    with "2.prems" obtain a' where "a = c # a'" and "cut sep cs = Some (a', b)"
      by auto
    with "2.IH" [OF False] show ?thesis by simp
  qed
qed

lemma trim_lead_no_lead: "lead_word ws (trim_lead ws s) = None"
proof (induction ws s rule: trim_lead.induct)
  case (1 ws s)
  then show ?case
    by (cases "lead_word ws s") (simp_all add: trim_lead.simps [of ws s])
qed

lemma trim_lead_id: "lead_word ws s = None \<Longrightarrow> trim_lead ws s = s"
  by (simp add: trim_lead.simps)

lemma trim_lead_suffix: "\<exists>p. s = p @ trim_lead ws s"
proof (induction ws s rule: trim_lead.induct)
  case (1 ws s)
  show ?case
  proof (cases "lead_word ws s")
    case None
    then show ?thesis by (simp add: trim_lead_id)
  next
    case (Some w)
    from 1 [OF this] obtain p where "drop (length w) s = p @ trim_lead ws s"
      using Some by (auto simp: trim_lead.simps [of ws s])
    then show ?thesis by (metis append_assoc append_take_drop_id)
  qed
qed

lemma trim_lead_idem: "trim_lead ws (trim_lead ws s) = trim_lead ws s"
  by (rule trim_lead_id) (rule trim_lead_no_lead)

text \<open>
  The two trims of \<^const>\<open>TrimSpace\<close> do not interfere: what the second one leaves is a prefix of
  what the first one left, so it still starts with no space.
\<close>

lemma lead_word_prefix_None: "lead_word ws (p @ t) = None \<Longrightarrow> lead_word ws p = None"
  by (auto simp: lead_word_None HasPrefix_iff)

lemma TrimSpace_no_lead: "lead_word space_encodings (TrimSpace s) = None"
proof -
  let ?u = "trim_lead space_encodings s"
  obtain p where "rev ?u = p @ trim_lead (map rev space_encodings) (rev ?u)"
    using trim_lead_suffix by blast
  then have "?u = TrimSpace s @ rev p"
    unfolding TrimSpace_def by (metis rev_append rev_rev_ident)
  then show ?thesis by (metis lead_word_prefix_None trim_lead_no_lead)
qed

lemma TrimSpace_idem [simp]: "TrimSpace (TrimSpace s) = TrimSpace s"
proof -
  have "trim_lead space_encodings (TrimSpace s) = TrimSpace s"
    by (rule trim_lead_id) (rule TrimSpace_no_lead)
  then have "TrimSpace (TrimSpace s)
      = rev (trim_lead (map rev space_encodings) (rev (TrimSpace s)))"
    by (simp add: TrimSpace_def)
  also have "\<dots> = TrimSpace s"
    by (simp add: TrimSpace_def trim_lead_idem)
  finally show ?thesis .
qed

lemma TrimSpace_id:
  assumes "lead_word space_encodings s = None"
    and "lead_word (map rev space_encodings) (rev s) = None"
  shows "TrimSpace s = s"
  using assms by (simp add: TrimSpace_def trim_lead_id)

section \<open>Package encoding/hex\<close>

definition hex_digit :: "nat \<Rightarrow> char" where
  "hex_digit n = (if n < 10 then char_of (48 + n) else char_of (87 + n))"

definition hex_value :: "char \<Rightarrow> nat option" where
  "hex_value c =
     (let n = of_char c in
      if 48 \<le> n \<and> n \<le> 57 then Some (n - 48)
      else if 97 \<le> n \<and> n \<le> 102 then Some (n - 87)
      else if 65 \<le> n \<and> n \<le> 70 then Some (n - 55)
      else None)"

fun hex_EncodeToString :: "string \<Rightarrow> string" where
  "hex_EncodeToString [] = []"
| "hex_EncodeToString (c # cs) =
     hex_digit (of_char c div 16) # hex_digit (of_char c mod 16) # hex_EncodeToString cs"

text \<open>\<open>None\<close> is the error of \<open>hex.DecodeString\<close>: an odd length or a character that is no digit.\<close>

fun hex_DecodeString :: "string \<Rightarrow> string option" where
  "hex_DecodeString [] = Some []"
| "hex_DecodeString [c] = None"
| "hex_DecodeString (a # b # cs) =
     (case (hex_value a, hex_value b) of
        (Some x, Some y) \<Rightarrow> map_option (\<lambda>r. char_of (16 * x + y) # r) (hex_DecodeString cs)
      | _ \<Rightarrow> None)"

lemma hex_value_digit [simp]: "n < 16 \<Longrightarrow> hex_value (hex_digit n) = Some n"
  by (auto simp: hex_value_def hex_digit_def Let_def)

lemma of_char_less_256: "(of_char (c :: char) :: nat) < 256"
  by simp

lemma hex_roundtrip [simp]: "hex_DecodeString (hex_EncodeToString s) = Some s"
proof (induction s)
  case (Cons c cs)
  have "(of_char c :: nat) div 16 < 16"
    using of_char_less_256 [of c] by (simp add: less_mult_imp_div_less)
  moreover have "16 * (of_char c div 16) + of_char c mod 16 = (of_char c :: nat)"
    by simp
  ultimately show ?case using Cons by simp
qed simp

lemma length_hex_EncodeToString [simp]: "length (hex_EncodeToString s) = 2 * length s"
  by (induction s) auto

section \<open>Fallible loops\<close>

text \<open>
  \<open>for_err f xs s\<close> is \<open>for _, x := range xs { if err := f(x); err != nil { return err } }\<close> on a
  state that \<open>f\<close> updates: the loop stops at the first error, with the state that error left.
\<close>

fun for_err :: "('a \<Rightarrow> 's \<Rightarrow> unit result \<times> 's) \<Rightarrow> 'a list \<Rightarrow> 's \<Rightarrow> unit result \<times> 's" where
  "for_err f [] s = (Inr (), s)"
| "for_err f (x # xs) s =
     (case f x s of (Inl e, s') \<Rightarrow> (Inl e, s') | (Inr _, s') \<Rightarrow> for_err f xs s')"

lemma for_err_inv:
  assumes "for_err f xs s = (r, s')" and "I s"
    and "\<And>x s r s'. x \<in> set xs \<Longrightarrow> I s \<Longrightarrow> f x s = (r, s') \<Longrightarrow> I s'"
  shows "I s'"
  using assms
proof (induction xs arbitrary: s)
  case (Cons x xs)
  obtain q t where q: "f x s = (q, t)" by (cases "f x s")
  have "I t" using Cons.prems(2,3) q by (meson list.set_intros(1))
  show ?case
  proof (cases q)
    case (Inl e)
    with Cons.prems(1) q \<open>I t\<close> show ?thesis by simp
  next
    case (Inr u)
    with Cons.prems(1) q have "for_err f xs t = (r, s')" by simp
    then show ?thesis using \<open>I t\<close> Cons.prems(3) by (rule Cons.IH) auto
  qed
qed auto

lemma for_err_ok:
  assumes "I s" and "\<And>x s. x \<in> set xs \<Longrightarrow> I s \<Longrightarrow> \<exists>s'. f x s = (Inr (), s') \<and> I s'"
  shows "\<exists>s'. for_err f xs s = (Inr (), s') \<and> I s'"
  using assms
proof (induction xs arbitrary: s)
  case (Cons x xs)
  obtain t where "f x s = (Inr (), t)" "I t" using Cons.prems by (meson list.set_intros(1))
  with Cons.IH [of t] Cons.prems(2) show ?case by simp
qed simp

lemma fold_inv:
  assumes "I s" and "\<And>x s. x \<in> set xs \<Longrightarrow> I s \<Longrightarrow> I (f x s)"
  shows "I (fold f xs s)"
  using assms by (induction xs arbitrary: s) auto

section \<open>Stable sorting\<close>

lemma insort_key_map: "insort_key f (h x) (map h ys) = map h (insort_key (\<lambda>r. f (h r)) x ys)"
  by (induction ys) auto

lemma sort_key_map: "sort_key f (map h xs) = map h (sort_key (\<lambda>r. f (h r)) xs)"
  by (induction xs) (auto simp: insort_key_map)

lemma insort_key_tie:
  fixes f :: "'a \<Rightarrow> 'b :: linorder" and g :: "'a \<Rightarrow> 'c :: linorder"
  assumes "\<And>y. y \<in> set ys \<Longrightarrow> g x \<le> g y"
  shows "insort_key (\<lambda>r. (f r, g r)) x ys = insort_key f x ys"
  using assms by (induction ys) (auto simp: less_eq_prod_def)

text \<open>A second key by which the list is sorted already adds nothing to a stable sort.\<close>

lemma sort_key_tie:
  fixes f :: "'a \<Rightarrow> 'b :: linorder" and g :: "'a \<Rightarrow> 'c :: linorder"
  shows "sorted (map g xs) \<Longrightarrow> sort_key (\<lambda>r. (f r, g r)) xs = sort_key f xs"
  by (induction xs) (auto intro!: insort_key_tie)

lemma sorted_map_filter: "sorted (map g xs) \<Longrightarrow> sorted (map g (filter p xs))"
  by (induction xs) auto

end
