(* ===== verification/Db_Types.thy ===== *)
theory Db_Types
  imports Go_Prelude
begin

text \<open>
  \<open>internal/db/db.go\<close>: the run and node states, the persisted records, and the interface \<open>DB\<close> as
  a record of methods over a store of type \<open>'s\<close> (a Go interface value is such a dictionary). A
  context is not a parameter: a cancelled one is one of the ways in which a statement fails, and
  every method can fail.
\<close>

section \<open>States and records\<close>

type_synonym RunState = string

definition RunStatePending :: RunState where "RunStatePending = ''pending''"
definition RunStateRunning :: RunState where "RunStateRunning = ''running''"
definition RunStateSuccess :: RunState where "RunStateSuccess = ''success''"
definition RunStateFailed :: RunState where "RunStateFailed = ''failed''"
definition RunStateCancelled :: RunState where "RunStateCancelled = ''cancelled''"

lemmas run_state_defs =
  RunStatePending_def RunStateRunning_def RunStateSuccess_def RunStateFailed_def
  RunStateCancelled_def

type_synonym NodeState = string

definition NodeStatePending :: NodeState where "NodeStatePending = ''pending''"
definition NodeStateRunning :: NodeState where "NodeStateRunning = ''running''"
definition NodeStateSuccess :: NodeState where "NodeStateSuccess = ''success''"
definition NodeStateFailed :: NodeState where "NodeStateFailed = ''failed''"
definition NodeStateSkipped :: NodeState where "NodeStateSkipped = ''skipped''"

lemmas node_state_defs =
  NodeStatePending_def NodeStateRunning_def NodeStateSuccess_def NodeStateFailed_def
  NodeStateSkipped_def

text \<open>The node states are pairwise distinct, and none is the zero value of a Go string.\<close>

lemma node_states_distinct [simp]:
  "distinct [NodeStatePending, NodeStateRunning, NodeStateSuccess, NodeStateFailed,
     NodeStateSkipped, '''']"
  by (simp add: node_state_defs)

lemma node_state_neqs [simp]:
  "NodeStatePending \<noteq> NodeStateRunning" "NodeStateRunning \<noteq> NodeStatePending"
  "NodeStatePending \<noteq> NodeStateSuccess" "NodeStateSuccess \<noteq> NodeStatePending"
  "NodeStatePending \<noteq> NodeStateFailed" "NodeStateFailed \<noteq> NodeStatePending"
  "NodeStatePending \<noteq> NodeStateSkipped" "NodeStateSkipped \<noteq> NodeStatePending"
  "NodeStateRunning \<noteq> NodeStateSuccess" "NodeStateSuccess \<noteq> NodeStateRunning"
  "NodeStateRunning \<noteq> NodeStateFailed" "NodeStateFailed \<noteq> NodeStateRunning"
  "NodeStateRunning \<noteq> NodeStateSkipped" "NodeStateSkipped \<noteq> NodeStateRunning"
  "NodeStateSuccess \<noteq> NodeStateFailed" "NodeStateFailed \<noteq> NodeStateSuccess"
  "NodeStateSuccess \<noteq> NodeStateSkipped" "NodeStateSkipped \<noteq> NodeStateSuccess"
  "NodeStateFailed \<noteq> NodeStateSkipped" "NodeStateSkipped \<noteq> NodeStateFailed"
  "NodeStatePending \<noteq> []" "NodeStateRunning \<noteq> []" "NodeStateSuccess \<noteq> []"
  "NodeStateFailed \<noteq> []" "NodeStateSkipped \<noteq> []"
  "[] \<noteq> NodeStatePending" "[] \<noteq> NodeStateRunning" "[] \<noteq> NodeStateSuccess"
  "[] \<noteq> NodeStateFailed" "[] \<noteq> NodeStateSkipped"
  by (simp_all add: node_state_defs)

text \<open>
  A \<open>time.Time\<close> is the number of nanoseconds since the Unix epoch; \<open>UnixMilli\<close> rounds down to
  milliseconds and \<open>time.UnixMilli\<close> goes back.
\<close>

type_synonym time = int

definition UnixMilli :: "time \<Rightarrow> int" where
  "UnixMilli t = t div 1000000"

definition time_UnixMilli :: "int \<Rightarrow> time" where
  "time_UnixMilli ms = ms * 1000000"

lemma UnixMilli_roundtrip [simp]: "UnixMilli (time_UnixMilli ms) = ms"
  by (simp add: UnixMilli_def time_UnixMilli_def)

lemma time_UnixMilli_le: "time_UnixMilli (UnixMilli t) \<le> t"
  by (simp add: UnixMilli_def time_UnixMilli_def)

record PipelineRun =
  run_ID :: string
  run_Project :: string
  run_State :: RunState
  run_CreatedAt :: time
  run_UpdatedAt :: time

record NodeRecord =
  nr_RunID :: string
  nr_NodeID :: string
  nr_JobID :: string
  nr_State :: NodeState
  nr_UpdatedAt :: time

record LogChunk =
  lc_JobID :: string
  lc_RunID :: string
  lc_Timestamp :: int
  lc_Line :: string
  lc_Stderr :: bool

text \<open>
  \<open>PipelineRun{}\<close> and a \<open>NodeRecord\<close> literal that sets the run, the node and the state only.
  The zero \<open>time.Time\<close> is January 1 of year 1; it is never stored, as \<open>UpsertNode\<close> writes the
  current time instead of the \<open>UpdatedAt\<close> of its argument.
\<close>

definition zero_time :: time where
  "zero_time = - 62135596800000000000"

definition zero_PipelineRun :: PipelineRun where
  "zero_PipelineRun =
     \<lparr>run_ID = [], run_Project = [], run_State = [], run_CreatedAt = zero_time,
      run_UpdatedAt = zero_time\<rparr>"

definition mk_NodeRecord :: "string \<Rightarrow> string \<Rightarrow> NodeState \<Rightarrow> NodeRecord" where
  "mk_NodeRecord rid nid st =
     \<lparr>nr_RunID = rid, nr_NodeID = nid, nr_JobID = [], nr_State = st, nr_UpdatedAt = zero_time\<rparr>"

lemma mk_NodeRecord_sel [simp]:
  "nr_RunID (mk_NodeRecord rid nid st) = rid" "nr_NodeID (mk_NodeRecord rid nid st) = nid"
  "nr_JobID (mk_NodeRecord rid nid st) = []" "nr_State (mk_NodeRecord rid nid st) = st"
  by (simp_all add: mk_NodeRecord_def)

section \<open>The interface DB\<close>

record 's DB =
  db_CreateRun :: "PipelineRun \<Rightarrow> 's \<Rightarrow> unit result \<times> 's"
  db_GetRun :: "string \<Rightarrow> 's \<Rightarrow> PipelineRun result \<times> 's"
  db_UpdateRunState :: "string \<Rightarrow> RunState \<Rightarrow> 's \<Rightarrow> unit result \<times> 's"
  db_ListRuns :: "string \<Rightarrow> int \<Rightarrow> 's \<Rightarrow> PipelineRun list result \<times> 's"
  db_UpsertNode :: "NodeRecord \<Rightarrow> 's \<Rightarrow> unit result \<times> 's"
  db_GetNode :: "string \<Rightarrow> string \<Rightarrow> 's \<Rightarrow> NodeRecord result \<times> 's"
  db_ListNodes :: "string \<Rightarrow> 's \<Rightarrow> NodeRecord list result \<times> 's"
  db_AppendLog :: "LogChunk \<Rightarrow> 's \<Rightarrow> unit result \<times> 's"
  db_GetLogs :: "string \<Rightarrow> string \<Rightarrow> 's \<Rightarrow> LogChunk list result \<times> 's"

end
