(* ===== verification/Conditions.thy ===== *)
theory Conditions
  imports Db_Types
begin

text \<open>
  The conditions of \<open>internal/pipeline/scheduler.go\<close>: \<open>depsTerminal\<close>, \<open>evalConditions\<close> and
  \<open>matchGlob\<close>, over the \<open>RunContext\<close> of \<open>internal/pipeline/run.go\<close>.
\<close>

record RunContext =
  rc_Branch :: string
  rc_Tag :: string
  rc_Event :: string

text \<open>
  A Go map from node IDs to states reads as the empty string where there is no entry, so it is a
  total function here.
\<close>

fun depsTerminal :: "string list \<Rightarrow> (string \<Rightarrow> NodeState) \<Rightarrow> bool" where
  "depsTerminal [] state = True"
| "depsTerminal (dep # deps) state =
     (if state dep = NodeStateSuccess \<or> state dep = NodeStateSkipped
      then depsTerminal deps state else False)"

definition matchGlob :: "string \<Rightarrow> string \<Rightarrow> bool" where
  "matchGlob pattern s =
     (if pattern = ''*'' then True
      else if HasSuffix pattern ''*'' then HasPrefix s (TrimSuffix pattern ''*'')
      else if HasPrefix pattern ''*'' then HasSuffix s (TrimPrefix pattern ''*'')
      else pattern = s)"

definition evalCondition :: "string \<Rightarrow> RunContext \<Rightarrow> bool" where
  "evalCondition cond rc =
     (case SplitN2 cond '' == '' of
        [k, v] \<Rightarrow>
          (let key = TrimSpace k; val = TrimSpace v in
           if key = ''branch'' then rc_Branch rc = val
           else if key = ''tag'' then matchGlob val (rc_Tag rc)
           else if key = ''event'' then rc_Event rc = val
           else False)
      | _ \<Rightarrow> False)"

fun evalConditions :: "string list \<Rightarrow> RunContext \<Rightarrow> bool" where
  "evalConditions [] rc = True"
| "evalConditions (c # cs) rc = (if \<not> evalCondition c rc then False else evalConditions cs rc)"

lemma depsTerminal_iff:
  "depsTerminal deps state \<longleftrightarrow> (\<forall>d \<in> set deps. state d \<in> {NodeStateSuccess, NodeStateSkipped})"
  by (induction deps) auto

lemma depsTerminal_mono:
  assumes "depsTerminal deps f"
    and "\<And>d. d \<in> set deps \<Longrightarrow> f d \<in> {NodeStateSuccess, NodeStateSkipped} \<Longrightarrow> g d = f d"
  shows "depsTerminal deps g"
  using assms by (auto simp: depsTerminal_iff)

lemma evalConditions_iff: "evalConditions cs rc \<longleftrightarrow> (\<forall>c \<in> set cs. evalCondition c rc)"
  by (induction cs) auto

section \<open>Glob patterns\<close>

lemma HasSuffix_star: "HasSuffix p ''*'' \<longleftrightarrow> p \<noteq> [] \<and> last p = CHR ''*''"
  by (cases p rule: rev_cases) (auto simp: HasSuffix_iff)

lemma HasPrefix_star: "HasPrefix p ''*'' \<longleftrightarrow> p \<noteq> [] \<and> hd p = CHR ''*''"
  by (cases p) (auto simp: HasPrefix_def)

text \<open>
  \<open>matchGlob\<close> has the semantics of one leading or trailing wildcard. A pattern that ends
  in a star matches the strings with the rest as a prefix (whatever else it contains, stars are
  literal there); otherwise one that starts with a star matches the strings with the rest as a
  suffix; any other pattern matches itself only.
\<close>

lemma matchGlob_spec:
  "matchGlob pattern s \<longleftrightarrow>
     (if pattern \<noteq> [] \<and> last pattern = CHR ''*'' then \<exists>t. s = butlast pattern @ t
      else if pattern \<noteq> [] \<and> hd pattern = CHR ''*'' then \<exists>t. s = t @ tl pattern
      else s = pattern)"
proof (cases "HasSuffix pattern ''*''")
  case True
  then obtain p where p: "pattern = p @ ''*''" by (auto simp: HasSuffix_iff)
  have "matchGlob (p @ ''*'') s \<longleftrightarrow> (\<exists>t. s = p @ t)"
    by (cases "p = []") (simp_all add: matchGlob_def HasPrefix_iff)
  then show ?thesis by (simp add: p)
next
  case no_suffix: False
  then have last: "\<not> (pattern \<noteq> [] \<and> last pattern = CHR ''*'')" by (simp add: HasSuffix_star)
  show ?thesis
  proof (cases "HasPrefix pattern ''*''")
    case True
    then obtain p where p: "pattern = ''*'' @ p" by (auto simp: HasPrefix_iff)
    have "TrimPrefix pattern ''*'' = p" unfolding p by (rule TrimPrefix_append)
    moreover have "pattern \<noteq> ''*''" using no_suffix by (auto simp: HasSuffix_star)
    ultimately have "matchGlob pattern s \<longleftrightarrow> HasSuffix s p"
      using no_suffix True by (simp add: matchGlob_def)
    moreover have "tl pattern = p" "hd pattern = CHR ''*''" "pattern \<noteq> []" by (simp_all add: p)
    ultimately show ?thesis using last by (simp add: HasSuffix_iff)
  next
    case False
    with no_suffix have "matchGlob pattern s \<longleftrightarrow> pattern = s"
      by (auto simp: matchGlob_def HasPrefix_star)
    with False last show ?thesis by (auto simp: HasPrefix_star)
  qed
qed

section \<open>A condition of the form key, equality, value\<close>

text \<open>The first separator decides, so a value may itself contain one.\<close>

lemma evalCondition_branch: "evalCondition (''branch == '' @ v) rc \<longleftrightarrow> rc_Branch rc = TrimSpace v"
  and evalCondition_tag: "evalCondition (''tag == '' @ v) rc \<longleftrightarrow> matchGlob (TrimSpace v) (rc_Tag rc)"
  and evalCondition_event: "evalCondition (''event == '' @ v) rc \<longleftrightarrow> rc_Event rc = TrimSpace v"
proof -
  have t: "TrimSpace ''branch'' = ''branch''" "TrimSpace ''tag'' = ''tag''" "TrimSpace ''event'' = ''event''"
    by (rule TrimSpace_id; simp add: lead_word_None space_encodings_def HasPrefix_def)+
  have s: "SplitN2 (''branch == '' @ v) '' == '' = [''branch'', v]"
    "SplitN2 (''tag == '' @ v) '' == '' = [''tag'', v]"
    "SplitN2 (''event == '' @ v) '' == '' = [''event'', v]"
    by (simp_all add: SplitN2_def HasPrefix_def)
  show "evalCondition (''branch == '' @ v) rc \<longleftrightarrow> rc_Branch rc = TrimSpace v"
    "evalCondition (''tag == '' @ v) rc \<longleftrightarrow> matchGlob (TrimSpace v) (rc_Tag rc)"
    "evalCondition (''event == '' @ v) rc \<longleftrightarrow> rc_Event rc = TrimSpace v"
    unfolding evalCondition_def s by (simp_all add: t Let_def)
qed

end
