(* ===== verification/Sql_Tables.thy ===== *)
theory Sql_Tables
  imports Db_Types "HOL-Library.Multiset"
begin

text \<open>
  The SQL that \<open>internal/db/sqlite.go\<close> and \<open>internal/db/postgres.go\<close> share: the tables
  \<open>pipeline_runs\<close> and \<open>nodes\<close> of their migrations, and the meaning of the statements they send.
  A table is the list of its rows in the order of insertion. What the engine decides is in a
  record \<open>sql_env\<close>, a parameter of every method: which statements fail, what the clock shows, and
  in which order rows come back where a SELECT does not fix it.
\<close>

section \<open>Statements on a table with a primary key\<close>

text \<open>\<open>INSERT INTO t VALUES (row)\<close>: refused (\<open>None\<close>) when the key is there.\<close>

definition insert_pk :: "('r \<Rightarrow> 'k) \<Rightarrow> 'r \<Rightarrow> 'r list \<Rightarrow> 'r list option" where
  "insert_pk key row tbl =
     (if key row \<in> key ` set tbl then None else Some (tbl @ [row]))"

text \<open>
  \<open>INSERT ... ON CONFLICT (key) DO UPDATE SET col = excluded.col\<close> for every column outside the
  key: a row with the same key is replaced where it stands.
\<close>

definition upsert_pk :: "('r \<Rightarrow> 'k) \<Rightarrow> 'r \<Rightarrow> 'r list \<Rightarrow> 'r list" where
  "upsert_pk key row tbl =
     (if key row \<in> key ` set tbl then map (\<lambda>r. if key r = key row then row else r) tbl
      else tbl @ [row])"

text \<open>\<open>UPDATE t SET ... WHERE p\<close>, \<open>DELETE FROM t WHERE p\<close>, \<open>SELECT ... WHERE key = k\<close>.\<close>

definition update_where :: "('r \<Rightarrow> bool) \<Rightarrow> ('r \<Rightarrow> 'r) \<Rightarrow> 'r list \<Rightarrow> 'r list" where
  "update_where p f tbl = map (\<lambda>r. if p r then f r else r) tbl"

definition delete_where :: "('r \<Rightarrow> bool) \<Rightarrow> 'r list \<Rightarrow> 'r list" where
  "delete_where p tbl = filter (\<lambda>r. \<not> p r) tbl"

definition select_pk :: "('r \<Rightarrow> 'k) \<Rightarrow> 'k \<Rightarrow> 'r list \<Rightarrow> 'r option" where
  "select_pk key k tbl = find (\<lambda>r. key r = k) tbl"

text \<open>The table as a map from keys to what a client sees of a row.\<close>

definition pk_view :: "('r \<Rightarrow> 'k) \<Rightarrow> ('r \<Rightarrow> 'v) \<Rightarrow> 'r list \<Rightarrow> 'k \<Rightarrow> 'v option" where
  "pk_view key val tbl = map_of (map (\<lambda>r. (key r, val r)) tbl)"

lemma pk_view_Nil [simp]: "pk_view key val [] = Map.empty"
  by (simp add: pk_view_def)

lemma pk_view_Cons: "pk_view key val (r # tbl) = (pk_view key val tbl)(key r \<mapsto> val r)"
  by (simp add: pk_view_def)

lemma pk_view_None: "pk_view key val tbl k = None \<longleftrightarrow> k \<notin> key ` set tbl"
  by (auto simp: pk_view_def map_of_eq_None_iff image_image)

lemma pk_view_select: "pk_view key val tbl k = map_option val (select_pk key k tbl)"
  by (induction tbl) (auto simp: select_pk_def pk_view_def)

lemma select_pk_Some: "select_pk key k tbl = Some r \<Longrightarrow> r \<in> set tbl \<and> key r = k"
  by (auto simp: select_pk_def find_Some_iff)

lemma pk_view_replace:
  "pk_view key val (map (\<lambda>r. if key r = key row then row else r) tbl) =
     (if key row \<in> key ` set tbl then (pk_view key val tbl)(key row \<mapsto> val row)
      else pk_view key val tbl)"
  by (induction tbl) (auto simp: pk_view_Cons fun_upd_twist)

lemma pk_view_append:
  "key row \<notin> key ` set tbl \<Longrightarrow>
     pk_view key val (tbl @ [row]) = (pk_view key val tbl)(key row \<mapsto> val row)"
  by (induction tbl) (auto simp: pk_view_Cons fun_upd_twist)

lemma pk_view_insert:
  "insert_pk key row tbl = Some tbl' \<Longrightarrow>
     key row \<notin> dom (pk_view key val tbl)
     \<and> pk_view key val tbl' = (pk_view key val tbl)(key row \<mapsto> val row)"
  by (auto simp: insert_pk_def pk_view_append domIff pk_view_None split: if_splits)

lemma pk_view_upsert:
  "pk_view key val (upsert_pk key row tbl) = (pk_view key val tbl)(key row \<mapsto> val row)"
  by (simp add: upsert_pk_def pk_view_replace pk_view_append)

lemma pk_view_update:
  assumes "\<And>r. key (f r) = key r" and "\<And>r. val (f r) = g (val r)"
  shows "pk_view key val (update_where (\<lambda>r. key r = k) f tbl) =
    (pk_view key val tbl)(k := map_option g (pk_view key val tbl k))"
  using assms by (induction tbl) (auto simp: pk_view_Cons update_where_def fun_eq_iff)

lemma pk_view_delete:
  "pk_view key val (delete_where (\<lambda>r. key r = k) tbl) = (pk_view key val tbl)(k := None)"
  by (induction tbl) (auto simp: pk_view_Cons delete_where_def fun_eq_iff)

lemma distinct_insert_pk:
  "insert_pk key row tbl = Some tbl' \<Longrightarrow> distinct (map key tbl) \<Longrightarrow> distinct (map key tbl')"
  by (auto simp: insert_pk_def split: if_splits)

lemma map_key_replace:
  "map key (map (\<lambda>r. if key r = key row then row else r) tbl) = map key tbl"
  by (induction tbl) auto

lemma distinct_upsert_pk:
  "distinct (map key tbl) \<Longrightarrow> distinct (map key (upsert_pk key row tbl))"
  by (simp add: upsert_pk_def map_key_replace del: map_map)

lemma map_key_update_where:
  "(\<And>r. key (f r) = key r) \<Longrightarrow> map key (update_where p f tbl) = map key tbl"
  by (induction tbl) (auto simp: update_where_def)

text \<open>A permutation of rows with distinct keys shows the same map.\<close>

lemma distinct_map_mset:
  assumes "mset xs = mset ys" and "distinct (map f ys)"
  shows "distinct (map f xs)"
proof -
  have "mset (map f xs) = mset (map f ys)" using assms(1) by simp
  with assms(2) show ?thesis by (metis distinct_count_atmost_1 mset_eq_setD)
qed

lemma pk_view_permute:
  assumes "mset xs = mset ys" and "distinct (map key ys)"
  shows "pk_view key val xs = pk_view key val ys"
proof -
  let ?p = "map (\<lambda>r. (key r, val r))"
  have "distinct (map fst (?p ys))" "distinct (map fst (?p xs))"
    using assms distinct_map_mset [OF assms] by (simp_all add: comp_def)
  moreover have "set (?p xs) = set (?p ys)"
    using mset_eq_setD [OF assms(1)] by simp
  ultimately show ?thesis
    by (simp add: pk_view_def map_of_inject_set)
qed

lemma distinct_map_filter: "distinct (map f xs) \<Longrightarrow> distinct (map f (filter p xs))"
  by (induction xs) auto

section \<open>The tables of the migrations\<close>

record run_row =
  rr_id :: string
  rr_project :: string
  rr_state :: string
  rr_created_at :: int
  rr_updated_at :: int

record node_row =
  nw_run_id :: string
  nw_node_id :: string
  nw_job_id :: string
  nw_state :: string
  nw_updated_at :: int

abbreviation node_key :: "node_row \<Rightarrow> string \<times> string" where
  "node_key n \<equiv> (nw_run_id n, nw_node_id n)"

text \<open>
  The part of a store that both engines have: \<open>st_stmts\<close> counts the statements sent so far and
  \<open>st_next_log\<close> is the next value of the key of \<open>log_chunks\<close>.
\<close>

record sql_store =
  st_runs :: "run_row list"
  st_nodes :: "node_row list"
  st_stmts :: nat
  st_next_log :: int

text \<open>
  The engine and the clock. \<open>env_fault n\<close> is the failure of the \<open>n\<close>-th statement, if it fails: its
  connection, its context, or the \<open>Scan\<close> of a row. \<open>env_now n\<close> is what \<open>time.Now()\<close> returns for it.
  The two ranks give the order of the rows that SQL leaves open: rows come back sorted by rank, so
  every order of distinct rows is possible. \<open>env_text\<close> says which texts a PostgreSQL database takes as
  parameters: with the encoding UTF8 it documents that these are the valid ones without a NUL byte.
\<close>

record sql_env =
  env_fault :: "nat \<Rightarrow> string option"
  env_now :: "nat \<Rightarrow> time"
  env_run_rank :: "nat \<Rightarrow> run_row \<Rightarrow> int"
  env_node_rank :: "nat \<Rightarrow> node_row \<Rightarrow> int"
  env_text :: "string \<Rightarrow> bool"

text \<open>One statement: it fails with no effect, or runs \<open>body\<close> with its number.\<close>

definition sql_exec ::
  "sql_env \<Rightarrow> (nat \<Rightarrow> 'd sql_store_scheme \<Rightarrow> 'a result \<times> 'd sql_store_scheme) \<Rightarrow>
   'd sql_store_scheme \<Rightarrow> 'a result \<times> 'd sql_store_scheme" where
  "sql_exec env body db =
     (let n = st_stmts db; db1 = db\<lparr>st_stmts := Suc n\<rparr> in
      case env_fault env n of
        Some m \<Rightarrow> (Inl (DriverErr m), db1)
      | None \<Rightarrow> body n db1)"

section \<open>Opening a database\<close>

text \<open>
  The migrations only hold statements with \<open>IF NOT EXISTS\<close>, so that the tables of an earlier start are kept.
  A driver says whether a database can be opened, what it holds (\<open>None\<close>: no tables), and whether the
  statements of the migration succeed.
\<close>

record 't sql_driver =
  sd_Open :: "string \<Rightarrow> unit result"
  sd_tables :: "string \<Rightarrow> 't option"
  sd_Exec :: "string \<Rightarrow> unit result"

definition migrated :: "'t \<Rightarrow> 't sql_driver \<Rightarrow> string \<Rightarrow> 't result" where
  "migrated fresh drv path =
     (case sd_Exec drv path of
        Inl e \<Rightarrow> Inl e
      | Inr _ \<Rightarrow> Inr (case sd_tables drv path of None \<Rightarrow> fresh | Some db \<Rightarrow> db))"

text \<open>The values that an INSERT binds, and what \<open>Scan\<close> makes of a row.\<close>

definition row_of_run :: "PipelineRun \<Rightarrow> run_row" where
  "row_of_run run =
     \<lparr>rr_id = run_ID run, rr_project = run_Project run, rr_state = run_State run,
      rr_created_at = UnixMilli (run_CreatedAt run),
      rr_updated_at = UnixMilli (run_UpdatedAt run)\<rparr>"

definition row_of_node :: "NodeRecord \<Rightarrow> time \<Rightarrow> node_row" where
  "row_of_node nr now =
     \<lparr>nw_run_id = nr_RunID nr, nw_node_id = nr_NodeID nr, nw_job_id = nr_JobID nr,
      nw_state = nr_State nr, nw_updated_at = UnixMilli now\<rparr>"

definition scan_run :: "run_row \<Rightarrow> PipelineRun" where
  "scan_run r =
     \<lparr>run_ID = rr_id r, run_Project = rr_project r, run_State = rr_state r,
      run_CreatedAt = time_UnixMilli (rr_created_at r),
      run_UpdatedAt = time_UnixMilli (rr_updated_at r)\<rparr>"

definition scan_node :: "node_row \<Rightarrow> NodeRecord" where
  "scan_node n =
     \<lparr>nr_RunID = nw_run_id n, nr_NodeID = nw_node_id n, nr_JobID = nw_job_id n,
      nr_State = nw_state n, nr_UpdatedAt = time_UnixMilli (nw_updated_at n)\<rparr>"

text \<open>What a client sees of the tables: project and state of a run, job and state of a node.\<close>

definition store_runs :: "'d sql_store_scheme \<Rightarrow> string \<Rightarrow> (string \<times> RunState) option" where
  "store_runs db = pk_view rr_id (\<lambda>r. (rr_project r, rr_state r)) (st_runs db)"

definition store_nodes ::
  "'d sql_store_scheme \<Rightarrow> string \<times> string \<Rightarrow> (string \<times> NodeState) option" where
  "store_nodes db = pk_view node_key (\<lambda>n. (nw_job_id n, nw_state n)) (st_nodes db)"

text \<open>The primary keys hold: no two rows of a table share theirs.\<close>

definition store_ok :: "'d sql_store_scheme \<Rightarrow> bool" where
  "store_ok db \<longleftrightarrow> distinct (map rr_id (st_runs db)) \<and> distinct (map node_key (st_nodes db))"

end
