(* ===== verification/Db_Sqlite.thy ===== *)
theory Db_Sqlite
  imports Sql_Tables
begin

text \<open>
  \<open>internal/db/sqlite.go\<close>: the methods of \<open>SQLiteDB\<close>. Each is one statement on the tables of
  \<open>migrate\<close>, in the terms of \<open>Sql_Tables\<close>. The column \<open>stderr\<close> is
  an INTEGER (0 or 1) here, and a negative LIMIT is no limit.
\<close>

record sqlite_log_row =
  sl_id :: int
  sl_job_id :: string
  sl_run_id :: string
  sl_timestamp :: int
  sl_line :: string
  sl_stderr :: int

record SQLiteDB = sql_store +
  sq_logs :: "sqlite_log_row list"

text \<open>The tables that \<open>migrate\<close> creates in a new database.\<close>

definition SQLite_migrate_new :: SQLiteDB where
  "SQLite_migrate_new =
     \<lparr>st_runs = [], st_nodes = [], st_stmts = 0, st_next_log = 1, sq_logs = []\<rparr>"

text \<open>\<open>OpenSQLite\<close>, with what the driver makes of the path.\<close>

definition SQLite_migrate :: "SQLiteDB sql_driver \<Rightarrow> string \<Rightarrow> SQLiteDB result" where
  "SQLite_migrate = migrated SQLite_migrate_new"

definition OpenSQLite :: "SQLiteDB sql_driver \<Rightarrow> string \<Rightarrow> SQLiteDB result" where
  "OpenSQLite drv path =
     (case sd_Open drv path of
        Inl e \<Rightarrow> Inl (Wrapf ''open sqlite'' [] e)
      | Inr _ \<Rightarrow> (case SQLite_migrate drv path of Inl e \<Rightarrow> Inl e | Inr s \<Rightarrow> Inr s))"

section \<open>Runs\<close>

definition SQLite_CreateRun :: "sql_env \<Rightarrow> PipelineRun \<Rightarrow> SQLiteDB \<Rightarrow> unit result \<times> SQLiteDB" where
  "SQLite_CreateRun env run =
     sql_exec env (\<lambda>_ db.
       case insert_pk rr_id (row_of_run run) (st_runs db) of
         None \<Rightarrow> (Inl ErrConstraint, db)
       | Some rs \<Rightarrow> (Inr (), db\<lparr>st_runs := rs\<rparr>))"

definition SQLite_GetRun :: "sql_env \<Rightarrow> string \<Rightarrow> SQLiteDB \<Rightarrow> PipelineRun result \<times> SQLiteDB" where
  "SQLite_GetRun env rid db0 =
     (case sql_exec env (\<lambda>_ db.
             case select_pk rr_id rid (st_runs db) of
               None \<Rightarrow> (Inl ErrNoRows, db)
             | Some r \<Rightarrow> (Inr (scan_run r), db)) db0 of
        (Inl e, db1) \<Rightarrow> (Inl (Wrapf ''get run %s'' [rid] e), db1)
      | (Inr r, db1) \<Rightarrow> (Inr r, db1))"

definition SQLite_UpdateRunState ::
  "sql_env \<Rightarrow> string \<Rightarrow> RunState \<Rightarrow> SQLiteDB \<Rightarrow> unit result \<times> SQLiteDB" where
  "SQLite_UpdateRunState env rid state =
     sql_exec env (\<lambda>n db.
       (Inr (), db\<lparr>st_runs := update_where (\<lambda>r. rr_id r = rid)
          (\<lambda>r. r\<lparr>rr_state := state, rr_updated_at := UnixMilli (env_now env n)\<rparr>) (st_runs db)\<rparr>))"

definition SQLite_ListRuns ::
  "sql_env \<Rightarrow> string \<Rightarrow> int \<Rightarrow> SQLiteDB \<Rightarrow> PipelineRun list result \<times> SQLiteDB" where
  "SQLite_ListRuns env project limit =
     sql_exec env (\<lambda>n db.
       let rows = sort_key (\<lambda>r. - rr_created_at r)
                    (sort_key (env_run_rank env n) (filter (\<lambda>r. rr_project r = project) (st_runs db)))
       in (Inr (map scan_run (if limit < 0 then rows else take (nat limit) rows)), db))"

section \<open>Nodes\<close>

definition SQLite_UpsertNode :: "sql_env \<Rightarrow> NodeRecord \<Rightarrow> SQLiteDB \<Rightarrow> unit result \<times> SQLiteDB" where
  "SQLite_UpsertNode env nr =
     sql_exec env (\<lambda>n db.
       (Inr (), db\<lparr>st_nodes := upsert_pk node_key (row_of_node nr (env_now env n)) (st_nodes db)\<rparr>))"

definition SQLite_GetNode ::
  "sql_env \<Rightarrow> string \<Rightarrow> string \<Rightarrow> SQLiteDB \<Rightarrow> NodeRecord result \<times> SQLiteDB" where
  "SQLite_GetNode env runID nodeID db0 =
     (case sql_exec env (\<lambda>_ db.
             case select_pk node_key (runID, nodeID) (st_nodes db) of
               None \<Rightarrow> (Inl ErrNoRows, db)
             | Some r \<Rightarrow> (Inr (scan_node r), db)) db0 of
        (Inl e, db1) \<Rightarrow> (Inl (Wrapf ''get node %s/%s'' [runID, nodeID] e), db1)
      | (Inr r, db1) \<Rightarrow> (Inr r, db1))"

definition SQLite_ListNodes ::
  "sql_env \<Rightarrow> string \<Rightarrow> SQLiteDB \<Rightarrow> NodeRecord list result \<times> SQLiteDB" where
  "SQLite_ListNodes env runID =
     sql_exec env (\<lambda>n db.
       (Inr (map scan_node
          (sort_key (env_node_rank env n) (filter (\<lambda>r. nw_run_id r = runID) (st_nodes db)))), db))"

section \<open>Logs\<close>

definition SQLite_AppendLog :: "sql_env \<Rightarrow> LogChunk \<Rightarrow> SQLiteDB \<Rightarrow> unit result \<times> SQLiteDB" where
  "SQLite_AppendLog env chunk =
     sql_exec env (\<lambda>_ db.
       let stderr = (if lc_Stderr chunk then 1 else 0) in
       (Inr (), db\<lparr>sq_logs := sq_logs db @
            [\<lparr>sl_id = st_next_log db, sl_job_id = lc_JobID chunk, sl_run_id = lc_RunID chunk,
              sl_timestamp = lc_Timestamp chunk, sl_line = lc_Line chunk, sl_stderr = stderr\<rparr>],
            st_next_log := st_next_log db + 1\<rparr>))"

definition SQLite_scan_log :: "sqlite_log_row \<Rightarrow> LogChunk" where
  "SQLite_scan_log r =
     \<lparr>lc_JobID = sl_job_id r, lc_RunID = sl_run_id r, lc_Timestamp = sl_timestamp r,
      lc_Line = sl_line r, lc_Stderr = sl_stderr r \<noteq> 0\<rparr>"

definition SQLite_GetLogs ::
  "sql_env \<Rightarrow> string \<Rightarrow> string \<Rightarrow> SQLiteDB \<Rightarrow> LogChunk list result \<times> SQLiteDB" where
  "SQLite_GetLogs env runID jobID =
     sql_exec env (\<lambda>_ db.
       (Inr (map SQLite_scan_log (sort_key (\<lambda>r. (sl_timestamp r, sl_id r))
          (filter (\<lambda>r. sl_run_id r = runID \<and> sl_job_id r = jobID) (sq_logs db)))), db))"

section \<open>The interface value\<close>


definition SQLite_DB :: "sql_env \<Rightarrow> SQLiteDB DB" where
  "SQLite_DB env =
     \<lparr>db_CreateRun = SQLite_CreateRun env, db_GetRun = SQLite_GetRun env,
      db_UpdateRunState = SQLite_UpdateRunState env, db_ListRuns = SQLite_ListRuns env,
      db_UpsertNode = SQLite_UpsertNode env, db_GetNode = SQLite_GetNode env,
      db_ListNodes = SQLite_ListNodes env, db_AppendLog = SQLite_AppendLog env,
      db_GetLogs = SQLite_GetLogs env\<rparr>"

lemmas SQLite_defs =
  SQLite_CreateRun_def SQLite_GetRun_def SQLite_UpdateRunState_def SQLite_ListRuns_def
  SQLite_UpsertNode_def SQLite_GetNode_def SQLite_ListNodes_def SQLite_AppendLog_def SQLite_GetLogs_def

end
