(* ===== verification/Db_Postgres.thy ===== *)
theory Db_Postgres
  imports Sql_Tables
begin

text \<open>
  \<open>internal/db/postgres.go\<close>: the methods of \<open>PostgresDB\<close>. Each is one statement on the tables of
  \<open>migrate\<close>, in the terms of \<open>Sql_Tables\<close>. The column \<open>stderr\<close> is
  a BOOLEAN here, a negative LIMIT is an error of the engine, and so is a parameter that is not a TEXT.
\<close>

record postgres_log_row =
  pg_id :: int
  pg_job_id :: string
  pg_run_id :: string
  pg_timestamp :: int
  pg_line :: string
  pg_stderr :: bool

record PostgresDB = sql_store +
  pg_logs :: "postgres_log_row list"

text \<open>The tables that \<open>migrate\<close> creates in a new database.\<close>

definition Postgres_migrate_new :: PostgresDB where
  "Postgres_migrate_new =
     \<lparr>st_runs = [], st_nodes = [], st_stmts = 0, st_next_log = 1, pg_logs = []\<rparr>"

text \<open>\<open>OpenPostgres\<close>, with what the driver makes of the DSN.\<close>

definition Postgres_migrate :: "PostgresDB sql_driver \<Rightarrow> string \<Rightarrow> PostgresDB result" where
  "Postgres_migrate = migrated Postgres_migrate_new"

definition OpenPostgres :: "PostgresDB sql_driver \<Rightarrow> string \<Rightarrow> PostgresDB result" where
  "OpenPostgres drv dsn =
     (case sd_Open drv dsn of
        Inl e \<Rightarrow> Inl (Wrapf ''open postgres'' [] e)
      | Inr _ \<Rightarrow> (case Postgres_migrate drv dsn of Inl e \<Rightarrow> Inl e | Inr p \<Rightarrow> Inr p))"

section \<open>Statements with parameters\<close>

text \<open>The engine under a statement with these texts as parameters: it fails when one of them is refused.\<close>

definition pg_env :: "sql_env \<Rightarrow> string list \<Rightarrow> sql_env" where
  "pg_env env texts =
     env\<lparr>env_fault := (\<lambda>n.
       case env_fault env n of
         Some m \<Rightarrow> Some m
       | None \<Rightarrow> if list_all (env_text env) texts then None else Some ''pq: invalid byte sequence for encoding'')\<rparr>"

definition pg_exec ::
  "sql_env \<Rightarrow> string list \<Rightarrow> (nat \<Rightarrow> 'd sql_store_scheme \<Rightarrow> 'a result \<times> 'd sql_store_scheme) \<Rightarrow>
   'd sql_store_scheme \<Rightarrow> 'a result \<times> 'd sql_store_scheme" where
  "pg_exec env texts = sql_exec (pg_env env texts)"

lemma pg_env_takes: "list_all (env_text env) texts \<Longrightarrow> pg_env env texts = env"
  by (cases env) (auto simp: pg_env_def fun_eq_iff split: option.split)

lemma pg_env_now: "env_now (pg_env env texts) = env_now env"
  by (simp add: pg_env_def)

lemma pg_exec_takes: "list_all (env_text env) texts \<Longrightarrow> pg_exec env texts = sql_exec env"
  by (simp add: pg_exec_def pg_env_takes)

section \<open>Runs\<close>

definition Postgres_CreateRun :: "sql_env \<Rightarrow> PipelineRun \<Rightarrow> PostgresDB \<Rightarrow> unit result \<times> PostgresDB" where
  "Postgres_CreateRun env run =
     pg_exec env [run_ID run, run_Project run, run_State run] (\<lambda>_ db.
       case insert_pk rr_id (row_of_run run) (st_runs db) of
         None \<Rightarrow> (Inl ErrConstraint, db)
       | Some rs \<Rightarrow> (Inr (), db\<lparr>st_runs := rs\<rparr>))"

definition Postgres_GetRun :: "sql_env \<Rightarrow> string \<Rightarrow> PostgresDB \<Rightarrow> PipelineRun result \<times> PostgresDB" where
  "Postgres_GetRun env rid db0 =
     (case pg_exec env [rid] (\<lambda>_ db.
             case select_pk rr_id rid (st_runs db) of
               None \<Rightarrow> (Inl ErrNoRows, db)
             | Some r \<Rightarrow> (Inr (scan_run r), db)) db0 of
        (Inl e, db1) \<Rightarrow> (Inl (Wrapf ''get run %s'' [rid] e), db1)
      | (Inr r, db1) \<Rightarrow> (Inr r, db1))"

definition Postgres_UpdateRunState ::
  "sql_env \<Rightarrow> string \<Rightarrow> RunState \<Rightarrow> PostgresDB \<Rightarrow> unit result \<times> PostgresDB" where
  "Postgres_UpdateRunState env rid state =
     pg_exec env [state, rid] (\<lambda>n db.
       (Inr (), db\<lparr>st_runs := update_where (\<lambda>r. rr_id r = rid)
          (\<lambda>r. r\<lparr>rr_state := state, rr_updated_at := UnixMilli (env_now env n)\<rparr>) (st_runs db)\<rparr>))"

definition Postgres_ListRuns ::
  "sql_env \<Rightarrow> string \<Rightarrow> int \<Rightarrow> PostgresDB \<Rightarrow> PipelineRun list result \<times> PostgresDB" where
  "Postgres_ListRuns env project limit =
     pg_exec env [project] (\<lambda>n db.
       let rows = sort_key (\<lambda>r. - rr_created_at r)
                    (sort_key (env_run_rank env n) (filter (\<lambda>r. rr_project r = project) (st_runs db)))
       in if limit < 0 then (Inl (DriverErr ''LIMIT must not be negative''), db)
          else (Inr (map scan_run (take (nat limit) rows)), db))"

section \<open>Nodes\<close>

definition Postgres_UpsertNode :: "sql_env \<Rightarrow> NodeRecord \<Rightarrow> PostgresDB \<Rightarrow> unit result \<times> PostgresDB" where
  "Postgres_UpsertNode env nr =
     pg_exec env [nr_RunID nr, nr_NodeID nr, nr_JobID nr, nr_State nr] (\<lambda>n db.
       (Inr (), db\<lparr>st_nodes := upsert_pk node_key (row_of_node nr (env_now env n)) (st_nodes db)\<rparr>))"

definition Postgres_GetNode ::
  "sql_env \<Rightarrow> string \<Rightarrow> string \<Rightarrow> PostgresDB \<Rightarrow> NodeRecord result \<times> PostgresDB" where
  "Postgres_GetNode env runID nodeID db0 =
     (case pg_exec env [runID, nodeID] (\<lambda>_ db.
             case select_pk node_key (runID, nodeID) (st_nodes db) of
               None \<Rightarrow> (Inl ErrNoRows, db)
             | Some r \<Rightarrow> (Inr (scan_node r), db)) db0 of
        (Inl e, db1) \<Rightarrow> (Inl (Wrapf ''get node %s/%s'' [runID, nodeID] e), db1)
      | (Inr r, db1) \<Rightarrow> (Inr r, db1))"

definition Postgres_ListNodes ::
  "sql_env \<Rightarrow> string \<Rightarrow> PostgresDB \<Rightarrow> NodeRecord list result \<times> PostgresDB" where
  "Postgres_ListNodes env runID =
     pg_exec env [runID] (\<lambda>n db.
       (Inr (map scan_node
          (sort_key (env_node_rank env n) (filter (\<lambda>r. nw_run_id r = runID) (st_nodes db)))), db))"

section \<open>Logs\<close>

definition Postgres_AppendLog :: "sql_env \<Rightarrow> LogChunk \<Rightarrow> PostgresDB \<Rightarrow> unit result \<times> PostgresDB" where
  "Postgres_AppendLog env chunk =
     pg_exec env [lc_JobID chunk, lc_RunID chunk, lc_Line chunk] (\<lambda>_ db.
       let stderr = lc_Stderr chunk in
       (Inr (), db\<lparr>pg_logs := pg_logs db @
            [\<lparr>pg_id = st_next_log db, pg_job_id = lc_JobID chunk, pg_run_id = lc_RunID chunk,
              pg_timestamp = lc_Timestamp chunk, pg_line = lc_Line chunk, pg_stderr = stderr\<rparr>],
            st_next_log := st_next_log db + 1\<rparr>))"

definition Postgres_scan_log :: "postgres_log_row \<Rightarrow> LogChunk" where
  "Postgres_scan_log r =
     \<lparr>lc_JobID = pg_job_id r, lc_RunID = pg_run_id r, lc_Timestamp = pg_timestamp r,
      lc_Line = pg_line r, lc_Stderr = pg_stderr r\<rparr>"

definition Postgres_GetLogs ::
  "sql_env \<Rightarrow> string \<Rightarrow> string \<Rightarrow> PostgresDB \<Rightarrow> LogChunk list result \<times> PostgresDB" where
  "Postgres_GetLogs env runID jobID =
     pg_exec env [runID, jobID] (\<lambda>_ db.
       (Inr (map Postgres_scan_log (sort_key (\<lambda>r. (pg_timestamp r, pg_id r))
          (filter (\<lambda>r. pg_run_id r = runID \<and> pg_job_id r = jobID) (pg_logs db)))), db))"

section \<open>The interface value\<close>


definition Postgres_DB :: "sql_env \<Rightarrow> PostgresDB DB" where
  "Postgres_DB env =
     \<lparr>db_CreateRun = Postgres_CreateRun env, db_GetRun = Postgres_GetRun env,
      db_UpdateRunState = Postgres_UpdateRunState env, db_ListRuns = Postgres_ListRuns env,
      db_UpsertNode = Postgres_UpsertNode env, db_GetNode = Postgres_GetNode env,
      db_ListNodes = Postgres_ListNodes env, db_AppendLog = Postgres_AppendLog env,
      db_GetLogs = Postgres_GetLogs env\<rparr>"

lemmas Postgres_defs =
  Postgres_CreateRun_def Postgres_GetRun_def Postgres_UpdateRunState_def Postgres_ListRuns_def
  Postgres_UpsertNode_def Postgres_GetNode_def Postgres_ListNodes_def Postgres_AppendLog_def Postgres_GetLogs_def

end
