(* ===== verification/Db_Contract.thy ===== *)
theory Db_Contract
  imports Db_Sqlite Db_Postgres
begin

text \<open>
  What a client of the interface \<open>DB\<close> may rely on, as a locale over the dictionary of methods, an
  invariant of the store and two views of it: the project and state of each run, the job and state
  of each node. Both backends provide it. The laws leave the clock, the order of unsorted rows
  and the choice of the statements that fail open; a call that fails changes no view.
\<close>

section \<open>The contract\<close>

definition reads_only ::
  "('s \<Rightarrow> bool) \<Rightarrow> ('s \<Rightarrow> 'r) \<Rightarrow> ('s \<Rightarrow> 'n) \<Rightarrow> 's \<Rightarrow> 's \<Rightarrow> bool" where
  "reads_only valid run_view node_view s s' \<longleftrightarrow>
     valid s' \<and> run_view s' = run_view s \<and> node_view s' = node_view s"

locale db_contract =
  fixes D :: "'s DB"
    and valid :: "'s \<Rightarrow> bool"
    and run_view :: "'s \<Rightarrow> string \<Rightarrow> (string \<times> RunState) option"
    and node_view :: "'s \<Rightarrow> string \<times> string \<Rightarrow> (string \<times> NodeState) option"
  assumes create_run_ok:
      "valid s \<Longrightarrow> db_CreateRun D r s = (Inr u, s') \<Longrightarrow>
         valid s' \<and> node_view s' = node_view s \<and> run_view s (run_ID r) = None
         \<and> run_view s' = (run_view s)(run_ID r \<mapsto> (run_Project r, run_State r))"
    and create_run_err:
      "valid s \<Longrightarrow> db_CreateRun D r s = (Inl e, s') \<Longrightarrow> reads_only valid run_view node_view s s'"
    and get_run:
      "valid s \<Longrightarrow> db_GetRun D i s = (qr, s') \<Longrightarrow> reads_only valid run_view node_view s s'"
    and get_run_ok:
      "valid s \<Longrightarrow> db_GetRun D i s = (Inr r, s') \<Longrightarrow>
         run_ID r = i \<and> run_view s i = Some (run_Project r, run_State r)"
    and update_run_ok:
      "valid s \<Longrightarrow> db_UpdateRunState D i st s = (Inr u, s') \<Longrightarrow>
         valid s' \<and> node_view s' = node_view s
         \<and> run_view s' = (run_view s)(i := map_option (\<lambda>(p, _). (p, st)) (run_view s i))"
    and update_run_err:
      "valid s \<Longrightarrow> db_UpdateRunState D i st s = (Inl e, s') \<Longrightarrow>
         reads_only valid run_view node_view s s'"
    and upsert_node_ok:
      "valid s \<Longrightarrow> db_UpsertNode D n s = (Inr u, s') \<Longrightarrow>
         valid s' \<and> run_view s' = run_view s
         \<and> node_view s' = (node_view s)((nr_RunID n, nr_NodeID n) \<mapsto> (nr_JobID n, nr_State n))"
    and upsert_node_err:
      "valid s \<Longrightarrow> db_UpsertNode D n s = (Inl e, s') \<Longrightarrow> reads_only valid run_view node_view s s'"
    and list_nodes:
      "valid s \<Longrightarrow> db_ListNodes D i s = (ql, s') \<Longrightarrow> reads_only valid run_view node_view s s'"
    and list_nodes_ok:
      "valid s \<Longrightarrow> db_ListNodes D i s = (Inr ns, s') \<Longrightarrow>
         distinct (map nr_NodeID ns) \<and> (\<forall>n \<in> set ns. nr_RunID n = i)
         \<and> (\<forall>k. pk_view nr_NodeID (\<lambda>n. (nr_JobID n, nr_State n)) ns k = node_view s (i, k))"
begin

lemma upsert_node_inv: "valid s \<Longrightarrow> db_UpsertNode D n s = (q, s') \<Longrightarrow> valid s'"
  by (cases q) (auto dest: upsert_node_ok upsert_node_err simp: reads_only_def)

lemma upsert_node_runs: "valid s \<Longrightarrow> db_UpsertNode D n s = (q, s') \<Longrightarrow> run_view s' = run_view s"
  by (cases q) (auto dest: upsert_node_ok upsert_node_err simp: reads_only_def)

lemma update_run_inv: "valid s \<Longrightarrow> db_UpdateRunState D i st s = (q, s') \<Longrightarrow> valid s'"
  by (cases q) (auto dest: update_run_ok update_run_err simp: reads_only_def)

lemma update_run_nodes:
  "valid s \<Longrightarrow> db_UpdateRunState D i st s = (q, s') \<Longrightarrow> node_view s' = node_view s"
  by (cases q) (auto dest: update_run_ok update_run_err simp: reads_only_def)

lemma create_run_inv: "valid s \<Longrightarrow> db_CreateRun D r s = (q, s') \<Longrightarrow> valid s'"
  by (cases q) (auto dest: create_run_ok create_run_err simp: reads_only_def)

lemma create_run_nodes: "valid s \<Longrightarrow> db_CreateRun D r s = (q, s') \<Longrightarrow> node_view s' = node_view s"
  by (cases q) (auto dest: create_run_ok create_run_err simp: reads_only_def)

text \<open>The listing of a run holds a node in state \<open>st\<close> exactly when the store does.\<close>

lemma list_nodes_state:
  assumes "valid s" and "db_ListNodes D i s = (Inr ns, s')"
  shows "(\<exists>n \<in> set ns. nr_NodeID n = k \<and> nr_State n = st) \<longleftrightarrow>
         (\<exists>j. node_view s (i, k) = Some (j, st))"
proof -
  let ?m = "map (\<lambda>n. (nr_NodeID n, (nr_JobID n, nr_State n))) ns"
  have d: "distinct (map fst ?m)" and v: "map_of ?m k = node_view s (i, k)"
    using list_nodes_ok [OF assms] by (simp_all add: comp_def pk_view_def)
  have "(\<exists>j. map_of ?m k = Some (j, st)) \<longleftrightarrow> (\<exists>j. (k, (j, st)) \<in> set ?m)"
    by (simp only: map_of_eq_Some_iff [OF d])
  also have "\<dots> \<longleftrightarrow> (\<exists>n \<in> set ns. nr_NodeID n = k \<and> nr_State n = st)" by auto
  finally show ?thesis by (simp add: v)
qed

end

text \<open>The log table extends the contract: chunks come back by timestamp, then in append order.\<close>

locale db_log_contract = db_contract +
  fixes log_view :: "'s \<Rightarrow> LogChunk list"
  assumes append_log_ok:
      "valid s \<Longrightarrow> db_AppendLog D c s = (Inr u, s') \<Longrightarrow>
         reads_only valid run_view node_view s s' \<and> log_view s' = log_view s @ [c]"
    and append_log_err:
      "valid s \<Longrightarrow> db_AppendLog D c s = (Inl e, s') \<Longrightarrow>
         reads_only valid run_view node_view s s' \<and> log_view s' = log_view s"
    and get_logs:
      "valid s \<Longrightarrow> db_GetLogs D i j s = (ql, s') \<Longrightarrow>
         reads_only valid run_view node_view s s' \<and> log_view s' = log_view s"
    and get_logs_ok:
      "valid s \<Longrightarrow> db_GetLogs D i j s = (Inr cs, s') \<Longrightarrow>
         cs = sort_key lc_Timestamp (filter (\<lambda>c. lc_RunID c = i \<and> lc_JobID c = j) (log_view s))"
    and get_run_logs: "valid s \<Longrightarrow> db_GetRun D i s = (qr, s') \<Longrightarrow> log_view s' = log_view s"
    and update_run_logs:
      "valid s \<Longrightarrow> db_UpdateRunState D i st s = (qu, s') \<Longrightarrow> log_view s' = log_view s"
begin

lemma append_log_inv: "valid s \<Longrightarrow> db_AppendLog D c s = (q, s') \<Longrightarrow> valid s'"
  by (cases q) (auto dest: append_log_ok append_log_err simp: reads_only_def)

end

section \<open>Facts about the shared statements\<close>

lemma store_stmts [simp]:
  "store_ok (db\<lparr>st_stmts := n\<rparr>) = store_ok db"
  "store_runs (db\<lparr>st_stmts := n\<rparr>) = store_runs db"
  "store_nodes (db\<lparr>st_stmts := n\<rparr>) = store_nodes db"
  by (simp_all add: store_ok_def store_runs_def store_nodes_def)

lemma scan_run_sel [simp]:
  "run_ID (scan_run r) = rr_id r" "run_Project (scan_run r) = rr_project r"
  "run_State (scan_run r) = rr_state r"
  by (simp_all add: scan_run_def)

lemma scan_node_sel [simp]:
  "nr_RunID (scan_node n) = nw_run_id n" "nr_NodeID (scan_node n) = nw_node_id n"
  "nr_JobID (scan_node n) = nw_job_id n" "nr_State (scan_node n) = nw_state n"
  by (simp_all add: scan_node_def)

lemma row_sel [simp]:
  "rr_id (row_of_run run) = run_ID run" "rr_project (row_of_run run) = run_Project run"
  "rr_state (row_of_run run) = run_State run"
  "nw_run_id (row_of_node nr t) = nr_RunID nr" "nw_node_id (row_of_node nr t) = nr_NodeID nr"
  "nw_job_id (row_of_node nr t) = nr_JobID nr" "nw_state (row_of_node nr t) = nr_State nr"
  by (simp_all add: row_of_run_def row_of_node_def)

text \<open>
  What a statement leaves alone: the invariant of the tables holds after it, and the columns that
  only one backend has are as before.
\<close>

definition same_rest :: "'d sql_store_scheme \<Rightarrow> 'd sql_store_scheme \<Rightarrow> bool" where
  "same_rest db db' \<longleftrightarrow>
     sql_store.more db' = sql_store.more db \<and> st_next_log db' = st_next_log db"

lemma same_rest_stmts [simp]:
  "same_rest db (db\<lparr>st_stmts := n\<rparr>)"
  "same_rest db (db\<lparr>st_stmts := n, st_runs := rs\<rparr>)"
  "same_rest db (db\<lparr>st_stmts := n, st_nodes := ns\<rparr>)"
  by (simp_all add: same_rest_def)

lemma exec_insert_run:
  assumes "sql_exec env (\<lambda>_ db. case insert_pk rr_id (row_of_run run) (st_runs db) of
             None \<Rightarrow> (Inl ErrConstraint, db) | Some rs \<Rightarrow> (Inr (), db\<lparr>st_runs := rs\<rparr>)) db = (q, db')"
    and "store_ok db"
  shows "store_ok db' \<and> store_nodes db' = store_nodes db \<and> same_rest db db' \<and>
    (case q of Inl _ \<Rightarrow> store_runs db' = store_runs db
     | Inr _ \<Rightarrow> store_runs db (run_ID run) = None \<and>
         store_runs db' = (store_runs db)(run_ID run \<mapsto> (run_Project run, run_State run)))"
proof (cases "insert_pk rr_id (row_of_run run) (st_runs db)")
  case None
  then show ?thesis using assms by (auto simp: sql_exec_def Let_def split: option.splits)
next
  case (Some rs)
  have "distinct (map rr_id rs)"
    using Some assms(2) by (auto simp: store_ok_def intro: distinct_insert_pk)
  moreover note pk_view_insert [OF Some, of "\<lambda>r. (rr_project r, rr_state r)"]
  ultimately show ?thesis using Some assms
    by (auto simp del: not_None_eq not_Some_eq simp: sql_exec_def Let_def store_ok_def store_runs_def store_nodes_def domIff
        split: option.splits)
qed

lemma exec_update_run:
  assumes "sql_exec env (\<lambda>n db. (Inr (), db\<lparr>st_runs := update_where (\<lambda>r. rr_id r = rid)
             (\<lambda>r. r\<lparr>rr_state := state, rr_updated_at := UnixMilli (now n)\<rparr>) (st_runs db)\<rparr>)) db
             = (q, db')"
    and "store_ok db"
  shows "store_ok db' \<and> store_nodes db' = store_nodes db \<and> same_rest db db' \<and>
    (case q of Inl _ \<Rightarrow> store_runs db' = store_runs db
     | Inr _ \<Rightarrow> store_runs db' =
         (store_runs db)(rid := map_option (\<lambda>(p, _). (p, state)) (store_runs db rid)))"
  using assms
  by (auto simp: sql_exec_def Let_def store_ok_def store_runs_def store_nodes_def
      map_key_update_where pk_view_update [where g = "\<lambda>(p, _). (p, state)"] split: option.splits)

lemma exec_upsert_node:
  assumes "sql_exec env (\<lambda>n db. (Inr (), db\<lparr>st_nodes :=
             upsert_pk node_key (row_of_node nr (now n)) (st_nodes db)\<rparr>)) db = (q, db')"
    and "store_ok db"
  shows "store_ok db' \<and> store_runs db' = store_runs db \<and> same_rest db db' \<and>
    (case q of Inl _ \<Rightarrow> store_nodes db' = store_nodes db
     | Inr _ \<Rightarrow> store_nodes db' =
         (store_nodes db)((nr_RunID nr, nr_NodeID nr) \<mapsto> (nr_JobID nr, nr_State nr)))"
  using assms
  by (auto simp: sql_exec_def Let_def store_ok_def store_runs_def store_nodes_def
      distinct_upsert_pk pk_view_upsert split: option.splits)

text \<open>A SELECT counts as a statement and changes nothing else.\<close>

lemma exec_select:
  assumes "sql_exec env (\<lambda>n db. (f n db, db)) db = (q, db')"
  shows "db' = db\<lparr>st_stmts := Suc (st_stmts db)\<rparr>"
    and "q = Inr x \<Longrightarrow> f (st_stmts db) (db\<lparr>st_stmts := Suc (st_stmts db)\<rparr>) = Inr x"
  using assms by (auto simp: sql_exec_def Let_def split: option.splits)

lemma pk_view_run_nodes:
  "pk_view nw_node_id val (filter (\<lambda>r. nw_run_id r = i) rows) k = pk_view node_key val rows (i, k)"
  by (induction rows) (auto simp: pk_view_Cons)

text \<open>
  The listing of a run is a permutation of its rows, so it shows the same map whatever the rank.
\<close>

lemma listed_nodes:
  fixes db :: "'d sql_store_scheme" and i k :: string
  assumes ok: "store_ok db"
  defines "rows \<equiv> filter (\<lambda>r. nw_run_id r = i) (st_nodes db)"
  shows "distinct (map nr_NodeID (map scan_node (sort_key f rows)))"
    and "pk_view nr_NodeID (\<lambda>n. (nr_JobID n, nr_State n)) (map scan_node (sort_key f rows)) k
         = store_nodes db (i, k)"
proof -
  have "distinct (map node_key rows)"
    using ok by (auto simp: rows_def store_ok_def intro: distinct_map_filter)
  moreover have "map node_key rows = map (Pair i) (map nw_node_id rows)"
    by (auto simp: rows_def)
  ultimately have d: "distinct (map nw_node_id rows)"
    by (metis distinct_map)
  have m: "mset (sort_key f rows) = mset rows" by simp
  show "distinct (map nr_NodeID (map scan_node (sort_key f rows)))"
    using distinct_map_mset [OF m d] by (simp add: comp_def)
  have "pk_view nr_NodeID (\<lambda>n. (nr_JobID n, nr_State n)) (map scan_node (sort_key f rows)) k
      = pk_view nw_node_id (\<lambda>n. (nw_job_id n, nw_state n)) (sort_key f rows) k"
    by (simp add: pk_view_def comp_def)
  also have "\<dots> = pk_view nw_node_id (\<lambda>n. (nw_job_id n, nw_state n)) rows k"
    by (simp only: pk_view_permute [OF m d])
  also have "\<dots> = store_nodes db (i, k)"
    by (simp add: rows_def store_nodes_def pk_view_run_nodes)
  finally show "pk_view nr_NodeID (\<lambda>n. (nr_JobID n, nr_State n))
      (map scan_node (sort_key f rows)) k = store_nodes db (i, k)" .
qed

section \<open>Both backends provide the contract\<close>

text \<open>
  The invariant of a SQLiteDB: its primary keys hold, and the keys of the log rows grow in append
  order and stay below the next one. Its log as a client sees it is the scan of every row.
\<close>

definition SQLite_valid :: "SQLiteDB \<Rightarrow> bool" where
  "SQLite_valid db \<longleftrightarrow>
     store_ok db \<and> sorted (map sl_id (sq_logs db)) \<and> (\<forall>r \<in> set (sq_logs db). sl_id r < st_next_log db)"

definition SQLite_logs :: "SQLiteDB \<Rightarrow> LogChunk list" where
  "SQLite_logs db = map SQLite_scan_log (sq_logs db)"

lemma SQLite_valid_new: "SQLite_valid SQLite_migrate_new"
  by (simp add: SQLite_valid_def SQLite_migrate_new_def store_ok_def)

lemma SQLite_DB_sel [simp]:
  "db_CreateRun (SQLite_DB env) = SQLite_CreateRun env" "db_GetRun (SQLite_DB env) = SQLite_GetRun env"
  "db_UpdateRunState (SQLite_DB env) = SQLite_UpdateRunState env"
  "db_ListRuns (SQLite_DB env) = SQLite_ListRuns env" "db_UpsertNode (SQLite_DB env) = SQLite_UpsertNode env"
  "db_GetNode (SQLite_DB env) = SQLite_GetNode env" "db_ListNodes (SQLite_DB env) = SQLite_ListNodes env"
  "db_AppendLog (SQLite_DB env) = SQLite_AppendLog env" "db_GetLogs (SQLite_DB env) = SQLite_GetLogs env"
  by (simp_all add: SQLite_DB_def)

lemma SQLite_rest:
  "same_rest (db :: SQLiteDB) db' \<Longrightarrow>
     sq_logs db' = sq_logs db \<and> st_next_log db' = st_next_log db"
  by (cases db; cases db') (simp add: same_rest_def)

lemma SQLite_valid_rest:
  "SQLite_valid db \<Longrightarrow> store_ok db' \<Longrightarrow> same_rest db db' \<Longrightarrow> SQLite_valid db' \<and> SQLite_logs db' = SQLite_logs db"
  using SQLite_rest [of db db'] by (simp add: SQLite_valid_def SQLite_logs_def)

lemma SQLite_GetRun_cases:
  assumes "SQLite_GetRun env i db = (q, db')"
  shows "db' = db\<lparr>st_stmts := Suc (st_stmts db)\<rparr>"
    and "q = Inr r \<Longrightarrow> \<exists>row. select_pk rr_id i (st_runs db) = Some row \<and> r = scan_run row"
  using assms
  by (auto simp: SQLite_GetRun_def sql_exec_def Let_def split: option.splits)

interpretation sqlite: db_contract "SQLite_DB env" SQLite_valid store_runs store_nodes for env
proof unfold_locales
  fix s r u s'
  assume v: "SQLite_valid s" and c: "db_CreateRun (SQLite_DB env) r s = (Inr u, s')"
  with exec_insert_run [OF c [unfolded SQLite_DB_sel SQLite_CreateRun_def]] SQLite_valid_rest [OF v]
  show "SQLite_valid s' \<and> store_nodes s' = store_nodes s \<and> store_runs s (run_ID r) = None
      \<and> store_runs s' = (store_runs s)(run_ID r \<mapsto> (run_Project r, run_State r))"
    by (auto simp: SQLite_valid_def)
next
  fix s r e s'
  assume v: "SQLite_valid s" and c: "db_CreateRun (SQLite_DB env) r s = (Inl e, s')"
  with exec_insert_run [OF c [unfolded SQLite_DB_sel SQLite_CreateRun_def]] SQLite_valid_rest [OF v]
  show "reads_only SQLite_valid store_runs store_nodes s s'"
    by (auto simp: SQLite_valid_def reads_only_def)
next
  fix s i and qr :: "PipelineRun result" and s'
  assume v: "SQLite_valid s" and c: "db_GetRun (SQLite_DB env) i s = (qr, s')"
  with SQLite_GetRun_cases(1) [OF c [unfolded SQLite_DB_sel]]
  show "reads_only SQLite_valid store_runs store_nodes s s'"
    by (simp add: SQLite_valid_def reads_only_def)
next
  fix s i r s'
  assume c: "db_GetRun (SQLite_DB env) i s = (Inr r, s')"
  from SQLite_GetRun_cases(2) [OF c [unfolded SQLite_DB_sel]]
  show "run_ID r = i \<and> store_runs s i = Some (run_Project r, run_State r)"
    by (auto simp: store_runs_def pk_view_select dest: select_pk_Some)
next
  fix s i st u s'
  assume v: "SQLite_valid s" and c: "db_UpdateRunState (SQLite_DB env) i st s = (Inr u, s')"
  with exec_update_run [OF c [unfolded SQLite_DB_sel SQLite_UpdateRunState_def]] SQLite_valid_rest [OF v]
  show "SQLite_valid s' \<and> store_nodes s' = store_nodes s \<and>
      store_runs s' = (store_runs s)(i := map_option (\<lambda>(p, _). (p, st)) (store_runs s i))"
    by (auto simp: SQLite_valid_def)
next
  fix s i st e s'
  assume v: "SQLite_valid s" and c: "db_UpdateRunState (SQLite_DB env) i st s = (Inl e, s')"
  with exec_update_run [OF c [unfolded SQLite_DB_sel SQLite_UpdateRunState_def]] SQLite_valid_rest [OF v]
  show "reads_only SQLite_valid store_runs store_nodes s s'"
    by (auto simp: SQLite_valid_def reads_only_def)
next
  fix s n u s'
  assume v: "SQLite_valid s" and c: "db_UpsertNode (SQLite_DB env) n s = (Inr u, s')"
  with exec_upsert_node [OF c [unfolded SQLite_DB_sel SQLite_UpsertNode_def]] SQLite_valid_rest [OF v]
  show "SQLite_valid s' \<and> store_runs s' = store_runs s \<and>
      store_nodes s' = (store_nodes s)((nr_RunID n, nr_NodeID n) \<mapsto> (nr_JobID n, nr_State n))"
    by (auto simp: SQLite_valid_def)
next
  fix s n e s'
  assume v: "SQLite_valid s" and c: "db_UpsertNode (SQLite_DB env) n s = (Inl e, s')"
  with exec_upsert_node [OF c [unfolded SQLite_DB_sel SQLite_UpsertNode_def]] SQLite_valid_rest [OF v]
  show "reads_only SQLite_valid store_runs store_nodes s s'"
    by (auto simp: SQLite_valid_def reads_only_def)
next
  fix s i and ql :: "NodeRecord list result" and s'
  assume v: "SQLite_valid s" and c: "db_ListNodes (SQLite_DB env) i s = (ql, s')"
  with exec_select(1) [OF c [unfolded SQLite_DB_sel SQLite_ListNodes_def]]
  show "reads_only SQLite_valid store_runs store_nodes s s'"
    by (simp add: SQLite_valid_def reads_only_def)
next
  fix s i ns s'
  assume v: "SQLite_valid s" and c: "db_ListNodes (SQLite_DB env) i s = (Inr ns, s')"
  have "store_ok s" using v by (simp add: SQLite_valid_def)
  moreover from exec_select(2) [OF c [unfolded SQLite_DB_sel SQLite_ListNodes_def]]
  have "ns = map scan_node (sort_key (env_node_rank env (st_stmts s))
      (filter (\<lambda>r. nw_run_id r = i) (st_nodes s)))" by simp
  ultimately show "distinct (map nr_NodeID ns) \<and> (\<forall>n \<in> set ns. nr_RunID n = i)
      \<and> (\<forall>k. pk_view nr_NodeID (\<lambda>n. (nr_JobID n, nr_State n)) ns k = store_nodes s (i, k))"
    using listed_nodes [where db = s and i = i and f = "env_node_rank env (st_stmts s)"]
    by auto
qed

lemma SQLite_sorted_logs:
  "SQLite_valid db \<Longrightarrow>
   map SQLite_scan_log (sort_key (\<lambda>r. (sl_timestamp r, sl_id r))
     (filter (\<lambda>r. sl_run_id r = i \<and> sl_job_id r = j) (sq_logs db)))
   = sort_key lc_Timestamp (filter (\<lambda>c. lc_RunID c = i \<and> lc_JobID c = j) (SQLite_logs db))"
  by (simp add: SQLite_logs_def filter_map sort_key_map comp_def SQLite_scan_log_def
      SQLite_valid_def sort_key_tie sorted_map_filter)

interpretation sqlite_log: db_log_contract "SQLite_DB env" SQLite_valid store_runs store_nodes SQLite_logs
  for env
proof unfold_locales
  fix s c u s'
  assume v: "SQLite_valid s" and c: "db_AppendLog (SQLite_DB env) c s = (Inr u, s')"
  then show "reads_only SQLite_valid store_runs store_nodes s s' \<and> SQLite_logs s' = SQLite_logs s @ [c]"
    by (auto simp: SQLite_AppendLog_def SQLite_valid_def SQLite_logs_def SQLite_scan_log_def reads_only_def
        sql_exec_def Let_def store_ok_def store_runs_def store_nodes_def sorted_append
        less_imp_le split: option.splits)
next
  fix s c e s'
  assume v: "SQLite_valid s" and c: "db_AppendLog (SQLite_DB env) c s = (Inl e, s')"
  then show "reads_only SQLite_valid store_runs store_nodes s s' \<and> SQLite_logs s' = SQLite_logs s"
    by (auto simp: SQLite_AppendLog_def SQLite_valid_def SQLite_logs_def reads_only_def
        sql_exec_def Let_def split: option.splits)
next
  fix s i j and ql :: "LogChunk list result" and s'
  assume v: "SQLite_valid s" and c: "db_GetLogs (SQLite_DB env) i j s = (ql, s')"
  with exec_select(1) [OF c [unfolded SQLite_DB_sel SQLite_GetLogs_def]]
  show "reads_only SQLite_valid store_runs store_nodes s s' \<and> SQLite_logs s' = SQLite_logs s"
    by (simp add: SQLite_valid_def SQLite_logs_def reads_only_def)
next
  fix s i j cs s'
  assume v: "SQLite_valid s" and c: "db_GetLogs (SQLite_DB env) i j s = (Inr cs, s')"
  from exec_select(2) [OF c [unfolded SQLite_DB_sel SQLite_GetLogs_def]]
  have "cs = map SQLite_scan_log (sort_key (\<lambda>r. (sl_timestamp r, sl_id r))
      (filter (\<lambda>r. sl_run_id r = i \<and> sl_job_id r = j) (sq_logs s)))" by simp
  then show "cs = sort_key lc_Timestamp
      (filter (\<lambda>c. lc_RunID c = i \<and> lc_JobID c = j) (SQLite_logs s))"
    by (simp only: SQLite_sorted_logs [OF v])
next
  fix s i and qr :: "PipelineRun result" and s'
  assume c: "db_GetRun (SQLite_DB env) i s = (qr, s')"
  from SQLite_GetRun_cases(1) [OF c [unfolded SQLite_DB_sel]]
  show "SQLite_logs s' = SQLite_logs s" by (simp add: SQLite_logs_def)
next
  fix s i st and qu :: "unit result" and s'
  assume v: "SQLite_valid s" and c: "db_UpdateRunState (SQLite_DB env) i st s = (qu, s')"
  with exec_update_run [OF c [unfolded SQLite_DB_sel SQLite_UpdateRunState_def]] SQLite_valid_rest [OF v]
  show "SQLite_logs s' = SQLite_logs s" by (auto simp: SQLite_valid_def)
qed

text \<open>
  The invariant of a PostgresDB: its primary keys hold, and the keys of the log rows grow in append
  order and stay below the next one. Its log as a client sees it is the scan of every row.
\<close>

definition Postgres_valid :: "PostgresDB \<Rightarrow> bool" where
  "Postgres_valid db \<longleftrightarrow>
     store_ok db \<and> sorted (map pg_id (pg_logs db)) \<and> (\<forall>r \<in> set (pg_logs db). pg_id r < st_next_log db)"

definition Postgres_logs :: "PostgresDB \<Rightarrow> LogChunk list" where
  "Postgres_logs db = map Postgres_scan_log (pg_logs db)"

lemma Postgres_valid_new: "Postgres_valid Postgres_migrate_new"
  by (simp add: Postgres_valid_def Postgres_migrate_new_def store_ok_def)

lemma Postgres_DB_sel [simp]:
  "db_CreateRun (Postgres_DB env) = Postgres_CreateRun env" "db_GetRun (Postgres_DB env) = Postgres_GetRun env"
  "db_UpdateRunState (Postgres_DB env) = Postgres_UpdateRunState env"
  "db_ListRuns (Postgres_DB env) = Postgres_ListRuns env" "db_UpsertNode (Postgres_DB env) = Postgres_UpsertNode env"
  "db_GetNode (Postgres_DB env) = Postgres_GetNode env" "db_ListNodes (Postgres_DB env) = Postgres_ListNodes env"
  "db_AppendLog (Postgres_DB env) = Postgres_AppendLog env" "db_GetLogs (Postgres_DB env) = Postgres_GetLogs env"
  by (simp_all add: Postgres_DB_def)

lemma Postgres_rest:
  "same_rest (db :: PostgresDB) db' \<Longrightarrow>
     pg_logs db' = pg_logs db \<and> st_next_log db' = st_next_log db"
  by (cases db; cases db') (simp add: same_rest_def)

lemma Postgres_valid_rest:
  "Postgres_valid db \<Longrightarrow> store_ok db' \<Longrightarrow> same_rest db db' \<Longrightarrow> Postgres_valid db' \<and> Postgres_logs db' = Postgres_logs db"
  using Postgres_rest [of db db'] by (simp add: Postgres_valid_def Postgres_logs_def)

lemma Postgres_GetRun_cases:
  assumes "Postgres_GetRun env i db = (q, db')"
  shows "db' = db\<lparr>st_stmts := Suc (st_stmts db)\<rparr>"
    and "q = Inr r \<Longrightarrow> \<exists>row. select_pk rr_id i (st_runs db) = Some row \<and> r = scan_run row"
  using assms
  by (auto simp: Postgres_GetRun_def pg_exec_def sql_exec_def Let_def split: option.splits)

interpretation postgres: db_contract "Postgres_DB env" Postgres_valid store_runs store_nodes for env
proof unfold_locales
  fix s r u s'
  assume v: "Postgres_valid s" and c: "db_CreateRun (Postgres_DB env) r s = (Inr u, s')"
  with exec_insert_run [OF c [unfolded Postgres_DB_sel Postgres_CreateRun_def pg_exec_def]] Postgres_valid_rest [OF v]
  show "Postgres_valid s' \<and> store_nodes s' = store_nodes s \<and> store_runs s (run_ID r) = None
      \<and> store_runs s' = (store_runs s)(run_ID r \<mapsto> (run_Project r, run_State r))"
    by (auto simp: Postgres_valid_def)
next
  fix s r e s'
  assume v: "Postgres_valid s" and c: "db_CreateRun (Postgres_DB env) r s = (Inl e, s')"
  with exec_insert_run [OF c [unfolded Postgres_DB_sel Postgres_CreateRun_def pg_exec_def]] Postgres_valid_rest [OF v]
  show "reads_only Postgres_valid store_runs store_nodes s s'"
    by (auto simp: Postgres_valid_def reads_only_def)
next
  fix s i and qr :: "PipelineRun result" and s'
  assume v: "Postgres_valid s" and c: "db_GetRun (Postgres_DB env) i s = (qr, s')"
  with Postgres_GetRun_cases(1) [OF c [unfolded Postgres_DB_sel]]
  show "reads_only Postgres_valid store_runs store_nodes s s'"
    by (simp add: Postgres_valid_def reads_only_def)
next
  fix s i r s'
  assume c: "db_GetRun (Postgres_DB env) i s = (Inr r, s')"
  from Postgres_GetRun_cases(2) [OF c [unfolded Postgres_DB_sel]]
  show "run_ID r = i \<and> store_runs s i = Some (run_Project r, run_State r)"
    by (auto simp: store_runs_def pk_view_select dest: select_pk_Some)
next
  fix s i st u s'
  assume v: "Postgres_valid s" and c: "db_UpdateRunState (Postgres_DB env) i st s = (Inr u, s')"
  with exec_update_run [OF c [unfolded Postgres_DB_sel Postgres_UpdateRunState_def pg_exec_def]] Postgres_valid_rest [OF v]
  show "Postgres_valid s' \<and> store_nodes s' = store_nodes s \<and>
      store_runs s' = (store_runs s)(i := map_option (\<lambda>(p, _). (p, st)) (store_runs s i))"
    by (auto simp: Postgres_valid_def)
next
  fix s i st e s'
  assume v: "Postgres_valid s" and c: "db_UpdateRunState (Postgres_DB env) i st s = (Inl e, s')"
  with exec_update_run [OF c [unfolded Postgres_DB_sel Postgres_UpdateRunState_def pg_exec_def]] Postgres_valid_rest [OF v]
  show "reads_only Postgres_valid store_runs store_nodes s s'"
    by (auto simp: Postgres_valid_def reads_only_def)
next
  fix s n u s'
  assume v: "Postgres_valid s" and c: "db_UpsertNode (Postgres_DB env) n s = (Inr u, s')"
  with exec_upsert_node [OF c [unfolded Postgres_DB_sel Postgres_UpsertNode_def pg_exec_def]] Postgres_valid_rest [OF v]
  show "Postgres_valid s' \<and> store_runs s' = store_runs s \<and>
      store_nodes s' = (store_nodes s)((nr_RunID n, nr_NodeID n) \<mapsto> (nr_JobID n, nr_State n))"
    by (auto simp: Postgres_valid_def)
next
  fix s n e s'
  assume v: "Postgres_valid s" and c: "db_UpsertNode (Postgres_DB env) n s = (Inl e, s')"
  with exec_upsert_node [OF c [unfolded Postgres_DB_sel Postgres_UpsertNode_def pg_exec_def]] Postgres_valid_rest [OF v]
  show "reads_only Postgres_valid store_runs store_nodes s s'"
    by (auto simp: Postgres_valid_def reads_only_def)
next
  fix s i and ql :: "NodeRecord list result" and s'
  assume v: "Postgres_valid s" and c: "db_ListNodes (Postgres_DB env) i s = (ql, s')"
  with exec_select(1) [OF c [unfolded Postgres_DB_sel Postgres_ListNodes_def pg_exec_def]]
  show "reads_only Postgres_valid store_runs store_nodes s s'"
    by (simp add: Postgres_valid_def reads_only_def)
next
  fix s i ns s'
  assume v: "Postgres_valid s" and c: "db_ListNodes (Postgres_DB env) i s = (Inr ns, s')"
  have "store_ok s" using v by (simp add: Postgres_valid_def)
  moreover from exec_select(2) [OF c [unfolded Postgres_DB_sel Postgres_ListNodes_def pg_exec_def]]
  have "ns = map scan_node (sort_key (env_node_rank env (st_stmts s))
      (filter (\<lambda>r. nw_run_id r = i) (st_nodes s)))" by simp
  ultimately show "distinct (map nr_NodeID ns) \<and> (\<forall>n \<in> set ns. nr_RunID n = i)
      \<and> (\<forall>k. pk_view nr_NodeID (\<lambda>n. (nr_JobID n, nr_State n)) ns k = store_nodes s (i, k))"
    using listed_nodes [where db = s and i = i and f = "env_node_rank env (st_stmts s)"]
    by auto
qed

lemma Postgres_sorted_logs:
  "Postgres_valid db \<Longrightarrow>
   map Postgres_scan_log (sort_key (\<lambda>r. (pg_timestamp r, pg_id r))
     (filter (\<lambda>r. pg_run_id r = i \<and> pg_job_id r = j) (pg_logs db)))
   = sort_key lc_Timestamp (filter (\<lambda>c. lc_RunID c = i \<and> lc_JobID c = j) (Postgres_logs db))"
  by (simp add: Postgres_logs_def filter_map sort_key_map comp_def Postgres_scan_log_def
      Postgres_valid_def sort_key_tie sorted_map_filter)

interpretation postgres_log: db_log_contract "Postgres_DB env" Postgres_valid store_runs store_nodes Postgres_logs
  for env
proof unfold_locales
  fix s c u s'
  assume v: "Postgres_valid s" and c: "db_AppendLog (Postgres_DB env) c s = (Inr u, s')"
  then show "reads_only Postgres_valid store_runs store_nodes s s' \<and> Postgres_logs s' = Postgres_logs s @ [c]"
    by (auto simp: Postgres_AppendLog_def pg_exec_def Postgres_valid_def Postgres_logs_def Postgres_scan_log_def reads_only_def
        sql_exec_def Let_def store_ok_def store_runs_def store_nodes_def sorted_append
        less_imp_le split: option.splits)
next
  fix s c e s'
  assume v: "Postgres_valid s" and c: "db_AppendLog (Postgres_DB env) c s = (Inl e, s')"
  then show "reads_only Postgres_valid store_runs store_nodes s s' \<and> Postgres_logs s' = Postgres_logs s"
    by (auto simp: Postgres_AppendLog_def pg_exec_def Postgres_valid_def Postgres_logs_def reads_only_def
        sql_exec_def Let_def split: option.splits)
next
  fix s i j and ql :: "LogChunk list result" and s'
  assume v: "Postgres_valid s" and c: "db_GetLogs (Postgres_DB env) i j s = (ql, s')"
  with exec_select(1) [OF c [unfolded Postgres_DB_sel Postgres_GetLogs_def pg_exec_def]]
  show "reads_only Postgres_valid store_runs store_nodes s s' \<and> Postgres_logs s' = Postgres_logs s"
    by (simp add: Postgres_valid_def Postgres_logs_def reads_only_def)
next
  fix s i j cs s'
  assume v: "Postgres_valid s" and c: "db_GetLogs (Postgres_DB env) i j s = (Inr cs, s')"
  from exec_select(2) [OF c [unfolded Postgres_DB_sel Postgres_GetLogs_def pg_exec_def]]
  have "cs = map Postgres_scan_log (sort_key (\<lambda>r. (pg_timestamp r, pg_id r))
      (filter (\<lambda>r. pg_run_id r = i \<and> pg_job_id r = j) (pg_logs s)))" by simp
  then show "cs = sort_key lc_Timestamp
      (filter (\<lambda>c. lc_RunID c = i \<and> lc_JobID c = j) (Postgres_logs s))"
    by (simp only: Postgres_sorted_logs [OF v])
next
  fix s i and qr :: "PipelineRun result" and s'
  assume c: "db_GetRun (Postgres_DB env) i s = (qr, s')"
  from Postgres_GetRun_cases(1) [OF c [unfolded Postgres_DB_sel]]
  show "Postgres_logs s' = Postgres_logs s" by (simp add: Postgres_logs_def)
next
  fix s i st and qu :: "unit result" and s'
  assume v: "Postgres_valid s" and c: "db_UpdateRunState (Postgres_DB env) i st s = (qu, s')"
  with exec_update_run [OF c [unfolded Postgres_DB_sel Postgres_UpdateRunState_def pg_exec_def]] Postgres_valid_rest [OF v]
  show "Postgres_logs s' = Postgres_logs s" by (auto simp: Postgres_valid_def)
qed

end
