(* ===== verification/Event_Bus.thy ===== *)
theory Event_Bus
  imports Go_Prelude
begin

text \<open>
  \<open>internal/bus/bus.go\<close>: the in-process event bus. A handler is a function on the state \<open>'h\<close> of
  the subscribers, run synchronously by \<open>Publish\<close>. The payload of an event has type \<open>any\<close>; every
  event the sources publish carries a string.
\<close>

type_synonym EventType = string

definition EventTriggerReceived :: EventType where "EventTriggerReceived = ''TriggerReceived''"
definition EventJobDispatched :: EventType where "EventJobDispatched = ''JobDispatched''"
definition EventJobCompleted :: EventType where "EventJobCompleted = ''JobCompleted''"
definition EventJobFailed :: EventType where "EventJobFailed = ''JobFailed''"
definition EventRunCompleted :: EventType where "EventRunCompleted = ''RunCompleted''"

lemmas event_type_defs =
  EventTriggerReceived_def EventJobDispatched_def EventJobCompleted_def EventJobFailed_def
  EventRunCompleted_def

record Event =
  e_Type :: EventType
  e_Payload :: string

type_synonym 'h Handler = "Event \<Rightarrow> 'h \<Rightarrow> 'h"

record 'h Bus =
  bus_handlers :: "EventType \<Rightarrow> 'h Handler list"

definition bus_New :: "'h Bus" where
  "bus_New = \<lparr>bus_handlers = (\<lambda>_. [])\<rparr>"

text \<open>The loop of \<open>Subscribe\<close> appends the handler once for each type named.\<close>

definition Subscribe :: "'h Bus \<Rightarrow> 'h Handler \<Rightarrow> EventType list \<Rightarrow> 'h Bus" where
  "Subscribe b h types =
     fold (\<lambda>t b. b\<lparr>bus_handlers := (bus_handlers b)(t := bus_handlers b t @ [h])\<rparr>) types b"

definition Publish :: "'h Bus \<Rightarrow> Event \<Rightarrow> 'h \<Rightarrow> 'h" where
  "Publish b e s = fold (\<lambda>h s. h e s) (bus_handlers b (e_Type e)) s"

lemma bus_handlers_New [simp]: "bus_handlers bus_New t = []"
  by (simp add: bus_New_def)

lemma bus_handlers_Subscribe:
  "bus_handlers (Subscribe b h types) t =
     bus_handlers b t @ replicate (count_list types t) h"
  unfolding Subscribe_def
proof (induction types arbitrary: b)
  case (Cons u types)
  then show ?case by (simp add: replicate_app_Cons_same)
qed simp

lemma Publish_Subscribe:
  "Publish (Subscribe b h types) e s =
     ((h e) ^^ count_list types (e_Type e)) (Publish b e s)"
proof -
  have "fold (\<lambda>h s. h e s) (replicate n h) s = ((h e) ^^ n) s" for n s
    by (induction n arbitrary: s) (simp_all add: funpow_swap1)
  then show ?thesis by (simp add: Publish_def bus_handlers_Subscribe)
qed

lemma Publish_New [simp]: "Publish bus_New e s = s"
  by (simp add: Publish_def)

text \<open>A handler that records what it receives, as the tests of the package use.\<close>

definition record_event :: "Event list Handler" where
  "record_event e s = s @ [e]"

lemma count_list_distinct:
  "distinct xs \<Longrightarrow> count_list xs x = (if x \<in> set xs then 1 else 0)"
  by (induction xs) auto

lemma recorder_receives:
  assumes "distinct types"
  shows "fold (Publish (Subscribe bus_New record_event types)) es seen =
         seen @ filter (\<lambda>e. e_Type e \<in> set types) es"
proof (induction es arbitrary: seen)
  case (Cons e es)
  have "Publish (Subscribe bus_New record_event types) e seen =
      (if e_Type e \<in> set types then seen @ [e] else seen)"
    using assms
    by (auto simp: Publish_Subscribe count_list_distinct record_event_def)
  then show ?case using Cons by simp
qed simp

end
