(* ===== verification/Proto_Msgs.thy ===== *)
theory Proto_Msgs
  imports Go_Prelude
begin

text \<open>
  The messages of \<open>proto/*.proto\<close> as the generated Go structs of \<open>proto/gen\<close> have them, with the
  getters the sources call. A message pointer that the code tests for nil is an \<open>option\<close>; the
  elements of a repeated field and the message inside a oneof wrapper are never nil (neither
  \<open>proto.Unmarshal\<close> nor the SDK builds such a value), so they are not. Bookkeeping fields of the
  protobuf runtime (\<open>state\<close>, \<open>unknownFields\<close>, \<open>sizeCache\<close>) are left out.
\<close>

section \<open>pipeline.proto\<close>

record EnvVar =
  ev_Key :: string
  ev_Value :: string

record JobSpec =
  js_Commands :: "string list"
  js_Env :: "EnvVar list"
  js_Secrets :: "string list"
  js_ArtifactPaths :: "string list"

record WorkflowRef =
  wr_Name :: string
  wr_Version :: string

text \<open>
  A node of the pipeline DAG; \<open>Kind\<close> is the oneof, absent when no member was set. A stage holds nodes
  again, so the messages inside a node are over the type of nodes.
\<close>

datatype 'n StageSpec =
  StageSpec (ss_Jobs: "'n list")

datatype 'n Node_Kind =
    Node_Job JobSpec
  | Node_Stage "'n StageSpec"

datatype Node =
  Node (nd_Id: string) (nd_DependsOn: "string list") (nd_Conditions: "string list")
    (nd_Kind: "Node Node_Kind option")

definition Node_GetJob :: "Node \<Rightarrow> JobSpec option" where
  "Node_GetJob x = (case nd_Kind x of Some (Node_Job j) \<Rightarrow> Some j | _ \<Rightarrow> None)"

definition Node_GetStage :: "Node \<Rightarrow> Node StageSpec option" where
  "Node_GetStage x = (case nd_Kind x of Some (Node_Stage s) \<Rightarrow> Some s | _ \<Rightarrow> None)"

record PipelineSpec =
  ps_Workflow :: "WorkflowRef option"
  ps_Nodes :: "Node list"

section \<open>runner.proto\<close>

record JobDispatch =
  jd_JobId :: string
  jd_RunId :: string
  jd_Spec :: "JobSpec option"
  jd_Env :: "EnvVar list"

record pb_LogChunk =
  pl_JobId :: string
  pl_RunId :: string
  pl_Timestamp :: int
  pl_Line :: string
  pl_Stderr :: bool

record JobResult =
  jr_JobId :: string
  jr_RunId :: string
  jr_Success :: bool
  jr_ExitCode :: int32

record AgentRegistration =
  ar_AgentId :: string
  ar_Name :: string
  ar_Labels :: "string list"
  ar_Capacity :: int32

section \<open>api.proto\<close>

record RunStatus =
  rs_RunId :: string
  rs_State :: string
  rs_Nodes :: "string list"

record ListRunsRequest =
  lr_Project :: string
  lr_Limit :: int32

record AgentInfo =
  ai_AgentId :: string
  ai_Name :: string
  ai_Labels :: "string list"
  ai_Capacity :: int32
  ai_Active :: int32

record WorkflowDAG =
  wd_Name :: string
  wd_Version :: string
  wd_Nodes :: "Node list"

lemma Node_GetJob_simps [simp]:
  "Node_GetJob (Node i ds cs (Some (Node_Job j))) = Some j"
  "Node_GetJob (Node i ds cs (Some (Node_Stage s))) = None"
  "Node_GetJob (Node i ds cs None) = None"
  by (simp_all add: Node_GetJob_def)

lemma Node_GetStage_simps [simp]:
  "Node_GetStage (Node i ds cs (Some (Node_Job j))) = None"
  "Node_GetStage (Node i ds cs (Some (Node_Stage s))) = Some s"
  "Node_GetStage (Node i ds cs None) = None"
  by (simp_all add: Node_GetStage_def)

end
