(* ===== verification/Registry.thy ===== *)
theory Registry
  imports Proto_Msgs "HOL-Library.AList"
begin

text \<open>
  \<open>internal/registry/registry.go\<close>: the connected agents and the dispatch of jobs to them. The Go
  map from agent IDs to connections is an association list with distinct keys. Its iteration order
  and the failures of a stream are in a record \<open>net_env\<close>; what was sent on the streams is part of
  the state. A method that takes the lock is one step.
\<close>

record agentConn =
  ac_info :: AgentRegistration
  ac_stream :: nat
  ac_active :: int32

text \<open>
  \<open>rg_calls\<close> counts the iterations over the map and the sends, so that each may behave
  differently; \<open>rg_wire\<close> is the sequence of messages sent, each with its stream.
\<close>

record Registry =
  rg_agents :: "(string \<times> agentConn) list"
  rg_calls :: nat
  rg_wire :: "(nat \<times> JobDispatch) list"

record net_env =
  ne_rank :: "nat \<Rightarrow> string \<Rightarrow> int"
  ne_send_fault :: "nat \<Rightarrow> string option"

definition registry_New :: Registry where
  "registry_New = \<lparr>rg_agents = [], rg_calls = 0, rg_wire = []\<rparr>"

text \<open>
  \<open>Register\<close> blocks between its two critical sections until the stream ends, so it is two steps:
  the connection and the disconnection.
\<close>

definition Register_connect :: "AgentRegistration \<Rightarrow> nat \<Rightarrow> Registry \<Rightarrow> Registry" where
  "Register_connect reg stream r =
     r\<lparr>rg_agents := AList.update (ar_AgentId reg)
         \<lparr>ac_info = reg, ac_stream = stream, ac_active = 0\<rparr> (rg_agents r)\<rparr>"

definition Register_disconnect :: "AgentRegistration \<Rightarrow> Registry \<Rightarrow> Registry" where
  "Register_disconnect reg r = r\<lparr>rg_agents := AList.delete (ar_AgentId reg) (rg_agents r)\<rparr>"

text \<open>The \<open>range\<close> over the map: its entries in the order of this call.\<close>

definition range_agents :: "net_env \<Rightarrow> Registry \<Rightarrow> (string \<times> agentConn) list" where
  "range_agents env r = sort_key (\<lambda>(k, _). ne_rank env (rg_calls r) k) (rg_agents r)"

definition has_room :: "agentConn \<Rightarrow> bool" where
  "has_room a \<longleftrightarrow> \<not> sint (ac_active a) \<ge> sint (ar_Capacity (ac_info a))"

definition least_step ::
  "string \<times> agentConn \<Rightarrow> (string \<times> agentConn) option \<Rightarrow> (string \<times> agentConn) option" where
  "least_step ka best =
     (if \<not> has_room (snd ka) then best
      else case best of
        None \<Rightarrow> Some ka
      | Some kb \<Rightarrow>
          if sint (ac_active (snd ka)) < sint (ac_active (snd kb)) then Some ka else best)"

definition leastLoaded :: "(string \<times> agentConn) list \<Rightarrow> (string \<times> agentConn) option" where
  "leastLoaded agents = fold least_step agents None"

definition Registry_Dispatch ::
  "net_env \<Rightarrow> JobDispatch \<Rightarrow> Registry \<Rightarrow> unit result \<times> Registry" where
  "Registry_Dispatch env job r0 =
     (let r = r0\<lparr>rg_calls := Suc (rg_calls r0)\<rparr> in
      case leastLoaded (range_agents env r0) of
        None \<Rightarrow> (Inl (Errorf ''no agents available'' []), r)
      | Some (k, a) \<Rightarrow>
          (case ne_send_fault env (rg_calls r0) of
             Some m \<Rightarrow>
               (Inl (Wrapf ''send to agent %s'' [ar_AgentId (ac_info a)] (DriverErr m)), r)
           | None \<Rightarrow>
               (Inr (), r\<lparr>rg_agents := AList.update k (a\<lparr>ac_active := ac_active a + 1\<rparr>) (rg_agents r),
                          rg_wire := rg_wire r @ [(ac_stream a, job)]\<rparr>)))"

definition Registry_Cancel :: "string \<Rightarrow> Registry \<Rightarrow> unit result \<times> Registry" where
  "Registry_Cancel jobID r = (Inr (), r)"

definition JobDone :: "string \<Rightarrow> Registry \<Rightarrow> Registry" where
  "JobDone agentID r =
     (case map_of (rg_agents r) agentID of
        Some a \<Rightarrow>
          if 0 < sint (ac_active a)
          then r\<lparr>rg_agents := AList.update agentID (a\<lparr>ac_active := ac_active a - 1\<rparr>) (rg_agents r)\<rparr>
          else r
      | None \<Rightarrow> r)"

definition Registry_List :: "net_env \<Rightarrow> Registry \<Rightarrow> AgentInfo list" where
  "Registry_List env r =
     map (\<lambda>(k, a). \<lparr>ai_AgentId = ar_AgentId (ac_info a), ai_Name = ar_Name (ac_info a),
        ai_Labels = ar_Labels (ac_info a), ai_Capacity = ar_Capacity (ac_info a),
        ai_Active = ac_active a\<rparr>) (range_agents env r)"

text \<open>Only \<open>Dispatch\<close> sends.\<close>

lemma rg_wire_simps [simp]:
  "rg_wire (Register_connect reg stream r) = rg_wire r"
  "rg_wire (Register_disconnect reg r) = rg_wire r"
  "rg_wire (JobDone a r) = rg_wire r"
  by (simp_all add: Register_connect_def Register_disconnect_def JobDone_def split: option.split)

section \<open>The choice of an agent\<close>

lemma set_range_agents [simp]: "set (range_agents env r) = set (rg_agents r)"
  by (simp add: range_agents_def)

lemma least_fold:
  assumes "\<And>kb. best = Some kb \<Longrightarrow> has_room (snd kb)"
  shows "case fold least_step kas best of
      None \<Rightarrow> best = None \<and> (\<forall>ka \<in> set kas. \<not> has_room (snd ka))
    | Some ka \<Rightarrow> has_room (snd ka) \<and> (ka \<in> set kas \<or> best = Some ka) \<and>
        (\<forall>kb \<in> set kas \<union> set_option best.
           has_room (snd kb) \<longrightarrow> sint (ac_active (snd ka)) \<le> sint (ac_active (snd kb)))"
  using assms
proof (induction kas arbitrary: best)
  case Nil
  then show ?case by (auto split: option.splits)
next
  case (Cons ka kas)
  let ?b = "least_step ka best"
  have ok: "\<And>kb. ?b = Some kb \<Longrightarrow> has_room (snd kb)"
    using Cons.prems by (auto simp: least_step_def split: if_splits option.splits)
  have ch: "?b = best \<and> (\<not> has_room (snd ka) \<or>
        (\<exists>kb. best = Some kb \<and> sint (ac_active (snd kb)) \<le> sint (ac_active (snd ka))))
      \<or> ?b = Some ka \<and> has_room (snd ka) \<and>
        (\<forall>kb. best = Some kb \<longrightarrow> sint (ac_active (snd ka)) \<le> sint (ac_active (snd kb)))"
    by (auto simp: least_step_def split: option.splits)
  have IH: "case fold least_step kas ?b of
      None \<Rightarrow> ?b = None \<and> (\<forall>ka \<in> set kas. \<not> has_room (snd ka))
    | Some kc \<Rightarrow> has_room (snd kc) \<and> (kc \<in> set kas \<or> ?b = Some kc) \<and>
        (\<forall>kb \<in> set kas \<union> set_option ?b.
           has_room (snd kb) \<longrightarrow> sint (ac_active (snd kc)) \<le> sint (ac_active (snd kb)))"
    using ok by (rule Cons.IH)
  show ?case
  proof (cases "fold least_step kas ?b")
    case None
    with IH have "?b = None" and "\<forall>ka \<in> set kas. \<not> has_room (snd ka)" by simp_all
    with None ch show ?thesis by auto
  next
    case (Some kc)
    with IH have kc: "has_room (snd kc)" "kc \<in> set kas \<or> ?b = Some kc"
      and le: "\<And>kb. kb \<in> set kas \<or> ?b = Some kb \<Longrightarrow> has_room (snd kb) \<Longrightarrow>
        sint (ac_active (snd kc)) \<le> sint (ac_active (snd kb))" by auto
    from ch show ?thesis
    proof (elim disjE conjE)
      assume "?b = best" and "\<not> has_room (snd ka)"
      then show ?thesis using Some kc le by auto
    next
      assume b: "?b = best"
        and "\<exists>kb. best = Some kb \<and> sint (ac_active (snd kb)) \<le> sint (ac_active (snd ka))"
      then obtain kb where kb: "best = Some kb"
        "sint (ac_active (snd kb)) \<le> sint (ac_active (snd ka))" by blast
      then have "sint (ac_active (snd kc)) \<le> sint (ac_active (snd kb))"
        using le [of kb] b Cons.prems by simp
      then show ?thesis using Some kc le b kb by auto
    next
      assume b: "?b = Some ka" and "has_room (snd ka)"
        and all: "\<forall>kb. best = Some kb \<longrightarrow> sint (ac_active (snd ka)) \<le> sint (ac_active (snd kb))"
      then have "sint (ac_active (snd kc)) \<le> sint (ac_active (snd ka))" using le [of ka] by simp
      then show ?thesis using Some kc le b all by force
    qed
  qed
qed

lemma leastLoaded_None: "leastLoaded kas = None \<longleftrightarrow> (\<forall>ka \<in> set kas. \<not> has_room (snd ka))"
  using least_fold [of None kas] by (fastforce simp: leastLoaded_def split: option.splits)

lemma leastLoaded_Some:
  assumes "leastLoaded kas = Some ka"
  shows "ka \<in> set kas" and "has_room (snd ka)"
    and "\<And>kb. kb \<in> set kas \<Longrightarrow> has_room (snd kb) \<Longrightarrow>
           sint (ac_active (snd ka)) \<le> sint (ac_active (snd kb))"
  using assms least_fold [of None kas] by (auto simp: leastLoaded_def split: option.splits)

section \<open>The invariant\<close>

text \<open>
  Every agent is under its own ID, and its count of running jobs is between 0 and its capacity
  (a capacity below 1 admits no job).
\<close>

definition conn_ok :: "agentConn \<Rightarrow> bool" where
  "conn_ok a \<longleftrightarrow>
     0 \<le> sint (ac_active a) \<and> sint (ac_active a) \<le> max 0 (sint (ar_Capacity (ac_info a)))"

definition entry_ok :: "string \<Rightarrow> agentConn \<Rightarrow> bool" where
  "entry_ok k a \<longleftrightarrow> k = ar_AgentId (ac_info a) \<and> conn_ok a"

definition registry_ok :: "Registry \<Rightarrow> bool" where
  "registry_ok r \<longleftrightarrow> distinct (map fst (rg_agents r)) \<and>
     (\<forall>k a. map_of (rg_agents r) k = Some a \<longrightarrow> entry_ok k a)"

lemma registry_ok_New: "registry_ok registry_New"
  by (simp add: registry_ok_def registry_New_def)

lemma registry_ok_cong: "rg_agents r' = rg_agents r \<Longrightarrow> registry_ok r' = registry_ok r"
  by (simp add: registry_ok_def)

lemma registry_ok_update:
  "registry_ok r \<Longrightarrow> entry_ok k a \<Longrightarrow> rg_agents r' = AList.update k a (rg_agents r) \<Longrightarrow> registry_ok r'"
  by (simp add: registry_ok_def update_conv' distinct_update del: map_of_eq_Some_iff)

lemma registry_ok_entry: "registry_ok r \<Longrightarrow> map_of (rg_agents r) k = Some a \<Longrightarrow> entry_ok k a"
  by (simp add: registry_ok_def)

lemma Register_connect_ok: "registry_ok r \<Longrightarrow> registry_ok (Register_connect reg st r)"
  by (rule registry_ok_update) (auto simp: Register_connect_def entry_ok_def conn_ok_def)

lemma Register_disconnect_ok: "registry_ok r \<Longrightarrow> registry_ok (Register_disconnect reg r)"
  by (auto simp: registry_ok_def Register_disconnect_def delete_conv' distinct_delete
      simp del: map_of_eq_Some_iff split: if_splits)

lemma JobDone_ok:
  assumes "registry_ok r"
  shows "registry_ok (JobDone i r)"
proof (cases "\<exists>a. map_of (rg_agents r) i = Some a \<and> 0 < sint (ac_active a)")
  case True
  then obtain a where a: "map_of (rg_agents r) i = Some a" "0 < sint (ac_active a)" by blast
  have "entry_ok i (a\<lparr>ac_active := ac_active a - 1\<rparr>)"
    using registry_ok_entry [OF assms a(1)] a(2)
    by (simp add: entry_ok_def conn_ok_def sint_int32_dec)
  with assms show ?thesis by (rule registry_ok_update) (simp add: JobDone_def a)
next
  case False
  then have "JobDone i r = r" by (auto simp: JobDone_def split: option.splits)
  with assms show ?thesis by simp
qed

text \<open>A dispatch that succeeds raises one count by one, without wrap-around.\<close>

lemma Registry_Dispatch_cases:
  assumes "registry_ok r" and "Registry_Dispatch env job r = (q, r')"
  obtains (none) "q = Inl (Errorf ''no agents available'' [])"
      and "\<forall>k a. map_of (rg_agents r) k = Some a \<longrightarrow> \<not> has_room a"
      and "rg_agents r' = rg_agents r" and "rg_wire r' = rg_wire r"
  | (fault) e where "q = Inl e" and "e \<noteq> Errorf ''no agents available'' []"
      and "rg_agents r' = rg_agents r" and "rg_wire r' = rg_wire r"
  | (sent) k a where "q = Inr ()" and "map_of (rg_agents r) k = Some a" and "has_room a"
      and "\<And>k' b. map_of (rg_agents r) k' = Some b \<Longrightarrow> has_room b \<Longrightarrow>
             sint (ac_active a) \<le> sint (ac_active b)"
      and "sint (ac_active a + 1) = sint (ac_active a) + 1"
      and "rg_agents r' = AList.update k (a\<lparr>ac_active := ac_active a + 1\<rparr>) (rg_agents r)"
      and "rg_wire r' = rg_wire r @ [(ac_stream a, job)]"
proof (cases "leastLoaded (range_agents env r)")
  case None
  then have "\<forall>k a. map_of (rg_agents r) k = Some a \<longrightarrow> \<not> has_room a"
    by (force simp: leastLoaded_None dest: map_of_SomeD)
  then show ?thesis using None assms(2)
    by (intro none) (auto simp: Registry_Dispatch_def Let_def)
next
  case (Some ka)
  obtain k a where ka: "ka = (k, a)" by (cases ka)
  note ll = leastLoaded_Some [OF Some]
  have room: "has_room a" using ll(2) ka by simp
  have mem: "map_of (rg_agents r) k = Some a"
    using ll(1) ka assms(1) by (simp add: registry_ok_def)
  show ?thesis
  proof (cases "ne_send_fault env (rg_calls r)")
    case None
    show ?thesis
    proof (rule sent [OF _ mem room])
      show "sint (ac_active a + 1) = sint (ac_active a) + 1"
        using room by (intro sint_int32_inc [where y = "ar_Capacity (ac_info a)"])
          (simp add: has_room_def)
      show "sint (ac_active a) \<le> sint (ac_active b)"
        if "map_of (rg_agents r) k' = Some b" "has_room b" for k' b
        using ll(3) [of "(k', b)"] that ka by (auto dest: map_of_SomeD)
    qed (use None Some ka assms(2) in \<open>auto simp: Registry_Dispatch_def Let_def\<close>)
  next
    case (Some m)
    then show ?thesis using \<open>leastLoaded _ = _\<close> ka assms(2)
      by (intro fault) (auto simp: Registry_Dispatch_def Let_def)
  qed
qed

lemma Registry_Dispatch_ok:
  assumes "registry_ok r" and "Registry_Dispatch env job r = (q, r')"
  shows "registry_ok r'"
  using assms
proof (cases rule: Registry_Dispatch_cases)
  case (sent k a)
  have "entry_ok k (a\<lparr>ac_active := ac_active a + 1\<rparr>)"
    using registry_ok_entry [OF assms(1) sent(2)] sent(3,5)
    by (auto simp: entry_ok_def conn_ok_def has_room_def)
  with assms(1) show ?thesis by (rule registry_ok_update) (rule sent(6))
qed (use assms(1) in \<open>auto simp: registry_ok_def\<close>)

section \<open>Free slots\<close>

text \<open>The number of jobs the connected agents can still take, by the counts of the registry.\<close>

definition agent_slots :: "agentConn \<Rightarrow> int" where
  "agent_slots a = max 0 (sint (ar_Capacity (ac_info a)) - sint (ac_active a))"

definition free_slots :: "Registry \<Rightarrow> int" where
  "free_slots r = (\<Sum>ka \<leftarrow> rg_agents r. agent_slots (snd ka))"

lemma sum_list_update:
  fixes f :: "'b \<Rightarrow> int"
  shows "distinct (map fst al) \<Longrightarrow> map_of al k = Some a \<Longrightarrow>
    (\<Sum>ka \<leftarrow> AList.update k b al. f (snd ka)) = (\<Sum>ka \<leftarrow> al. f (snd ka)) - f a + f b"
  by (induction al) auto

lemma free_slots_nonneg: "0 \<le> free_slots r"
  unfolding free_slots_def by (rule sum_list_nonneg) (auto simp: agent_slots_def)

lemma free_slots_zero:
  assumes "free_slots r = 0" and "(k, a) \<in> set (rg_agents r)"
  shows "\<not> has_room a"
proof -
  have "agent_slots (snd ka) = 0" if "ka \<in> set (rg_agents r)" for ka
    using assms(1) that unfolding free_slots_def
    by (subst (asm) sum_list_nonneg_eq_0_iff) (auto simp: agent_slots_def)
  with assms(2) have "agent_slots a = 0" by fastforce
  then show ?thesis by (simp add: agent_slots_def has_room_def)
qed

lemma Registry_Dispatch_slots:
  assumes "registry_ok r" and "Registry_Dispatch env job r = (q, r')"
  shows "free_slots r' = free_slots r - (case q of Inl _ \<Rightarrow> 0 | Inr _ \<Rightarrow> 1)"
  using assms
proof (cases rule: Registry_Dispatch_cases)
  case (sent k a)
  have "distinct (map fst (rg_agents r))" using assms(1) by (simp add: registry_ok_def)
  then have "free_slots r' =
      free_slots r - agent_slots a + agent_slots (a\<lparr>ac_active := ac_active a + 1\<rparr>)"
    using sum_list_update [OF _ sent(2)] sent(6) by (simp add: free_slots_def)
  with sent show ?thesis by (simp add: agent_slots_def has_room_def)
qed (auto simp: free_slots_def)

lemma JobDone_unknown: "agentID \<notin> fst ` set (rg_agents r) \<Longrightarrow> JobDone agentID r = r"
  by (simp add: JobDone_def map_of_eq_None_iff [symmetric] split: option.splits)

lemma dispatch_keys:
  assumes "registry_ok r" and "Registry_Dispatch env job r = (q, r')"
  shows "fst ` set (rg_agents r') = fst ` set (rg_agents r)"
  using assms
proof (cases rule: Registry_Dispatch_cases)
  case (sent k a)
  then show ?thesis
    by (auto simp: dom_map_of_conv_image_fst [symmetric] update_conv')
qed auto

end
