(* ===== verification/Topo_Sort.thy ===== *)
theory Topo_Sort
  imports Proto_Msgs
begin

text \<open>
  \<open>TopoSort\<close> of \<open>internal/pipeline/scheduler.go\<close>: the recursive closure \<open>visit\<close> over the state it
  captures. The recursion follows dependencies of arbitrary specs, so the model takes fuel and
  \<open>None\<close> is running out of it; one unit more than the number of nodes is enough, as every nested
  call finds one more known node on the stack.
\<close>

section \<open>The search\<close>

text \<open>A loop over \<open>visit\<close> calls: stops at the first error (or when the fuel is out).\<close>

fun each :: "('a \<Rightarrow> 's \<Rightarrow> (go_error + 's) option) \<Rightarrow> 'a list \<Rightarrow> 's \<Rightarrow> (go_error + 's) option" where
  "each f [] s = Some (Inr s)"
| "each f (x # xs) s =
     (case f x s of
        None \<Rightarrow> None
      | Some (Inl e) \<Rightarrow> Some (Inl e)
      | Some (Inr s') \<Rightarrow> each f xs s')"

record topo =
  tp_visited :: "string set"
  tp_inStack :: "string set"
  tp_sorted :: "Node list"

definition nodes_byID :: "Node list \<Rightarrow> string \<Rightarrow> Node option" where
  "nodes_byID nodes = fold (\<lambda>n m. m(nd_Id n \<mapsto> n)) nodes Map.empty"

fun visit :: "nat \<Rightarrow> (string \<Rightarrow> Node option) \<Rightarrow> string \<Rightarrow> topo \<Rightarrow> (go_error + topo) option" where
  "visit 0 byID i st = None"
| "visit (Suc fuel) byID i st =
     (if i \<in> tp_visited st then Some (Inr st)
      else if i \<in> tp_inStack st then Some (Inl (Errorf ''cycle detected at node %q'' [i]))
      else
        (case byID i of
           None \<Rightarrow> Some (Inl (Errorf ''unknown node %q'' [i]))
         | Some node \<Rightarrow>
             (case each (visit fuel byID) (nd_DependsOn node)
                     (st\<lparr>tp_inStack := insert i (tp_inStack st)\<rparr>) of
                None \<Rightarrow> None
              | Some (Inl e) \<Rightarrow> Some (Inl e)
              | Some (Inr st2) \<Rightarrow>
                  Some (Inr (st2\<lparr>tp_inStack := tp_inStack st2 - {i},
                                 tp_visited := insert i (tp_visited st2),
                                 tp_sorted := tp_sorted st2 @ [node]\<rparr>)))))"

definition TopoSort :: "PipelineSpec \<Rightarrow> (go_error + Node list) option" where
  "TopoSort spec =
     (case each (visit (Suc (length (ps_Nodes spec))) (nodes_byID (ps_Nodes spec)))
             (map nd_Id (ps_Nodes spec))
             \<lparr>tp_visited = {}, tp_inStack = {}, tp_sorted = []\<rparr> of
        None \<Rightarrow> None
      | Some (Inl e) \<Rightarrow> Some (Inl e)
      | Some (Inr st) \<Rightarrow> Some (Inr (tp_sorted st)))"

section \<open>The specification\<close>

text \<open>
  A valid order: the dependencies of each node are before it. The graph: \<open>(d, i)\<close> is an edge when
  the node with ID \<open>i\<close> depends on \<open>d\<close>; it is closed when no node depends on an unknown ID.
\<close>

fun deps_first :: "string set \<Rightarrow> Node list \<Rightarrow> bool" where
  "deps_first seen [] = True"
| "deps_first seen (n # ns) =
     (set (nd_DependsOn n) \<subseteq> seen \<and> deps_first (insert (nd_Id n) seen) ns)"

definition dep_edges :: "(string \<Rightarrow> Node option) \<Rightarrow> (string \<times> string) set" where
  "dep_edges byID = {(d, i). \<exists>n. byID i = Some n \<and> d \<in> set (nd_DependsOn n)}"

definition deps_known :: "(string \<Rightarrow> Node option) \<Rightarrow> bool" where
  "deps_known byID \<longleftrightarrow> (\<forall>i n. byID i = Some n \<longrightarrow> set (nd_DependsOn n) \<subseteq> dom byID)"

lemma deps_first_append:
  "deps_first S (xs @ ys) \<longleftrightarrow> deps_first S xs \<and> deps_first (S \<union> nd_Id ` set xs) ys"
  by (induction xs arbitrary: S) (auto simp: Un_commute)

lemma nodes_byID_snoc: "nodes_byID (ns @ [n]) = (nodes_byID ns)(nd_Id n \<mapsto> n)"
  by (simp add: nodes_byID_def)

lemma nodes_byID_dom: "dom (nodes_byID ns) = nd_Id ` set ns"
proof (induction ns rule: rev_induct)
  case Nil
  then show ?case by (simp add: nodes_byID_def)
next
  case (snoc n ns)
  have "dom (nodes_byID (ns @ [n])) = insert (nd_Id n) (dom (nodes_byID ns))"
    by (simp only: nodes_byID_snoc dom_fun_upd) simp
  with snoc show ?case by simp
qed

lemma nodes_byID_Some: "nodes_byID ns i = Some n \<Longrightarrow> nd_Id n = i \<and> n \<in> set ns"
proof (induction ns rule: rev_induct)
  case Nil
  then show ?case by (simp add: nodes_byID_def)
next
  case (snoc m ns)
  then show ?case by (auto simp: nodes_byID_snoc split: if_splits)
qed

lemma nodes_byID_distinct:
  "distinct (map nd_Id ns) \<Longrightarrow> n \<in> set ns \<Longrightarrow> nodes_byID ns (nd_Id n) = Some n"
proof (induction ns rule: rev_induct)
  case (snoc m ns)
  then show ?case by (auto simp: nodes_byID_snoc) (metis imageI)
qed simp

section \<open>Enough fuel\<close>

text \<open>The first call of a loop and the rest of it.\<close>

lemma each_Cons_Inr:
  "each f (x # xs) s = Some (Inr t) \<longleftrightarrow>
     (\<exists>s'. f x s = Some (Inr s') \<and> each f xs s' = Some (Inr t))"
  by (simp split: option.splits sum.splits)

lemma each_Cons_Inl:
  "each f (x # xs) s = Some (Inl e) \<longleftrightarrow>
     f x s = Some (Inl e) \<or> (\<exists>s'. f x s = Some (Inr s') \<and> each f xs s' = Some (Inl e))"
  by (simp split: option.splits sum.splits)

lemma each_Cons_None:
  "each f (x # xs) s = None \<longleftrightarrow>
     f x s = None \<or> (\<exists>s'. f x s = Some (Inr s') \<and> each f xs s' = None)"
  by (simp split: option.splits sum.splits)

lemma each_inv:
  assumes "each f xs s = Some (Inr t)" and "I s"
    and "\<And>x s s'. x \<in> set xs \<Longrightarrow> I s \<Longrightarrow> f x s = Some (Inr s') \<Longrightarrow> I s'"
  shows "I t"
  using assms
proof (induction xs arbitrary: s)
  case (Cons x xs)
  from Cons.prems(1) obtain s' where s': "f x s = Some (Inr s')" "each f xs s' = Some (Inr t)"
    by (auto simp only: each_Cons_Inr)
  have "I s'" by (rule Cons.prems(3) [OF _ Cons.prems(2) s'(1)]) simp
  from s'(2) this show ?case by (rule Cons.IH) (rule Cons.prems(3), auto)
qed auto

lemma each_not_None:
  assumes "I s" and "\<And>x s. x \<in> set xs \<Longrightarrow> I s \<Longrightarrow> f x s \<noteq> None"
    and "\<And>x s s'. x \<in> set xs \<Longrightarrow> I s \<Longrightarrow> f x s = Some (Inr s') \<Longrightarrow> I s'"
  shows "each f xs s \<noteq> None"
  using assms
proof (induction xs arbitrary: s)
  case (Cons x xs)
  have "f x s \<noteq> None" by (rule Cons.prems(2) [OF _ Cons.prems(1)]) simp
  moreover have "each f xs s' \<noteq> None" if s': "f x s = Some (Inr s')" for s'
  proof -
    have "I s'" by (rule Cons.prems(3) [OF _ Cons.prems(1) s']) simp
    then show ?thesis
    proof (rule Cons.IH)
      show "f y s \<noteq> None" if "y \<in> set xs" "I s" for y s
        using that by (intro Cons.prems(2)) simp_all
      show "I t" if "y \<in> set xs" "I s" "f y s = Some (Inr t)" for y s t
        by (rule Cons.prems(3) [OF _ that(2,3)]) (use that(1) in simp)
    qed
  qed
  ultimately show ?case unfolding each_Cons_None by blast
qed auto

lemma visit_inStack:
  "visit fuel byID i st = Some (Inr st') \<Longrightarrow> tp_inStack st' = tp_inStack st"
proof (induction fuel arbitrary: i st st')
  case (Suc fuel)
  show ?case
  proof (cases "i \<in> tp_visited st \<or> i \<in> tp_inStack st \<or> byID i = None")
    case True
    with Suc.prems show ?thesis by (auto split: if_splits)
  next
    case False
    then obtain n where n: "byID i = Some n" by auto
    let ?st1 = "st\<lparr>tp_inStack := insert i (tp_inStack st)\<rparr>"
    from Suc.prems False n obtain st2
      where st2: "each (visit fuel byID) (nd_DependsOn n) ?st1 = Some (Inr st2)"
        and st': "tp_inStack st' = tp_inStack st2 - {i}"
      by (auto split: option.splits sum.splits)
    have "tp_inStack st2 = insert i (tp_inStack st)"
      by (rule each_inv [OF st2, where I = "\<lambda>s. tp_inStack s = insert i (tp_inStack st)"])
        (use Suc.IH in auto)
    with st' False show ?thesis by simp
  qed
qed simp

lemma visit_enough:
  assumes "finite (dom byID)" and "card (dom byID - tp_inStack st) < fuel"
  shows "visit fuel byID i st \<noteq> None"
  using assms(2)
proof (induction fuel arbitrary: i st)
  case (Suc fuel)
  show ?case
  proof (cases "i \<in> tp_visited st \<or> i \<in> tp_inStack st \<or> byID i = None")
    case True
    then show ?thesis by auto
  next
    case False
    then obtain n where n: "byID i = Some n" by auto
    let ?S = "insert i (tp_inStack st)"
    have "dom byID - ?S \<subset> dom byID - tp_inStack st" using n False by auto
    then have "card (dom byID - ?S) < card (dom byID - tp_inStack st)"
      using assms(1) by (intro psubset_card_mono) auto
    with Suc.prems have less: "card (dom byID - ?S) < fuel" by simp
    have "each (visit fuel byID) (nd_DependsOn n) (st\<lparr>tp_inStack := ?S\<rparr>) \<noteq> None"
      by (rule each_not_None [where I = "\<lambda>s. tp_inStack s = ?S"])
        (use Suc.IH less visit_inStack in auto)
    with n show ?thesis by (auto split: sum.splits)
  qed
qed simp

section \<open>What a successful visit leaves\<close>

text \<open>
  The invariant of the search: the list is a duplicate-free valid order of nodes of the map, its IDs
  are the visited ones, and no visited ID is on the stack.
\<close>

definition topo_inv :: "(string \<Rightarrow> Node option) \<Rightarrow> topo \<Rightarrow> bool" where
  "topo_inv byID st \<longleftrightarrow>
     tp_visited st = nd_Id ` set (tp_sorted st) \<and> tp_visited st \<inter> tp_inStack st = {}
     \<and> distinct (map nd_Id (tp_sorted st)) \<and> deps_first {} (tp_sorted st)
     \<and> (\<forall>n \<in> set (tp_sorted st). byID (nd_Id n) = Some n)"

lemma topo_inv_push:
  "topo_inv byID st \<Longrightarrow> i \<notin> tp_visited st \<Longrightarrow>
     topo_inv byID (st\<lparr>tp_inStack := insert i (tp_inStack st)\<rparr>)"
  by (auto simp: topo_inv_def)

lemma topo_inv_pop:
  assumes "topo_inv byID st" and "byID i = Some n" and "nd_Id n = i" and "i \<in> tp_inStack st"
    and "set (nd_DependsOn n) \<subseteq> tp_visited st"
  shows "topo_inv byID (st\<lparr>tp_inStack := tp_inStack st - {i},
    tp_visited := insert i (tp_visited st), tp_sorted := tp_sorted st @ [n]\<rparr>)"
proof -
  have "i \<notin> tp_visited st" using assms(1,4) by (auto simp: topo_inv_def)
  with assms show ?thesis by (auto simp: topo_inv_def deps_first_append)
qed

lemma visit_Inr:
  assumes ids: "\<And>i n. byID i = Some n \<Longrightarrow> nd_Id n = i"
    and "visit fuel byID i st = Some (Inr st')" and "topo_inv byID st"
  shows "topo_inv byID st' \<and> tp_visited st \<subseteq> tp_visited st' \<and> i \<in> tp_visited st'"
  using assms(2,3)
proof (induction fuel arbitrary: i st st')
  case (Suc fuel)
  show ?case
  proof (cases "i \<in> tp_visited st")
    case True
    with Suc.prems show ?thesis by simp
  next
    case False
    let ?S = "insert i (tp_inStack st)"
    let ?st1 = "st\<lparr>tp_inStack := ?S\<rparr>"
    from Suc.prems(1) False obtain n st2 where n: "byID i = Some n"
      and st2: "each (visit fuel byID) (nd_DependsOn n) ?st1 = Some (Inr st2)"
      and st': "st' = st2\<lparr>tp_inStack := tp_inStack st2 - {i},
        tp_visited := insert i (tp_visited st2), tp_sorted := tp_sorted st2 @ [n]\<rparr>"
      by (auto split: if_splits option.splits sum.splits)
    have loop: "topo_inv byID t \<and> tp_visited s \<union> set ds \<subseteq> tp_visited t \<and> tp_inStack t = tp_inStack s"
      if "each (visit fuel byID) ds s = Some (Inr t)" and "topo_inv byID s" for ds s t
      using that
    proof (induction ds arbitrary: s)
      case (Cons d ds)
      from Cons.prems(1) obtain s' where s': "visit fuel byID d s = Some (Inr s')"
        and rest: "each (visit fuel byID) ds s' = Some (Inr t)" by (auto simp only: each_Cons_Inr)
      from Suc.IH [OF s' Cons.prems(2)] visit_inStack [OF s'] Cons.IH [OF rest]
      show ?case by auto
    qed simp
    have "topo_inv byID st2 \<and> tp_visited st \<union> set (nd_DependsOn n) \<subseteq> tp_visited st2
        \<and> tp_inStack st2 = ?S"
      using loop [OF st2 topo_inv_push [OF Suc.prems(2) False]] by simp
    then show ?thesis
      using topo_inv_pop [of byID st2 i n, OF _ n ids [OF n]] by (auto simp: st')
  qed
qed simp

section \<open>What a failed visit shows\<close>

text \<open>
  Every ID on the stack depends, directly or not, on the one being visited. So an error names a
  node on a cycle or a missing one.
\<close>

lemma visit_Inl:
  assumes "visit fuel byID i st = Some (Inl e)"
    and "\<And>x. x \<in> tp_inStack st \<Longrightarrow> (i, x) \<in> (dep_edges byID)\<^sup>+"
  shows "\<not> acyclic (dep_edges byID) \<or> \<not> deps_known byID \<or> i \<notin> dom byID"
  using assms
proof (induction fuel arbitrary: i st)
  case (Suc fuel)
  show ?case
  proof (cases "i \<in> tp_inStack st \<or> byID i = None")
    case True
    with Suc.prems(2) show ?thesis by (auto simp: acyclic_def)
  next
    case False
    then obtain n where n: "byID i = Some n" by auto
    let ?S = "insert i (tp_inStack st)"
    have loop: "\<exists>d s'. d \<in> set ds \<and> visit fuel byID d s' = Some (Inl e) \<and> tp_inStack s' = ?S"
      if "each (visit fuel byID) ds s = Some (Inl e)" and "tp_inStack s = ?S" for ds s
      using that
    proof (induction ds arbitrary: s)
      case (Cons d ds)
      from Cons.prems(1) consider "visit fuel byID d s = Some (Inl e)"
        | s' where "visit fuel byID d s = Some (Inr s')" "each (visit fuel byID) ds s' = Some (Inl e)"
        by (auto simp only: each_Cons_Inl)
      then show ?case
      proof cases
        case 1
        with Cons.prems(2) show ?thesis by auto
      next
        case 2
        with Cons.IH [of s'] Cons.prems(2) visit_inStack [OF 2(1)] show ?thesis by auto
      qed
    qed simp
    from Suc.prems(1) False n
    have "each (visit fuel byID) (nd_DependsOn n) (st\<lparr>tp_inStack := ?S\<rparr>) = Some (Inl e)"
      by (auto split: if_splits option.splits sum.splits)
    from loop [OF this] obtain d s' where d: "d \<in> set (nd_DependsOn n)"
      and s': "visit fuel byID d s' = Some (Inl e)" "tp_inStack s' = ?S" by auto
    have edge: "(d, i) \<in> dep_edges byID" using d n by (auto simp: dep_edges_def)
    have "(d, x) \<in> (dep_edges byID)\<^sup>+" if "x \<in> tp_inStack s'" for x
      using that s'(2) edge Suc.prems(2) by (auto intro: trancl_into_trancl2)
    from Suc.IH [OF s'(1) this]
    have "\<not> acyclic (dep_edges byID) \<or> \<not> deps_known byID \<or> d \<notin> dom byID" .
    moreover have "\<not> deps_known byID" if "d \<notin> dom byID"
      using that n d by (auto simp: deps_known_def)
    ultimately show ?thesis by auto
  qed
qed simp

section \<open>Correctness\<close>

declare visit.simps [simp del]

abbreviation spec_byID :: "PipelineSpec \<Rightarrow> string \<Rightarrow> Node option" where
  "spec_byID spec \<equiv> nodes_byID (ps_Nodes spec)"

lemma spec_byID_fuel: "card (dom (spec_byID spec)) < Suc (length (ps_Nodes spec))"
  by (simp add: nodes_byID_dom card_image_le less_Suc_eq_le order_trans [OF card_image_le card_length])

lemma topo_inv_init: "topo_inv byID \<lparr>tp_visited = {}, tp_inStack = {}, tp_sorted = []\<rparr>"
  by (simp add: topo_inv_def)

lemma topo_loop_Inr:
  assumes "each (visit fuel (spec_byID spec)) ids st = Some (Inr st')"
    and "topo_inv (spec_byID spec) st"
  shows "topo_inv (spec_byID spec) st' \<and> tp_visited st \<union> set ids \<subseteq> tp_visited st'"
  using assms
proof (induction ids arbitrary: st)
  case (Cons i ids)
  from Cons.prems(1) obtain s' where s': "visit fuel (spec_byID spec) i st = Some (Inr s')"
    and rest: "each (visit fuel (spec_byID spec)) ids s' = Some (Inr st')"
    by (auto simp only: each_Cons_Inr)
  from visit_Inr [OF _ s' Cons.prems(2)] nodes_byID_Some Cons.IH [OF rest]
  show ?case by fastforce
qed simp

lemma topo_loop_Inl:
  assumes "each (visit fuel byID) ids st = Some (Inl e)" and "tp_inStack st = {}"
  shows "\<not> acyclic (dep_edges byID) \<or> \<not> deps_known byID \<or> \<not> set ids \<subseteq> dom byID"
  using assms
proof (induction ids arbitrary: st)
  case (Cons i ids)
  from Cons.prems(1) consider "visit fuel byID i st = Some (Inl e)"
    | s' where "visit fuel byID i st = Some (Inr s')" "each (visit fuel byID) ids s' = Some (Inl e)"
    by (auto simp only: each_Cons_Inl)
  then show ?case
  proof cases
    case 1
    from visit_Inl [OF this] Cons.prems(2) show ?thesis by auto
  next
    case 2
    with Cons.IH [OF 2(2)] visit_inStack [OF 2(1)] Cons.prems(2) show ?thesis by auto
  qed
qed simp

text \<open>A valid order has no edge from a node to itself or backwards, so the graph has no cycle.\<close>

lemma deps_first_below:
  assumes "deps_first S ns" and "distinct (map nd_Id ns)" and "nd_Id ` set ns \<inter> S = {}"
    and "\<And>i n. byID i = Some n \<Longrightarrow> i \<notin> S \<Longrightarrow> n \<in> set ns \<and> nd_Id n = i"
    and "\<And>x. (x, x) \<in> (dep_edges byID)\<^sup>+ \<Longrightarrow> x \<notin> S"
  shows "(x, x) \<notin> (dep_edges byID)\<^sup>+"
  using assms
proof (induction ns arbitrary: S)
  case Nil
  show ?case
  proof
    assume c: "(x, x) \<in> (dep_edges byID)\<^sup>+"
    then obtain d where "(d, x) \<in> dep_edges byID" by (auto elim: tranclE)
    then obtain n where "byID x = Some n" by (auto simp: dep_edges_def)
    with Nil.prems(4) Nil.prems(5) [OF c] show False by auto
  qed
next
  case (Cons n ns)
  show ?case
  proof (rule Cons.IH [of "insert (nd_Id n) S"])
    show "m \<in> set ns \<and> nd_Id m = i" if "byID i = Some m" "i \<notin> insert (nd_Id n) S" for i m
      using Cons.prems(4) [OF that(1)] that(2) by auto
    show "y \<notin> insert (nd_Id n) S" if y: "(y, y) \<in> (dep_edges byID)\<^sup>+" for y
    proof
      assume "y \<in> insert (nd_Id n) S"
      with Cons.prems(5) [OF y] have "y = nd_Id n" by simp
      with y obtain d where d: "(d, nd_Id n) \<in> dep_edges byID" "(nd_Id n, d) \<in> (dep_edges byID)\<^sup>*"
        by (auto elim: tranclE simp: trancl_into_rtrancl)
      from d(1) obtain m where m: "byID (nd_Id n) = Some m" "d \<in> set (nd_DependsOn m)"
        by (auto simp: dep_edges_def)
      have "nd_Id n \<notin> S" using Cons.prems(3) by auto
      with Cons.prems(2) Cons.prems(4) [OF m(1)] have "m = n" by (auto simp: image_iff)
      then have "d \<in> S" using m(2) Cons.prems(1) by auto
      moreover have "(d, d) \<in> (dep_edges byID)\<^sup>+" using d by (meson rtrancl_into_trancl2)
      ultimately show False using Cons.prems(5) by blast
    qed
  qed (use Cons.prems in auto)
qed

lemma deps_first_subset:
  "deps_first S ns \<Longrightarrow> n \<in> set ns \<Longrightarrow> set (nd_DependsOn n) \<subseteq> S \<union> nd_Id ` set ns"
  by (induction ns arbitrary: S) fastforce+

lemma topo_defined: "TopoSort spec \<noteq> None"
proof -
  let ?b = "spec_byID spec"
  let ?f = "visit (Suc (length (ps_Nodes spec))) ?b"
  have "each ?f (map nd_Id (ps_Nodes spec)) \<lparr>tp_visited = {}, tp_inStack = {}, tp_sorted = []\<rparr> \<noteq> None"
  proof (rule each_not_None [where I = "\<lambda>s. tp_inStack s = {}"])
    show "?f i s \<noteq> None" if "tp_inStack s = {}" for i s
      by (rule visit_enough) (use that spec_byID_fuel in \<open>simp_all add: nodes_byID_dom\<close>)
  qed (use visit_inStack in auto)
  then show ?thesis by (auto simp: TopoSort_def split: option.splits sum.splits)
qed

text \<open>
  Property C9: \<open>TopoSort\<close> always returns. The search over the dependencies ends for every spec,
  cyclic ones included: the fuel of the model is never used up.
\<close>

theorem TopoSort_terminates: "TopoSort spec \<noteq> None"
  by (rule topo_defined)

lemma TopoSort_order:
  assumes "TopoSort spec = Some (Inr ns)"
  shows "deps_first {} ns \<and> distinct (map nd_Id ns) \<and> nd_Id ` set ns = nd_Id ` set (ps_Nodes spec)
    \<and> (\<forall>n \<in> set ns. spec_byID spec (nd_Id n) = Some n)"
proof -
  from assms obtain st
    where st: "each (visit (Suc (length (ps_Nodes spec))) (spec_byID spec)) (map nd_Id (ps_Nodes spec))
        \<lparr>tp_visited = {}, tp_inStack = {}, tp_sorted = []\<rparr> = Some (Inr st)"
      and ns: "ns = tp_sorted st"
    by (auto simp: TopoSort_def split: option.splits sum.splits)
  from topo_loop_Inr [OF st topo_inv_init]
  have inv: "topo_inv (spec_byID spec) st" and all: "nd_Id ` set (ps_Nodes spec) \<subseteq> tp_visited st"
    by simp_all
  have "nd_Id n \<in> nd_Id ` set (ps_Nodes spec)" if "n \<in> set ns" for n
    using inv that ns by (auto simp: topo_inv_def nodes_byID_dom [symmetric])
  then show ?thesis using inv all ns by (auto simp: topo_inv_def)
qed

text \<open>
  Property C6: a list that \<open>TopoSort\<close> returns is a valid topological order: it holds each node of
  the spec once (the last one where several share an ID) and every node comes after all of its
  dependencies.
\<close>

theorem TopoSort_sound:
  assumes "TopoSort spec = Some (Inr ns)"
  shows "deps_first {} ns \<and> distinct (map nd_Id ns) \<and> nd_Id ` set ns = nd_Id ` set (ps_Nodes spec)
    \<and> (\<forall>n \<in> set ns. spec_byID spec (nd_Id n) = Some n)"
  using assms by (rule TopoSort_order)

theorem TopoSort_sound_witness:
  "\<exists>ns. TopoSort \<lparr>ps_Workflow = None, ps_Nodes =
       [Node ''build'' [''test''] [] None, Node ''test'' [''lint''] [] None, Node ''lint'' [] [] None]\<rparr>
     = Some (Inr ns) \<and> map nd_Id ns = [''lint'', ''test'', ''build''] \<and> deps_first {} ns"
proof -
  let ?s = "\<lparr>ps_Workflow = None, ps_Nodes =
       [Node ''build'' [''test''] [] None, Node ''test'' [''lint''] [] None, Node ''lint'' [] [] None]\<rparr>"
  have r: "TopoSort ?s = Some (Inr [Node ''lint'' [] [] None, Node ''test'' [''lint''] [] None,
       Node ''build'' [''test''] [] None])"
    by (simp add: TopoSort_def nodes_byID_def visit.simps)
  from TopoSort_sound [OF r] r show ?thesis by simp
qed

text \<open>An error means a cycle or an unknown node.\<close>

lemma TopoSort_fails:
  assumes "TopoSort spec = Some (Inl e)"
  shows "\<not> (acyclic (dep_edges (spec_byID spec)) \<and> deps_known (spec_byID spec))"
proof
  assume ok: "acyclic (dep_edges (spec_byID spec)) \<and> deps_known (spec_byID spec)"
  have "each (visit (Suc (length (ps_Nodes spec))) (spec_byID spec)) (map nd_Id (ps_Nodes spec))
      \<lparr>tp_visited = {}, tp_inStack = {}, tp_sorted = []\<rparr> = Some (Inl e)"
    using assms by (auto simp: TopoSort_def split: option.splits sum.splits)
  from topo_loop_Inl [OF this] ok show False by (simp add: nodes_byID_dom)
qed

text \<open>
  Property C8: \<open>TopoSort\<close> succeeds exactly when the dependency graph of the spec has no cycle and
  every dependency names a node of the spec; otherwise it returns an error.
\<close>

theorem TopoSort_complete:
  "(\<exists>ns. TopoSort spec = Some (Inr ns)) \<longleftrightarrow>
     acyclic (dep_edges (spec_byID spec)) \<and> deps_known (spec_byID spec)"
proof
  assume "\<exists>ns. TopoSort spec = Some (Inr ns)"
  then obtain ns where "TopoSort spec = Some (Inr ns)" ..
  note s = TopoSort_order [OF this]
  have mem: "n \<in> set ns \<and> nd_Id n = i" if n: "spec_byID spec i = Some n" for i n
  proof -
    have i: "nd_Id n = i" "i \<in> nd_Id ` set ns" using nodes_byID_Some [OF n] s by auto
    then obtain m where "m \<in> set ns" "nd_Id m = i" by auto
    with s n have "m = n" by fastforce
    with \<open>m \<in> set ns\<close> i show ?thesis by simp
  qed
  have "(x, x) \<notin> (dep_edges (spec_byID spec))\<^sup>+" for x
    by (rule deps_first_below [of "{}" ns]) (use s mem in auto)
  moreover have "set (nd_DependsOn n) \<subseteq> nd_Id ` set ns" if "n \<in> set ns" for n
    using that s deps_first_subset [of "{}" ns n] by auto
  ultimately show "acyclic (dep_edges (spec_byID spec)) \<and> deps_known (spec_byID spec)"
    using mem s by (fastforce simp: acyclic_def deps_known_def nodes_byID_dom)
next
  assume ok: "acyclic (dep_edges (spec_byID spec)) \<and> deps_known (spec_byID spec)"
  then have "TopoSort spec \<noteq> Some (Inl e)" for e using TopoSort_fails by blast
  then show "\<exists>ns. TopoSort spec = Some (Inr ns)"
    using topo_defined [of spec] by (metis option.exhaust sum.exhaust)
qed

end
