(* ===== verification/Scheduler.thy ===== *)
theory Scheduler
  imports Conditions Db_Contract Event_Bus Registry Topo_Sort "HOL-Library.Sublist"
begin

text \<open>
  \<open>internal/pipeline/scheduler.go\<close>: the \<open>Scheduler\<close>, its \<open>Dispatcher\<close> interface and \<open>Advance\<close>.
  The scheduler acts on a world: the store, the state behind the dispatcher, the state of the bus
  subscribers, and the goroutines that were started and have not run.
\<close>

section \<open>The scheduler and its world\<close>

type_synonym 'd Dispatcher =
  "string \<Rightarrow> string \<Rightarrow> JobSpec option \<Rightarrow> 'd \<Rightarrow> unit result \<times> 'd"

record ('s, 'd, 'h) Scheduler =
  sch_store :: "'s DB"
  sch_dispatcher :: "'d Dispatcher"
  sch_bus :: "'h Bus"

definition NewScheduler :: "'s DB \<Rightarrow> 'd Dispatcher \<Rightarrow> 'h Bus \<Rightarrow> ('s, 'd, 'h) Scheduler" where
  [simp]: "NewScheduler store d b = \<lparr>sch_store = store, sch_dispatcher = d, sch_bus = b\<rparr>"

text \<open>The exported form of \<open>evalConditions\<close>.\<close>

definition NodePassesConditions :: "Node \<Rightarrow> RunContext \<Rightarrow> bool" where
  "NodePassesConditions node rc = evalConditions (nd_Conditions node) rc"

record advance_task =
  at_runID :: string
  at_spec :: PipelineSpec
  at_rc :: RunContext

record ('s, 'd, 'h) world =
  w_db :: 's
  w_disp :: 'd
  w_subs :: 'h
  w_tasks :: "advance_task list"

definition sch_publish ::
  "'h Bus \<Rightarrow> EventType \<Rightarrow> string \<Rightarrow> ('s, 'd, 'h) world \<Rightarrow> ('s, 'd, 'h) world" where
  "sch_publish b ty p w =
     w\<lparr>w_subs := Publish b \<lparr>e_Type = ty, e_Payload = p\<rparr> (w_subs w)\<rparr>"

text \<open>The method \<open>dispatch\<close>: an error is logged, a success is published.\<close>

definition sch_dispatch ::
  "('s, 'd, 'h) Scheduler \<Rightarrow> string \<Rightarrow> string \<Rightarrow> JobSpec option \<Rightarrow>
   ('s, 'd, 'h) world \<Rightarrow> ('s, 'd, 'h) world" where
  "sch_dispatch s runID nodeID spec w =
     (case sch_dispatcher s runID nodeID spec (w_disp w) of
        (Inl e, d) \<Rightarrow> w\<lparr>w_disp := d\<rparr>
      | (Inr _, d) \<Rightarrow> sch_publish (sch_bus s) EventJobDispatched nodeID (w\<lparr>w_disp := d\<rparr>))"

text \<open>A call of \<open>UpsertNode\<close> on the store of the world.\<close>

definition world_upsert ::
  "'s DB \<Rightarrow> NodeRecord \<Rightarrow> ('s, 'd, 'h) world \<Rightarrow> unit result \<times> ('s, 'd, 'h) world" where
  "world_upsert D n w = (case db_UpsertNode D n (w_db w) of (r, db) \<Rightarrow> (r, w\<lparr>w_db := db\<rparr>))"

text \<open>The switch on the kind of a node.\<close>

definition dispatch_kind ::
  "('s, 'd, 'h) Scheduler \<Rightarrow> string \<Rightarrow> Node \<Rightarrow> ('s, 'd, 'h) world \<Rightarrow> ('s, 'd, 'h) world" where
  "dispatch_kind s runID node w =
     (case nd_Kind node of
        Some (Node_Job job) \<Rightarrow> sch_dispatch s runID (nd_Id node) (Some job) w
      | Some (Node_Stage stage) \<Rightarrow>
          fold (\<lambda>j. sch_dispatch s runID (nd_Id node @ ''/'' @ nd_Id j) (Node_GetJob j))
            (ss_Jobs stage) w
      | None \<Rightarrow> w)"

text \<open>The body of the loop of \<open>Advance\<close>, with the state map read before the loop.\<close>

definition advance_node ::
  "('s, 'd, 'h) Scheduler \<Rightarrow> string \<Rightarrow> RunContext \<Rightarrow> (string \<Rightarrow> NodeState) \<Rightarrow> Node \<Rightarrow>
   ('s, 'd, 'h) world \<Rightarrow> ('s, 'd, 'h) world" where
  "advance_node s runID rc stateByID node w =
     (if stateByID (nd_Id node) \<noteq> NodeStatePending then w
      else if \<not> depsTerminal (nd_DependsOn node) stateByID then w
      else if \<not> evalConditions (nd_Conditions node) rc then
        snd (world_upsert (sch_store s) (mk_NodeRecord runID (nd_Id node) NodeStateSkipped) w)
      else
        (case world_upsert (sch_store s) (mk_NodeRecord runID (nd_Id node) NodeStateRunning) w of
           (Inl e, w1) \<Rightarrow> w1
         | (Inr _, w1) \<Rightarrow> dispatch_kind s runID node w1))"

definition state_map :: "NodeRecord list \<Rightarrow> string \<Rightarrow> NodeState" where
  "state_map nodes = fold (\<lambda>n m. m(nr_NodeID n := nr_State n)) nodes (\<lambda>_. [])"

text \<open>
  \<open>Advance\<close> in its two parts, between which another goroutine may run: the reading of the states
  (\<open>None\<close> when it failed and \<open>Advance\<close> returns), and the loop.
\<close>

definition Advance_read ::
  "('s, 'd, 'h) Scheduler \<Rightarrow> string \<Rightarrow> ('s, 'd, 'h) world \<Rightarrow>
   (string \<Rightarrow> NodeState) option \<times> ('s, 'd, 'h) world" where
  "Advance_read s runID w =
     (case db_ListNodes (sch_store s) runID (w_db w) of
        (Inl e, db) \<Rightarrow> (None, w\<lparr>w_db := db\<rparr>)
      | (Inr nodes, db) \<Rightarrow> (Some (state_map nodes), w\<lparr>w_db := db\<rparr>))"

definition Advance_loop ::
  "('s, 'd, 'h) Scheduler \<Rightarrow> string \<Rightarrow> PipelineSpec \<Rightarrow> RunContext \<Rightarrow> (string \<Rightarrow> NodeState) \<Rightarrow>
   ('s, 'd, 'h) world \<Rightarrow> ('s, 'd, 'h) world" where
  "Advance_loop s runID spec rc stateByID w =
     fold (advance_node s runID rc stateByID) (ps_Nodes spec) w"

definition Advance ::
  "('s, 'd, 'h) Scheduler \<Rightarrow> string \<Rightarrow> PipelineSpec \<Rightarrow> RunContext \<Rightarrow>
   ('s, 'd, 'h) world \<Rightarrow> ('s, 'd, 'h) world" where
  "Advance s runID spec rc w =
     (case Advance_read s runID w of
        (None, w1) \<Rightarrow> w1
      | (Some stateByID, w1) \<Rightarrow> Advance_loop s runID spec rc stateByID w1)"

section \<open>What a node asks for\<close>

text \<open>The jobs of a node, with the IDs they are dispatched under.\<close>

definition node_jobs :: "Node \<Rightarrow> (string \<times> JobSpec option) list" where
  "node_jobs node =
     (case nd_Kind node of
        Some (Node_Job job) \<Rightarrow> [(nd_Id node, Some job)]
      | Some (Node_Stage stage) \<Rightarrow>
          map (\<lambda>j. (nd_Id node @ ''/'' @ nd_Id j, Node_GetJob j)) (ss_Jobs stage)
      | None \<Rightarrow> [])"

lemma dispatch_kind_fold:
  "dispatch_kind s runID node w = fold (\<lambda>(n, j). sch_dispatch s runID n j) (node_jobs node) w"
  by (auto simp: dispatch_kind_def node_jobs_def fold_map comp_def split: option.splits Node_Kind.splits)

text \<open>Whether a state map makes a node ready to run, or ready to be skipped.\<close>

definition node_due :: "(string \<Rightarrow> NodeState) \<Rightarrow> Node \<Rightarrow> bool" where
  "node_due st node \<longleftrightarrow> st (nd_Id node) = NodeStatePending \<and> depsTerminal (nd_DependsOn node) st"

definition node_ready :: "(string \<Rightarrow> NodeState) \<Rightarrow> RunContext \<Rightarrow> Node \<Rightarrow> bool" where
  "node_ready st rc node \<longleftrightarrow> node_due st node \<and> evalConditions (nd_Conditions node) rc"

text \<open>The states of a run in a view of the node table, empty where there is no row.\<close>

definition row_states ::
  "(string \<times> string \<Rightarrow> (string \<times> NodeState) option) \<Rightarrow> string \<Rightarrow> string \<Rightarrow> NodeState"
where
  "row_states V runID i = (case V (runID, i) of None \<Rightarrow> [] | Some (_, st) \<Rightarrow> st)"

lemma state_map_pk:
  assumes "distinct (map nr_NodeID nodes)"
  shows "state_map nodes i =
    (case pk_view nr_NodeID (\<lambda>n. (nr_JobID n, nr_State n)) nodes i of None \<Rightarrow> [] | Some (_, st) \<Rightarrow> st)"
proof -
  have "fold (\<lambda>n m. m(nr_NodeID n := nr_State n)) nodes f i =
    (case pk_view nr_NodeID (\<lambda>n. (nr_JobID n, nr_State n)) nodes i of None \<Rightarrow> f i | Some (_, st) \<Rightarrow> st)"
    for f
    using assms
  proof (induction nodes arbitrary: f)
    case (Cons n nodes)
    then have "pk_view nr_NodeID (\<lambda>n. (nr_JobID n, nr_State n)) nodes (nr_NodeID n) = None"
      by (simp add: pk_view_None)
    with Cons show ?case by (auto simp: pk_view_Cons)
  qed simp
  then show ?thesis by (simp add: state_map_def)
qed

end
