(* ===== verification/Dispatch_Contract.thy ===== *)
theory Dispatch_Contract
  imports Scheduler
begin

text \<open>
  The contract of the interface \<open>Dispatcher\<close>, and its provider in the master service: the adapter
  \<open>registryDispatcher\<close> of \<open>cmd/master/main.go\<close> over the agent registry. The contract with a
  scheduler's store makes up the context in which \<open>Advance\<close> is verified.
\<close>

section \<open>The contract\<close>

text \<open>\<open>sent d\<close> is the sequence of (run, job ID, spec) that reached an agent.\<close>

locale dispatcher_contract =
  fixes dispatch :: "'d Dispatcher"
    and dvalid :: "'d \<Rightarrow> bool"
    and sent :: "'d \<Rightarrow> (string \<times> string \<times> JobSpec option) list"
  assumes dispatch_ok:
      "dvalid d \<Longrightarrow> dispatch r n j d = (Inr u, d') \<Longrightarrow> dvalid d' \<and> sent d' = sent d @ [(r, n, j)]"
    and dispatch_err:
      "dvalid d \<Longrightarrow> dispatch r n j d = (Inl e, d') \<Longrightarrow> dvalid d' \<and> sent d' = sent d"

section \<open>The registry as a dispatcher\<close>

definition registryDispatcher_Dispatch :: "net_env \<Rightarrow> Registry Dispatcher" where
  "registryDispatcher_Dispatch env runID nodeID spec r =
     Registry_Dispatch env \<lparr>jd_JobId = nodeID, jd_RunId = runID, jd_Spec = spec, jd_Env = []\<rparr> r"

definition registry_sent :: "Registry \<Rightarrow> (string \<times> string \<times> JobSpec option) list" where
  "registry_sent r = map (\<lambda>(_, j). (jd_RunId j, jd_JobId j, jd_Spec j)) (rg_wire r)"

interpretation registry: dispatcher_contract "registryDispatcher_Dispatch env" registry_ok
  registry_sent for env
proof unfold_locales
  fix d r n j and u :: unit and d'
  assume ok: "registry_ok d" and "registryDispatcher_Dispatch env r n j d = (Inr u, d')"
  then have s: "Registry_Dispatch env \<lparr>jd_JobId = n, jd_RunId = r, jd_Spec = j, jd_Env = []\<rparr> d
      = (Inr u, d')" by (simp add: registryDispatcher_Dispatch_def)
  from ok s show "registry_ok d' \<and> registry_sent d' = registry_sent d @ [(r, n, j)]"
    by (cases rule: Registry_Dispatch_cases)
      (simp_all add: Registry_Dispatch_ok [OF ok s] registry_sent_def)
next
  fix d r n j e d'
  assume ok: "registry_ok d" and "registryDispatcher_Dispatch env r n j d = (Inl e, d')"
  then have s: "Registry_Dispatch env \<lparr>jd_JobId = n, jd_RunId = r, jd_Spec = j, jd_Env = []\<rparr> d
      = (Inl e, d')" by (simp add: registryDispatcher_Dispatch_def)
  from ok s show "registry_ok d' \<and> registry_sent d' = registry_sent d"
    by (cases rule: Registry_Dispatch_cases)
      (simp_all add: Registry_Dispatch_ok [OF ok s] registry_sent_def)
qed

section \<open>A scheduler over a store and a dispatcher\<close>

text \<open>
  The outcome of the loop over some nodes: a row that changes is that of a due node and goes to
  running or skipped; what is sent is part of the jobs of the ready nodes, in their order.
\<close>

definition due_row :: "RunContext \<Rightarrow> Node \<Rightarrow> (string \<times> NodeState) option" where
  "due_row rc node =
     Some ([], if evalConditions (nd_Conditions node) rc then NodeStateRunning else NodeStateSkipped)"

definition row_due ::
  "string \<Rightarrow> RunContext \<Rightarrow> (string \<Rightarrow> NodeState) \<Rightarrow> Node list \<Rightarrow> string \<times> string \<Rightarrow>
   (string \<times> NodeState) option \<Rightarrow> bool" where
  "row_due rid rc st nodes k row \<longleftrightarrow>
     (\<exists>n \<in> set nodes. node_due st n \<and> k = (rid, nd_Id n) \<and> row = due_row rc n)"

text \<open>\<open>V\<close> is the view of the node table after the sends: a node that was sent is not pending in it.\<close>

definition sent_ready ::
  "string \<Rightarrow> RunContext \<Rightarrow> (string \<Rightarrow> NodeState) \<Rightarrow> Node list \<Rightarrow>
   (string \<times> string \<Rightarrow> (string \<times> NodeState) option) \<Rightarrow>
   (string \<times> string \<times> JobSpec option) list \<Rightarrow> (string \<times> string \<times> JobSpec option) list \<Rightarrow> bool" where
  "sent_ready rid rc st nodes V before now \<longleftrightarrow>
     (\<exists>xs. now = before @ map (\<lambda>(n, j). (rid, n, j)) xs
        \<and> subseq xs (concat (map node_jobs (filter (node_ready st rc) nodes)))
        \<and> (\<forall>x \<in> set xs. \<exists>m \<in> set nodes. node_ready st rc m \<and> x \<in> set (node_jobs m)
             \<and> row_states V rid (nd_Id m) \<noteq> NodeStatePending))"

definition loop_outcome ::
  "('s \<Rightarrow> bool) \<Rightarrow> ('s \<Rightarrow> 'r) \<Rightarrow> ('s \<Rightarrow> string \<times> string \<Rightarrow> (string \<times> NodeState) option) \<Rightarrow>
   ('d \<Rightarrow> bool) \<Rightarrow> ('d \<Rightarrow> (string \<times> string \<times> JobSpec option) list) \<Rightarrow> string \<Rightarrow> RunContext \<Rightarrow>
   (string \<Rightarrow> NodeState) \<Rightarrow> Node list \<Rightarrow> ('s, 'd, 'h) world \<Rightarrow> ('s, 'd, 'h) world \<Rightarrow> bool" where
  "loop_outcome valid run_view node_view dvalid sent rid rc st nodes w w' \<longleftrightarrow>
     valid (w_db w') \<and> dvalid (w_disp w') \<and> w_tasks w' = w_tasks w
     \<and> run_view (w_db w') = run_view (w_db w)
     \<and> (\<forall>k. node_view (w_db w') k \<noteq> node_view (w_db w) k \<longrightarrow>
          row_due rid rc st nodes k (node_view (w_db w') k))
     \<and> sent_ready rid rc st nodes (node_view (w_db w')) (sent (w_disp w)) (sent (w_disp w'))"

lemma sent_ready_refl [simp]: "sent_ready rid rc st nodes V xs xs"
  by (auto simp: sent_ready_def)

lemma row_due_state:
  "row_due rid rc st nodes (rid, i) (V (rid, i)) \<Longrightarrow> row_states V rid i \<noteq> NodeStatePending"
  by (auto simp: row_due_def due_row_def row_states_def split: if_splits)

lemma sent_ready_append:
  assumes "sent_ready rid rc st ns V1 s0 s1" and "sent_ready rid rc st ms V2 s1 s2"
    and rows: "\<And>k. V2 k \<noteq> V1 k \<Longrightarrow> row_due rid rc st ms k (V2 k)"
  shows "sent_ready rid rc st (ns @ ms) V2 s0 s2"
proof -
  have keep: "row_states V2 rid i \<noteq> NodeStatePending"
    if "row_states V1 rid i \<noteq> NodeStatePending" for i
    using that rows [of "(rid, i)"] row_due_state [of rid rc st ms i V2]
    by (cases "V2 (rid, i) = V1 (rid, i)") (simp_all add: row_states_def)
  from assms(1,2) obtain xs ys where "s1 = s0 @ map (\<lambda>(n, j). (rid, n, j)) xs"
    "s2 = s1 @ map (\<lambda>(n, j). (rid, n, j)) ys"
    and "subseq xs (concat (map node_jobs (filter (node_ready st rc) ns)))"
    "subseq ys (concat (map node_jobs (filter (node_ready st rc) ms)))"
    and "\<forall>x \<in> set xs. \<exists>m \<in> set ns. node_ready st rc m \<and> x \<in> set (node_jobs m)
             \<and> row_states V1 rid (nd_Id m) \<noteq> NodeStatePending"
    "\<forall>x \<in> set ys. \<exists>m \<in> set ms. node_ready st rc m \<and> x \<in> set (node_jobs m)
             \<and> row_states V2 rid (nd_Id m) \<noteq> NodeStatePending"
    by (auto simp: sent_ready_def)
  moreover from this(5,6) keep
  have "\<forall>x \<in> set (xs @ ys). \<exists>m \<in> set (ns @ ms). node_ready st rc m \<and> x \<in> set (node_jobs m)
             \<and> row_states V2 rid (nd_Id m) \<noteq> NodeStatePending"
    unfolding set_append by blast
  ultimately show ?thesis unfolding sent_ready_def
    by (intro exI [of _ "xs @ ys"]) (simp add: list_emb_append_mono)
qed

lemma loop_outcome_append:
  assumes "loop_outcome valid rv nv dvalid sent rid rc st ns w w1"
    and "loop_outcome valid rv nv dvalid sent rid rc st ms w1 w2"
  shows "loop_outcome valid rv nv dvalid sent rid rc st (ns @ ms) w w2"
proof -
  have "row_due rid rc st (ns @ ms) k (nv (w_db w2) k)" if "nv (w_db w2) k \<noteq> nv (w_db w) k" for k
  proof (cases "nv (w_db w2) k = nv (w_db w1) k")
    case True
    with that assms(1) have "row_due rid rc st ns k (nv (w_db w2) k)"
      unfolding loop_outcome_def by metis
    then show ?thesis by (auto simp: row_due_def)
  next
    case False
    with assms(2) have "row_due rid rc st ms k (nv (w_db w2) k)" unfolding loop_outcome_def by blast
    then show ?thesis by (auto simp: row_due_def)
  qed
  moreover have "sent_ready rid rc st (ns @ ms) (nv (w_db w2)) (sent (w_disp w)) (sent (w_disp w2))"
    using assms by (intro sent_ready_append) (auto simp only: loop_outcome_def)
  ultimately show ?thesis
    using assms unfolding loop_outcome_def by metis
qed

locale scheduler_context = db_contract D valid run_view node_view +
  dispatcher_contract dispatch dvalid sent
  for D :: "'s DB" and valid and run_view and node_view
    and dispatch :: "'d Dispatcher" and dvalid and sent +
  fixes S :: "('s, 'd, 'h) Scheduler"
  assumes S_store: "sch_store S = D" and S_dispatcher: "sch_dispatcher S = dispatch"
begin

lemma sch_dispatch_effect:
  assumes "dvalid (w_disp w)"
  shows "dvalid (w_disp (sch_dispatch S rid n j w)) \<and> w_db (sch_dispatch S rid n j w) = w_db w
    \<and> w_tasks (sch_dispatch S rid n j w) = w_tasks w
    \<and> sent (w_disp (sch_dispatch S rid n j w)) \<in> {sent (w_disp w), sent (w_disp w) @ [(rid, n, j)]}"
proof -
  obtain q d where q: "dispatch rid n j (w_disp w) = (q, d)" by (cases "dispatch rid n j (w_disp w)")
  show ?thesis
    using dispatch_ok [OF assms, of rid n j _ d] dispatch_err [OF assms, of rid n j _ d] q
    by (cases q) (auto simp: sch_dispatch_def sch_publish_def S_dispatcher)
qed

lemma dispatch_kind_effect:
  assumes "dvalid (w_disp w)"
  shows "dvalid (w_disp (dispatch_kind S rid node w)) \<and> w_db (dispatch_kind S rid node w) = w_db w
    \<and> w_tasks (dispatch_kind S rid node w) = w_tasks w
    \<and> (\<exists>xs. subseq xs (node_jobs node) \<and>
         sent (w_disp (dispatch_kind S rid node w)) = sent (w_disp w) @ map (\<lambda>(n, j). (rid, n, j)) xs)"
proof -
  let ?f = "\<lambda>js w. fold (\<lambda>(n, j). sch_dispatch S rid n j) js w"
  have "dvalid (w_disp (?f js w)) \<and> w_db (?f js w) = w_db w \<and> w_tasks (?f js w) = w_tasks w
    \<and> (\<exists>xs. subseq xs js \<and> sent (w_disp (?f js w)) = sent (w_disp w) @ map (\<lambda>(n, j). (rid, n, j)) xs)"
    for js using assms
  proof (induction js arbitrary: w)
    case (Cons nj js)
    obtain n j where nj: "nj = (n, j)" by (cases nj)
    let ?w1 = "sch_dispatch S rid n j w"
    note one = sch_dispatch_effect [OF Cons.prems, of rid n j]
    from Cons.IH [of ?w1] one obtain xs where xs: "subseq xs js"
      "sent (w_disp (?f js ?w1)) = sent (w_disp ?w1) @ map (\<lambda>(n, j). (rid, n, j)) xs" by auto
    have "\<exists>ys. subseq ys (nj # js) \<and>
        sent (w_disp (?f js ?w1)) = sent (w_disp w) @ map (\<lambda>(n, j). (rid, n, j)) ys"
    proof (cases "sent (w_disp ?w1) = sent (w_disp w)")
      case True
      moreover have "subseq xs (nj # js)" using xs(1) by (rule list_emb_Cons)
      ultimately show ?thesis using xs(2) by auto
    next
      case False
      then have "sent (w_disp ?w1) = sent (w_disp w) @ [(rid, n, j)]" using one by simp
      with xs nj have "subseq (nj # xs) (nj # js) \<and>
          sent (w_disp (?f js ?w1)) = sent (w_disp w) @ map (\<lambda>(n, j). (rid, n, j)) (nj # xs)" by simp
      then show ?thesis by blast
    qed
    with Cons.IH [of ?w1] one nj show ?case by simp
  qed simp
  then show ?thesis by (simp add: dispatch_kind_fold)
qed

lemma world_upsert_effect:
  assumes "valid (w_db w)" and "world_upsert D n w = (q, w')"
  shows "valid (w_db w') \<and> run_view (w_db w') = run_view (w_db w) \<and> w_disp w' = w_disp w
    \<and> w_tasks w' = w_tasks w \<and> w_subs w' = w_subs w
    \<and> node_view (w_db w') = (case q of Inl _ \<Rightarrow> node_view (w_db w)
        | Inr _ \<Rightarrow> (node_view (w_db w))((nr_RunID n, nr_NodeID n) \<mapsto> (nr_JobID n, nr_State n)))"
proof -
  obtain q' db where db: "db_UpsertNode D n (w_db w) = (q', db)"
    by (cases "db_UpsertNode D n (w_db w)")
  then show ?thesis
    using assms(2) upsert_node_ok [OF assms(1), of n _ db] upsert_node_err [OF assms(1), of n _ db]
    by (cases q') (auto simp: world_upsert_def reads_only_def)
qed

lemma advance_node_outcome:
  assumes "valid (w_db w)" and "dvalid (w_disp w)"
  shows "loop_outcome valid run_view node_view dvalid sent rid rc st [node] w
    (advance_node S rid rc st node w)"
proof (cases "node_due st node")
  case False
  then have "advance_node S rid rc st node w = w"
    by (auto simp: advance_node_def node_due_def)
  then show ?thesis using assms by (simp add: loop_outcome_def)
next
  case due: True
  let ?st = "if evalConditions (nd_Conditions node) rc then NodeStateRunning else NodeStateSkipped"
  obtain q w1 where up: "world_upsert D (mk_NodeRecord rid (nd_Id node) ?st) w = (q, w1)"
    by (cases "world_upsert D (mk_NodeRecord rid (nd_Id node) ?st) w")
  note eff = world_upsert_effect [OF assms(1) up]
  have rows: "row_due rid rc st [node] k (node_view (w_db w1) k)"
    if "node_view (w_db w1) k \<noteq> node_view (w_db w) k" for k
    using that eff due by (cases q) (auto simp: row_due_def due_row_def split: if_splits)
  show ?thesis
  proof (cases "evalConditions (nd_Conditions node) rc \<and> (\<exists>u. q = Inr u)")
    case False
    then have "advance_node S rid rc st node w = w1"
      using due up by (cases q) (auto simp: advance_node_def node_due_def S_store)
    then show ?thesis using eff assms(2) rows by (simp add: loop_outcome_def)
  next
    case True
    then have adv: "advance_node S rid rc st node w = dispatch_kind S rid node w1"
      using due up by (auto simp: advance_node_def node_due_def S_store)
    have dv: "dvalid (w_disp w1)" using eff assms(2) by simp
    have running: "row_states (node_view (w_db w1)) rid (nd_Id node) \<noteq> NodeStatePending"
      using eff True by (auto simp: row_states_def)
    from dispatch_kind_effect [OF dv, of rid node] obtain xs where xs: "subseq xs (node_jobs node)"
      "sent (w_disp (dispatch_kind S rid node w1)) = sent (w_disp w1) @ map (\<lambda>(n, j). (rid, n, j)) xs"
      by blast
    then have "set xs \<subseteq> set (node_jobs node)" by (auto dest: list_emb_set)
    then have "sent_ready rid rc st [node] (node_view (w_db w1)) (sent (w_disp w1))
        (sent (w_disp (dispatch_kind S rid node w1)))"
      using xs running True due unfolding sent_ready_def
      by (intro exI [of _ xs]) (auto simp: node_ready_def)
    with dispatch_kind_effect [OF dv, of rid node] eff rows show ?thesis
      by (simp add: adv loop_outcome_def)
  qed
qed

end

end
