(* ===== verification/Db_Value.thy ===== *)
theory Db_Value
  imports Db_Contract
begin

text \<open>
  A value of the interface type \<open>db.DB\<close> as \<open>cmd/master/main.go\<close> makes it: a SQLiteDB or a
  PostgresDB, and a call of a method goes to the one that it holds. It provides the contract too, so
  the rest of the model is verified for both backends at once.
\<close>

datatype db_value = DB_SQLite SQLiteDB | DB_Postgres PostgresDB

text \<open>The choice in \<open>run\<close>, on a database that has no tables yet.\<close>

definition open_store :: "string \<Rightarrow> db_value" where
  "open_store dbURL =
     (if dbURL \<noteq> [] then DB_Postgres Postgres_migrate_new else DB_SQLite SQLite_migrate_new)"

definition db_call ::
  "(SQLiteDB \<Rightarrow> 'a \<times> SQLiteDB) \<Rightarrow> (PostgresDB \<Rightarrow> 'a \<times> PostgresDB) \<Rightarrow> db_value \<Rightarrow> 'a \<times> db_value" where
  "db_call f g s =
     (case s of
        DB_SQLite db \<Rightarrow> (case f db of (r, db') \<Rightarrow> (r, DB_SQLite db'))
      | DB_Postgres db \<Rightarrow> (case g db of (r, db') \<Rightarrow> (r, DB_Postgres db')))"

definition store_DB :: "sql_env \<Rightarrow> db_value DB" where
  "store_DB env =
     \<lparr>db_CreateRun = (\<lambda>r. db_call (SQLite_CreateRun env r) (Postgres_CreateRun env r)),
      db_GetRun = (\<lambda>i. db_call (SQLite_GetRun env i) (Postgres_GetRun env i)),
      db_UpdateRunState =
        (\<lambda>i st. db_call (SQLite_UpdateRunState env i st) (Postgres_UpdateRunState env i st)),
      db_ListRuns = (\<lambda>p n. db_call (SQLite_ListRuns env p n) (Postgres_ListRuns env p n)),
      db_UpsertNode = (\<lambda>n. db_call (SQLite_UpsertNode env n) (Postgres_UpsertNode env n)),
      db_GetNode = (\<lambda>i n. db_call (SQLite_GetNode env i n) (Postgres_GetNode env i n)),
      db_ListNodes = (\<lambda>i. db_call (SQLite_ListNodes env i) (Postgres_ListNodes env i)),
      db_AppendLog = (\<lambda>c. db_call (SQLite_AppendLog env c) (Postgres_AppendLog env c)),
      db_GetLogs = (\<lambda>i j. db_call (SQLite_GetLogs env i j) (Postgres_GetLogs env i j))\<rparr>"

section \<open>The invariant and the views of the store\<close>

fun store_valid :: "db_value \<Rightarrow> bool" where
  "store_valid (DB_SQLite db) = SQLite_valid db"
| "store_valid (DB_Postgres db) = Postgres_valid db"

fun runs_of :: "db_value \<Rightarrow> string \<Rightarrow> (string \<times> RunState) option" where
  "runs_of (DB_SQLite db) = store_runs db"
| "runs_of (DB_Postgres db) = store_runs db"

fun nodes_of :: "db_value \<Rightarrow> string \<times> string \<Rightarrow> (string \<times> NodeState) option" where
  "nodes_of (DB_SQLite db) = store_nodes db"
| "nodes_of (DB_Postgres db) = store_nodes db"

fun logs_of :: "db_value \<Rightarrow> LogChunk list" where
  "logs_of (DB_SQLite db) = SQLite_logs db"
| "logs_of (DB_Postgres db) = Postgres_logs db"

lemma open_store_valid: "store_valid (open_store url)"
  by (simp add: open_store_def SQLite_valid_new Postgres_valid_new)

lemma open_store_empty: "runs_of (open_store url) i = None" "nodes_of (open_store url) k = None"
  by (simp_all add: open_store_def store_runs_def store_nodes_def SQLite_migrate_new_def
      Postgres_migrate_new_def)

text \<open>A call that gives a result comes from one of the backends.\<close>

lemma db_callE:
  assumes "db_call f g s = (r, s')"
  obtains (sqlite) db db' where "s = DB_SQLite db" "s' = DB_SQLite db'" "f db = (r, db')"
  | (postgres) db db' where "s = DB_Postgres db" "s' = DB_Postgres db'" "g db = (r, db')"
  using assms by (cases s) (auto simp: db_call_def split: prod.splits)

lemma store_DB_sel:
  "db_CreateRun (store_DB env) r =
     db_call (db_CreateRun (SQLite_DB env) r) (db_CreateRun (Postgres_DB env) r)"
  "db_GetRun (store_DB env) i = db_call (db_GetRun (SQLite_DB env) i) (db_GetRun (Postgres_DB env) i)"
  "db_UpdateRunState (store_DB env) i st =
     db_call (db_UpdateRunState (SQLite_DB env) i st) (db_UpdateRunState (Postgres_DB env) i st)"
  "db_ListRuns (store_DB env) p l =
     db_call (db_ListRuns (SQLite_DB env) p l) (db_ListRuns (Postgres_DB env) p l)"
  "db_UpsertNode (store_DB env) n =
     db_call (db_UpsertNode (SQLite_DB env) n) (db_UpsertNode (Postgres_DB env) n)"
  "db_GetNode (store_DB env) i j =
     db_call (db_GetNode (SQLite_DB env) i j) (db_GetNode (Postgres_DB env) i j)"
  "db_ListNodes (store_DB env) i =
     db_call (db_ListNodes (SQLite_DB env) i) (db_ListNodes (Postgres_DB env) i)"
  "db_AppendLog (store_DB env) c =
     db_call (db_AppendLog (SQLite_DB env) c) (db_AppendLog (Postgres_DB env) c)"
  "db_GetLogs (store_DB env) i j =
     db_call (db_GetLogs (SQLite_DB env) i j) (db_GetLogs (Postgres_DB env) i j)"
  by (simp_all add: store_DB_def)

lemma reads_only_lift:
  "reads_only SQLite_valid store_runs store_nodes db db' \<Longrightarrow>
     reads_only store_valid runs_of nodes_of (DB_SQLite db) (DB_SQLite db')"
  "reads_only Postgres_valid store_runs store_nodes db2 db2' \<Longrightarrow>
     reads_only store_valid runs_of nodes_of (DB_Postgres db2) (DB_Postgres db2')"
  by (simp_all add: reads_only_def)

interpretation store: db_log_contract "store_DB env" store_valid runs_of nodes_of logs_of for env
proof unfold_locales
  fix s r and u :: unit and s'
  assume "store_valid s" and c: "db_CreateRun (store_DB env) r s = (Inr u, s')"
  from c [unfolded store_DB_sel] this(1)
  show "store_valid s' \<and> nodes_of s' = nodes_of s \<and> runs_of s (run_ID r) = None
      \<and> runs_of s' = (runs_of s)(run_ID r \<mapsto> (run_Project r, run_State r))"
    by (cases rule: db_callE)
      (simp_all only: store_valid.simps runs_of.simps nodes_of.simps
        sqlite.create_run_ok postgres.create_run_ok simp_thms)
next
  fix s r e s'
  assume "store_valid s" and c: "db_CreateRun (store_DB env) r s = (Inl e, s')"
  from c [unfolded store_DB_sel] this(1) show "reads_only store_valid runs_of nodes_of s s'"
    by (cases rule: db_callE)
      (auto simp only: store_valid.simps intro: reads_only_lift sqlite.create_run_err postgres.create_run_err)
next
  fix s i and qr :: "PipelineRun result" and s'
  assume "store_valid s" and c: "db_GetRun (store_DB env) i s = (qr, s')"
  from c [unfolded store_DB_sel] this(1) show "reads_only store_valid runs_of nodes_of s s'"
    by (cases rule: db_callE)
      (auto simp only: store_valid.simps intro: reads_only_lift sqlite.get_run postgres.get_run)
next
  fix s i r s'
  assume "store_valid s" and c: "db_GetRun (store_DB env) i s = (Inr r, s')"
  from c [unfolded store_DB_sel] this(1)
  show "run_ID r = i \<and> runs_of s i = Some (run_Project r, run_State r)"
    by (cases rule: db_callE)
      (auto simp only: store_valid.simps runs_of.simps dest: sqlite.get_run_ok postgres.get_run_ok)
next
  fix s i st and u :: unit and s'
  assume "store_valid s" and c: "db_UpdateRunState (store_DB env) i st s = (Inr u, s')"
  from c [unfolded store_DB_sel] this(1)
  show "store_valid s' \<and> nodes_of s' = nodes_of s
      \<and> runs_of s' = (runs_of s)(i := map_option (\<lambda>(p, _). (p, st)) (runs_of s i))"
    by (cases rule: db_callE)
      (simp_all only: store_valid.simps runs_of.simps nodes_of.simps
        sqlite.update_run_ok postgres.update_run_ok simp_thms)
next
  fix s i st e s'
  assume "store_valid s" and c: "db_UpdateRunState (store_DB env) i st s = (Inl e, s')"
  from c [unfolded store_DB_sel] this(1) show "reads_only store_valid runs_of nodes_of s s'"
    by (cases rule: db_callE)
      (auto simp only: store_valid.simps intro: reads_only_lift sqlite.update_run_err postgres.update_run_err)
next
  fix s n and u :: unit and s'
  assume "store_valid s" and c: "db_UpsertNode (store_DB env) n s = (Inr u, s')"
  from c [unfolded store_DB_sel] this(1)
  show "store_valid s' \<and> runs_of s' = runs_of s
      \<and> nodes_of s' = (nodes_of s)((nr_RunID n, nr_NodeID n) \<mapsto> (nr_JobID n, nr_State n))"
    by (cases rule: db_callE)
      (simp_all only: store_valid.simps runs_of.simps nodes_of.simps
        sqlite.upsert_node_ok postgres.upsert_node_ok simp_thms)
next
  fix s n e s'
  assume "store_valid s" and c: "db_UpsertNode (store_DB env) n s = (Inl e, s')"
  from c [unfolded store_DB_sel] this(1) show "reads_only store_valid runs_of nodes_of s s'"
    by (cases rule: db_callE)
      (auto simp only: store_valid.simps intro: reads_only_lift sqlite.upsert_node_err postgres.upsert_node_err)
next
  fix s i and ql :: "NodeRecord list result" and s'
  assume "store_valid s" and c: "db_ListNodes (store_DB env) i s = (ql, s')"
  from c [unfolded store_DB_sel] this(1) show "reads_only store_valid runs_of nodes_of s s'"
    by (cases rule: db_callE)
      (auto simp only: store_valid.simps intro: reads_only_lift sqlite.list_nodes postgres.list_nodes)
next
  fix s i ns s'
  assume "store_valid s" and c: "db_ListNodes (store_DB env) i s = (Inr ns, s')"
  from c [unfolded store_DB_sel] this(1)
  show "distinct (map nr_NodeID ns) \<and> (\<forall>n \<in> set ns. nr_RunID n = i)
      \<and> (\<forall>k. pk_view nr_NodeID (\<lambda>n. (nr_JobID n, nr_State n)) ns k = nodes_of s (i, k))"
    by (cases rule: db_callE)
      (auto simp only: store_valid.simps nodes_of.simps
        dest: sqlite.list_nodes_ok postgres.list_nodes_ok)
next
  fix s c u s'
  assume "store_valid s" and c: "db_AppendLog (store_DB env) c s = (Inr u, s')"
  from c [unfolded store_DB_sel] this(1)
  show "reads_only store_valid runs_of nodes_of s s' \<and> logs_of s' = logs_of s @ [c]"
    by (cases rule: db_callE)
      (auto simp only: store_valid.simps logs_of.simps intro: reads_only_lift
        dest: sqlite_log.append_log_ok postgres_log.append_log_ok)
next
  fix s c e s'
  assume "store_valid s" and c: "db_AppendLog (store_DB env) c s = (Inl e, s')"
  from c [unfolded store_DB_sel] this(1)
  show "reads_only store_valid runs_of nodes_of s s' \<and> logs_of s' = logs_of s"
    by (cases rule: db_callE)
      (auto simp only: store_valid.simps logs_of.simps intro: reads_only_lift
        dest: sqlite_log.append_log_err postgres_log.append_log_err)
next
  fix s i j and ql :: "LogChunk list result" and s'
  assume "store_valid s" and c: "db_GetLogs (store_DB env) i j s = (ql, s')"
  from c [unfolded store_DB_sel] this(1)
  show "reads_only store_valid runs_of nodes_of s s' \<and> logs_of s' = logs_of s"
    by (cases rule: db_callE)
      (auto simp only: store_valid.simps logs_of.simps intro: reads_only_lift
        dest: sqlite_log.get_logs postgres_log.get_logs)
next
  fix s i j cs s'
  assume "store_valid s" and c: "db_GetLogs (store_DB env) i j s = (Inr cs, s')"
  from c [unfolded store_DB_sel] this(1)
  show "cs = sort_key lc_Timestamp (filter (\<lambda>c. lc_RunID c = i \<and> lc_JobID c = j) (logs_of s))"
    by (cases rule: db_callE)
      (auto simp only: store_valid.simps logs_of.simps
        dest: sqlite_log.get_logs_ok postgres_log.get_logs_ok)
next
  fix s i and qr :: "PipelineRun result" and s'
  assume "store_valid s" and c: "db_GetRun (store_DB env) i s = (qr, s')"
  from c [unfolded store_DB_sel] this(1) show "logs_of s' = logs_of s"
    by (cases rule: db_callE)
      (auto simp only: store_valid.simps logs_of.simps
        dest: sqlite_log.get_run_logs postgres_log.get_run_logs)
next
  fix s i st and qu :: "unit result" and s'
  assume "store_valid s" and c: "db_UpdateRunState (store_DB env) i st s = (qu, s')"
  from c [unfolded store_DB_sel] this(1) show "logs_of s' = logs_of s"
    by (cases rule: db_callE)
      (auto simp only: store_valid.simps logs_of.simps
        dest: sqlite_log.update_run_logs postgres_log.update_run_logs)
qed

section \<open>A store that answers\<close>

text \<open>
  An engine in which no statement fails and no text is refused. There the methods return, but for a run
  that exists already, or one that does not. (A PostgreSQL database acts like that as long as all texts it
  is given are among those that it takes, as the others are not looked at.)
\<close>

definition healthy :: "sql_env \<Rightarrow> sql_env" where
  "healthy env = env\<lparr>env_fault := (\<lambda>_. None), env_text := (\<lambda>_. True)\<rparr>"

locale db_up_contract = db_log_contract +
  assumes create_run_up:
      "valid s \<Longrightarrow> run_view s (run_ID r) = None \<Longrightarrow> \<exists>s'. db_CreateRun D r s = (Inr (), s')"
    and get_run_up:
      "valid s \<Longrightarrow> run_view s i \<noteq> None \<Longrightarrow> \<exists>r s'. db_GetRun D i s = (Inr r, s')"
    and update_run_up: "valid s \<Longrightarrow> \<exists>s'. db_UpdateRunState D i st s = (Inr (), s')"
    and upsert_node_up: "valid s \<Longrightarrow> \<exists>s'. db_UpsertNode D n s = (Inr (), s')"
    and list_nodes_up: "valid s \<Longrightarrow> \<exists>ns s'. db_ListNodes D i s = (Inr ns, s')"
    and append_log_up: "valid s \<Longrightarrow> \<exists>s'. db_AppendLog D c s = (Inr (), s')"
    and get_logs_up: "valid s \<Longrightarrow> \<exists>cs s'. db_GetLogs D i j s = (Inr cs, s')"
begin

text \<open>An update of a node or a run in closed form.\<close>

lemma upsert_node_upE:
  assumes "valid s"
  obtains s' where "db_UpsertNode D n s = (Inr (), s')" and "valid s'" and "run_view s' = run_view s"
    and "node_view s' = (node_view s)((nr_RunID n, nr_NodeID n) \<mapsto> (nr_JobID n, nr_State n))"
  using upsert_node_up [OF assms, of n] upsert_node_ok [OF assms] by blast

lemma update_run_upE:
  assumes "valid s"
  obtains s' where "db_UpdateRunState D i st s = (Inr (), s')" and "valid s'"
    and "node_view s' = node_view s"
    and "run_view s' = (run_view s)(i := map_option (\<lambda>(p, _). (p, st)) (run_view s i))"
  using update_run_up [OF assms, of i st] update_run_ok [OF assms] by blast

lemma create_run_upE:
  assumes "valid s" and "run_view s (run_ID r) = None"
  obtains s' where "db_CreateRun D r s = (Inr (), s')" and "valid s'"
    and "node_view s' = node_view s"
    and "run_view s' = (run_view s)(run_ID r \<mapsto> (run_Project r, run_State r))"
  using create_run_up [OF assms] create_run_ok [OF assms(1)] by blast

lemma list_nodes_upE:
  assumes "valid s"
  obtains ns s' where "db_ListNodes D i s = (Inr ns, s')" and "valid s'"
    and "run_view s' = run_view s" and "node_view s' = node_view s"
  using list_nodes_up [OF assms, of i] list_nodes [OF assms] by (fastforce simp: reads_only_def)

end

interpretation store_up: db_up_contract "store_DB (healthy env)" store_valid runs_of nodes_of logs_of
  for env
proof unfold_locales
  fix s i
  assume "runs_of s i \<noteq> None"
  then show "\<exists>r s'. db_GetRun (store_DB (healthy env)) i s = (Inr r, s')"
    by (cases s)
      (auto simp: store_DB_def db_call_def healthy_def sql_exec_def pg_exec_def pg_env_def Let_def store_runs_def
        pk_view_select SQLite_GetRun_def Postgres_GetRun_def)
next
  fix s and r :: PipelineRun
  assume "runs_of s (run_ID r) = None"
  then show "\<exists>s'. db_CreateRun (store_DB (healthy env)) r s = (Inr (), s')"
    by (cases s)
      (auto simp: store_DB_def db_call_def healthy_def sql_exec_def pg_exec_def pg_env_def Let_def store_runs_def
        pk_view_None insert_pk_def SQLite_CreateRun_def Postgres_CreateRun_def)
next
  fix s i st
  show "\<exists>s'. db_UpdateRunState (store_DB (healthy env)) i st s = (Inr (), s')"
    by (cases s)
      (auto simp: store_DB_def db_call_def healthy_def sql_exec_def pg_exec_def pg_env_def Let_def
        SQLite_UpdateRunState_def Postgres_UpdateRunState_def)
next
  fix s n
  show "\<exists>s'. db_UpsertNode (store_DB (healthy env)) n s = (Inr (), s')"
    by (cases s)
      (auto simp: store_DB_def db_call_def healthy_def sql_exec_def pg_exec_def pg_env_def Let_def
        SQLite_UpsertNode_def Postgres_UpsertNode_def)
next
  fix s i
  show "\<exists>ns s'. db_ListNodes (store_DB (healthy env)) i s = (Inr ns, s')"
    by (cases s)
      (auto simp: store_DB_def db_call_def healthy_def sql_exec_def pg_exec_def pg_env_def Let_def
        SQLite_ListNodes_def Postgres_ListNodes_def)
next
  fix s c
  show "\<exists>s'. db_AppendLog (store_DB (healthy env)) c s = (Inr (), s')"
    by (cases s)
      (auto simp: store_DB_def db_call_def healthy_def sql_exec_def pg_exec_def pg_env_def Let_def
        SQLite_AppendLog_def Postgres_AppendLog_def)
next
  fix s i j
  show "\<exists>cs s'. db_GetLogs (store_DB (healthy env)) i j s = (Inr cs, s')"
    by (cases s)
      (auto simp: store_DB_def db_call_def healthy_def sql_exec_def pg_exec_def pg_env_def Let_def
        SQLite_GetLogs_def Postgres_GetLogs_def)
qed

section \<open>Listing runs\<close>

text \<open>
  What a listing of the runs of a project holds: as many as the limit admits, the latest first, each
  once and with its state.
\<close>

definition runs_listed ::
  "(string \<Rightarrow> (string \<times> RunState) option) \<Rightarrow> string \<Rightarrow> int \<Rightarrow> PipelineRun list \<Rightarrow> bool" where
  "runs_listed R project limit rs \<longleftrightarrow>
     distinct (map run_ID rs)
     \<and> length rs = min (nat limit) (card {i. \<exists>st. R i = Some (project, st)})
     \<and> sorted_wrt (\<lambda>r r'. run_CreatedAt r' \<le> run_CreatedAt r) rs
     \<and> (\<forall>r \<in> set rs. run_Project r = project \<and> R (run_ID r) = Some (project, run_State r))"

locale db_runs_contract = db_contract +
  assumes list_runs:
      "valid s \<Longrightarrow> db_ListRuns D p l s = (ql, s') \<Longrightarrow> reads_only valid run_view node_view s s'"
    and list_runs_ok:
      "valid s \<Longrightarrow> 0 \<le> l \<Longrightarrow> db_ListRuns D p l s = (Inr rs, s') \<Longrightarrow> runs_listed (run_view s) p l rs"

lemma store_runs_iff:
  assumes "store_ok db"
  shows "store_runs db i = Some (p, st) \<longleftrightarrow>
    (\<exists>r \<in> set (st_runs db). rr_id r = i \<and> rr_project r = p \<and> rr_state r = st)"
proof -
  let ?m = "map (\<lambda>r. (rr_id r, (rr_project r, rr_state r))) (st_runs db)"
  have "distinct (map fst ?m)" using assms by (simp add: store_ok_def comp_def)
  then have "map_of ?m i = Some (p, st) \<longleftrightarrow> (i, (p, st)) \<in> set ?m" by (rule map_of_eq_Some_iff)
  then show ?thesis by (auto simp: store_runs_def pk_view_def)
qed

lemma listed_runs:
  fixes db :: "'d sql_store_scheme"
  assumes ok: "store_ok db"
  shows "runs_listed (store_runs db) p l
    (map scan_run (take (nat l) (sort_key (\<lambda>r. - rr_created_at r)
       (sort_key f (filter (\<lambda>r. rr_project r = p) (st_runs db))))))"
proof -
  let ?rows = "filter (\<lambda>r. rr_project r = p) (st_runs db)"
  let ?s = "sort_key (\<lambda>r. - rr_created_at r) (sort_key f ?rows)"
  have m: "mset ?s = mset ?rows" by simp
  have dr: "distinct (map rr_id ?rows)" using ok by (simp add: store_ok_def distinct_map_filter)
  have d: "distinct (map rr_id ?s)" using m dr by (rule distinct_map_mset)
  have "{i. \<exists>st. store_runs db i = Some (p, st)} = rr_id ` set ?rows"
    by (auto simp: store_runs_iff [OF ok])
  then have c: "card {i. \<exists>st. store_runs db i = Some (p, st)} = length ?rows"
    using distinct_card [OF dr] by (simp only: set_map length_map)
  have ds: "distinct (map run_ID (map scan_run (take (nat l) ?s)))"
    using d by (simp add: comp_def take_map [symmetric])
  have "sorted (map (\<lambda>r. - rr_created_at r) ?s)" by simp
  then have "sorted (map (\<lambda>r. - rr_created_at r) (take (nat l) ?s))"
    by (simp only: take_map [symmetric] sorted_wrt_take)
  then have so: "sorted_wrt (\<lambda>r r'. run_CreatedAt r' \<le> run_CreatedAt r)
      (map scan_run (take (nat l) ?s))"
    by (simp add: sorted_wrt_map scan_run_def time_UnixMilli_def)
  have row: "run_Project (scan_run r) = p
      \<and> store_runs db (run_ID (scan_run r)) = Some (p, run_State (scan_run r))"
    if "r \<in> set (take (nat l) ?s)" for r
  proof -
    have "r \<in> set ?s" using that by (rule in_set_takeD)
    then have "r \<in> set (st_runs db)" "rr_project r = p" by simp_all
    then show ?thesis using store_runs_iff [OF ok, of "rr_id r" p "rr_state r"] by auto
  qed
  have "\<forall>r \<in> set (map scan_run (take (nat l) ?s)).
      run_Project r = p \<and> store_runs db (run_ID r) = Some (p, run_State r)"
    by (simp only: set_map ball_simps) (intro ballI row)
  moreover have "length (map scan_run (take (nat l) ?s))
      = min (nat l) (card {i. \<exists>st. store_runs db i = Some (p, st)})"
    unfolding c by (simp add: min.commute)
  ultimately show ?thesis using ds so unfolding runs_listed_def by blast
qed

interpretation store_list: db_runs_contract "store_DB env" store_valid runs_of nodes_of for env
proof unfold_locales
  fix s p l and ql :: "PipelineRun list result" and s'
  assume v: "store_valid s" and c: "db_ListRuns (store_DB env) p l s = (ql, s')"
  from c [unfolded store_DB_sel] v show "reads_only store_valid runs_of nodes_of s s'"
    by (cases rule: db_callE)
      (auto simp: SQLite_ListRuns_def Postgres_ListRuns_def sql_exec_def pg_exec_def Let_def reads_only_def
        SQLite_valid_def Postgres_valid_def split: option.splits if_splits)
next
  fix s p and l :: int and rs s'
  assume v: "store_valid s" and l: "0 \<le> l" and c: "db_ListRuns (store_DB env) p l s = (Inr rs, s')"
  from c [unfolded store_DB_sel] show "runs_listed (runs_of s) p l rs"
  proof (cases rule: db_callE)
    case (sqlite db db')
    with v l listed_runs [of db p l "env_run_rank env (st_stmts db)"] show ?thesis
      by (auto simp: SQLite_ListRuns_def sql_exec_def pg_exec_def Let_def SQLite_valid_def split: option.splits)
  next
    case (postgres db db')
    with v l listed_runs [of db p l "env_run_rank env (st_stmts db)"] show ?thesis
      by (auto simp: Postgres_ListRuns_def sql_exec_def pg_exec_def Let_def Postgres_valid_def split: option.splits)
  qed
qed

end
