(* ===== verification/Scheduler_Props.thy ===== *)
theory Scheduler_Props
  imports Dispatch_Contract Db_Value
begin

text \<open>
  What one call of \<open>Advance\<close> does, in the context of the two contracts; then the master's scheduler
  (\<open>cmd/master/main.go\<close>) as an instance of it, with the properties of its \<open>Advance\<close>.
\<close>

section \<open>One call of Advance\<close>

context scheduler_context
begin

lemma Advance_loop_outcome:
  assumes "valid (w_db w)" and "dvalid (w_disp w)"
  shows "loop_outcome valid run_view node_view dvalid sent rid rc st (ps_Nodes spec) w
    (Advance_loop S rid spec rc st w)"
proof -
  have "loop_outcome valid run_view node_view dvalid sent rid rc st nodes w
      (fold (advance_node S rid rc st) nodes w)" for nodes
    using assms
  proof (induction nodes arbitrary: w)
    case Nil
    then show ?case by (simp add: loop_outcome_def)
  next
    case (Cons n nodes)
    note one = advance_node_outcome [OF Cons.prems, of rid rc st n]
    then have "valid (w_db (advance_node S rid rc st n w))" "dvalid (w_disp (advance_node S rid rc st n w))"
      by (simp_all add: loop_outcome_def)
    from loop_outcome_append [OF one Cons.IH [OF this]] show ?case by simp
  qed
  then show ?thesis by (simp add: Advance_loop_def)
qed

lemma Advance_read_effect:
  assumes "valid (w_db w)" and "Advance_read S rid w = (r, w1)"
  shows "valid (w_db w1) \<and> run_view (w_db w1) = run_view (w_db w)
    \<and> node_view (w_db w1) = node_view (w_db w) \<and> w_disp w1 = w_disp w \<and> w_tasks w1 = w_tasks w
    \<and> w_subs w1 = w_subs w
    \<and> (\<forall>st. r = Some st \<longrightarrow> st = row_states (node_view (w_db w)) rid)"
proof -
  obtain q db where q: "db_ListNodes D rid (w_db w) = (q, db)" by (cases "db_ListNodes D rid (w_db w)")
  note ro = list_nodes [OF assms(1) q]
  show ?thesis
  proof (cases q)
    case (Inl e)
    with q assms(2) ro show ?thesis by (auto simp: Advance_read_def S_store reads_only_def)
  next
    case (Inr ns)
    note l = list_nodes_ok [OF assms(1) q [unfolded Inr]]
    have "state_map ns = row_states (node_view (w_db w)) rid"
      using l by (auto simp: fun_eq_iff state_map_pk row_states_def)
    with q Inr assms(2) ro show ?thesis by (auto simp: Advance_read_def S_store reads_only_def)
  qed
qed

lemma Advance_outcome:
  assumes "valid (w_db w)" and "dvalid (w_disp w)"
  shows "loop_outcome valid run_view node_view dvalid sent rid rc (row_states (node_view (w_db w)) rid)
    (ps_Nodes spec) w (Advance S rid spec rc w)"
proof -
  obtain r w1 where r: "Advance_read S rid w = (r, w1)" by (cases "Advance_read S rid w")
  note eff = Advance_read_effect [OF assms(1) r]
  show ?thesis
  proof (cases r)
    case None
    with r eff assms(2) show ?thesis
      by (simp add: Advance_def loop_outcome_def)
  next
    case (Some st)
    with eff assms(2) Advance_loop_outcome [of w1 rid rc st spec] r show ?thesis
      by (simp add: Advance_def loop_outcome_def)
  qed
qed

end


section \<open>Advance over a store that answers\<close>

text \<open>
  The same call as a function on the view of the node table: every due node gets its new row. The
  jobs of the ready nodes are handed to the dispatcher one after the other, whatever it returns.
\<close>

definition due_step ::
  "string \<Rightarrow> RunContext \<Rightarrow> (string \<Rightarrow> NodeState) \<Rightarrow> Node \<Rightarrow>
   (string \<times> string \<Rightarrow> (string \<times> NodeState) option) \<Rightarrow>
   string \<times> string \<Rightarrow> (string \<times> NodeState) option" where
  "due_step rid rc st node V = (if node_due st node then V((rid, nd_Id node) := due_row rc node) else V)"

definition advance_view ::
  "string \<Rightarrow> RunContext \<Rightarrow> Node list \<Rightarrow> (string \<times> string \<Rightarrow> (string \<times> NodeState) option) \<Rightarrow>
   string \<times> string \<Rightarrow> (string \<times> NodeState) option" where
  "advance_view rid rc nodes V = fold (due_step rid rc (row_states V rid)) nodes V"

definition ready_jobs ::
  "(string \<Rightarrow> NodeState) \<Rightarrow> RunContext \<Rightarrow> Node list \<Rightarrow> (string \<times> JobSpec option) list" where
  "ready_jobs st rc nodes = concat (map node_jobs (filter (node_ready st rc) nodes))"

definition dispatch_all ::
  "'d Dispatcher \<Rightarrow> string \<Rightarrow> (string \<times> JobSpec option) list \<Rightarrow> 'd \<Rightarrow> 'd" where
  "dispatch_all dispatch rid jobs d = fold (\<lambda>(n, j) d. snd (dispatch rid n j d)) jobs d"

locale scheduler_up_context =
  scheduler_context D valid run_view node_view dispatch dvalid sent S +
  db_up_contract D valid run_view node_view log_view
  for D :: "'s DB" and valid and run_view and node_view
    and dispatch :: "'d Dispatcher" and dvalid and sent
    and S :: "('s, 'd, 'h) Scheduler" and log_view
begin

lemma sch_dispatch_world:
  "w_db (sch_dispatch S rid n j w) = w_db w"
  "w_disp (sch_dispatch S rid n j w) = snd (dispatch rid n j (w_disp w))"
  by (simp_all add: sch_dispatch_def sch_publish_def S_dispatcher split: prod.splits sum.splits)

lemma dispatch_kind_world:
  "w_db (dispatch_kind S rid node w) = w_db w
   \<and> w_disp (dispatch_kind S rid node w) = dispatch_all dispatch rid (node_jobs node) (w_disp w)"
proof -
  have "w_db (fold (\<lambda>(n, j). sch_dispatch S rid n j) js w) = w_db w
    \<and> w_disp (fold (\<lambda>(n, j). sch_dispatch S rid n j) js w)
      = fold (\<lambda>(n, j) d. snd (dispatch rid n j d)) js (w_disp w)" for js
    by (induction js arbitrary: w) (auto simp: sch_dispatch_world)
  then show ?thesis by (simp add: dispatch_kind_fold dispatch_all_def)
qed

lemma advance_node_world:
  assumes "valid (w_db w)"
  shows "valid (w_db (advance_node S rid rc st node w))
    \<and> node_view (w_db (advance_node S rid rc st node w)) = due_step rid rc st node (node_view (w_db w))
    \<and> w_disp (advance_node S rid rc st node w)
      = dispatch_all dispatch rid (ready_jobs st rc [node]) (w_disp w)"
proof -
  have up: "\<exists>w1. world_upsert D n w = (Inr (), w1) \<and> valid (w_db w1) \<and> w_disp w1 = w_disp w
      \<and> node_view (w_db w1) = (node_view (w_db w))((nr_RunID n, nr_NodeID n) \<mapsto> (nr_JobID n, nr_State n))"
    for n
    by (rule upsert_node_upE [OF assms, of n]) (simp add: world_upsert_def)
  show ?thesis
  proof (cases "node_due st node")
    case False
    then show ?thesis using assms
      by (auto simp: advance_node_def node_due_def due_step_def ready_jobs_def node_ready_def
          dispatch_all_def)
  next
    case True
    then show ?thesis
      using up [of "mk_NodeRecord rid (nd_Id node) NodeStateRunning"]
        up [of "mk_NodeRecord rid (nd_Id node) NodeStateSkipped"]
      by (auto simp: advance_node_def S_store node_due_def due_step_def due_row_def ready_jobs_def
          node_ready_def dispatch_kind_world dispatch_all_def)
  qed
qed

lemma Advance_loop_world:
  assumes "valid (w_db w)"
  shows "valid (w_db (Advance_loop S rid spec rc st w))
    \<and> node_view (w_db (Advance_loop S rid spec rc st w))
      = fold (due_step rid rc st) (ps_Nodes spec) (node_view (w_db w))
    \<and> w_disp (Advance_loop S rid spec rc st w)
      = dispatch_all dispatch rid (ready_jobs st rc (ps_Nodes spec)) (w_disp w)"
proof -
  have "valid (w_db (fold (advance_node S rid rc st) nodes w))
    \<and> node_view (w_db (fold (advance_node S rid rc st) nodes w))
      = fold (due_step rid rc st) nodes (node_view (w_db w))
    \<and> w_disp (fold (advance_node S rid rc st) nodes w)
      = dispatch_all dispatch rid (ready_jobs st rc nodes) (w_disp w)" for nodes
    using assms
  proof (induction nodes arbitrary: w)
    case Nil
    then show ?case by (simp add: ready_jobs_def dispatch_all_def)
  next
    case (Cons n nodes)
    have "ready_jobs st rc (n # nodes) = ready_jobs st rc [n] @ ready_jobs st rc nodes"
      by (simp add: ready_jobs_def)
    with Cons.IH advance_node_world [OF Cons.prems, of rid rc st n] show ?case
      by (simp add: dispatch_all_def)
  qed
  then show ?thesis by (simp add: Advance_loop_def)
qed

lemma Advance_world:
  assumes "valid (w_db w)"
  shows "node_view (w_db (Advance S rid spec rc w))
      = advance_view rid rc (ps_Nodes spec) (node_view (w_db w))
    \<and> w_disp (Advance S rid spec rc w)
      = dispatch_all dispatch rid
          (ready_jobs (row_states (node_view (w_db w)) rid) rc (ps_Nodes spec)) (w_disp w)"
proof -
  obtain ns s' where "db_ListNodes D rid (w_db w) = (Inr ns, s')" using assms by (rule list_nodes_upE)
  then have r: "Advance_read S rid w = (Some (state_map ns), w\<lparr>w_db := s'\<rparr>)"
    by (simp add: Advance_read_def S_store)
  from Advance_read_effect [OF assms r] Advance_loop_world [of "w\<lparr>w_db := s'\<rparr>"]
  show ?thesis by (simp add: Advance_def r advance_view_def)
qed

end

section \<open>The master's scheduler\<close>

text \<open>The wiring of \<open>run\<close> in \<open>cmd/master/main.go\<close>.\<close>

definition master_scheduler ::
  "sql_env \<Rightarrow> net_env \<Rightarrow> 'h Bus \<Rightarrow> (db_value, Registry, 'h) Scheduler" where
  "master_scheduler env net b =
     NewScheduler (store_DB env) (registryDispatcher_Dispatch net) b"

interpretation master: scheduler_context "store_DB env" store_valid runs_of nodes_of
  "registryDispatcher_Dispatch net" registry_ok registry_sent "master_scheduler env net b"
  for env net b
  by unfold_locales (simp_all add: master_scheduler_def)

interpretation master_up: scheduler_up_context "store_DB (healthy env)" store_valid runs_of nodes_of
  "registryDispatcher_Dispatch net" registry_ok registry_sent "master_scheduler (healthy env) net b"
  logs_of
  for env net b
  by unfold_locales

end
