(* ===== verification/Run_Manager.thy ===== *)
theory Run_Manager
  imports Scheduler_Props
begin

text \<open>
  \<open>internal/pipeline/run.go\<close>: the \<open>Manager\<close>, with \<open>Start\<close> and \<open>NodeCompleted\<close>. The new run ID
  (\<open>uuid.New\<close>) and the time are arguments of \<open>Start\<close>; the goroutine it starts is left in the
  tasks of the world.
\<close>

section \<open>The manager\<close>

record ('s, 'd, 'h) Manager =
  mg_db :: "'s DB"
  mg_bus :: "'h Bus"
  mg_scheduler :: "('s, 'd, 'h) Scheduler"

definition NewManager ::
  "'s DB \<Rightarrow> 'h Bus \<Rightarrow> ('s, 'd, 'h) Scheduler \<Rightarrow> ('s, 'd, 'h) Manager" where
  "NewManager store b scheduler = \<lparr>mg_db = store, mg_bus = b, mg_scheduler = scheduler\<rparr>"

text \<open>The body of the seeding loop: the row of the node, then those of the jobs of a stage.\<close>

definition seed_node ::
  "'s DB \<Rightarrow> string \<Rightarrow> Node \<Rightarrow> ('s, 'd, 'h) world \<Rightarrow> unit result \<times> ('s, 'd, 'h) world" where
  "seed_node D runID node w =
     (case world_upsert D (mk_NodeRecord runID (nd_Id node) NodeStatePending) w of
        (Inl e, w1) \<Rightarrow> (Inl (Wrapf ''seed node %s'' [nd_Id node] e), w1)
      | (Inr _, w1) \<Rightarrow>
          (case Node_GetStage node of
             None \<Rightarrow> (Inr (), w1)
           | Some s \<Rightarrow>
               for_err (\<lambda>j. world_upsert D
                   (mk_NodeRecord runID (nd_Id node @ ''/'' @ nd_Id j) NodeStatePending))
                 (ss_Jobs s) w1))"

definition Start ::
  "('s, 'd, 'h) Manager \<Rightarrow> string \<Rightarrow> time \<Rightarrow> PipelineSpec \<Rightarrow> string \<Rightarrow> RunContext \<Rightarrow>
   ('s, 'd, 'h) world \<Rightarrow> string result \<times> ('s, 'd, 'h) world" where
  "Start m runID now spec project rc w =
     (let run = \<lparr>run_ID = runID, run_Project = project, run_State = RunStatePending,
                 run_CreatedAt = now, run_UpdatedAt = now\<rparr> in
      case db_CreateRun (mg_db m) run (w_db w) of
        (Inl e, db) \<Rightarrow> (Inl (Wrapf ''create run'' [] e), w\<lparr>w_db := db\<rparr>)
      | (Inr _, db) \<Rightarrow>
          (case for_err (seed_node (mg_db m) runID) (ps_Nodes spec) (w\<lparr>w_db := db\<rparr>) of
             (Inl e, w1) \<Rightarrow> (Inl e, w1)
           | (Inr _, w1) \<Rightarrow>
               (case db_UpdateRunState (mg_db m) runID RunStateRunning (w_db w1) of
                  (Inl e, db2) \<Rightarrow> (Inl e, w1\<lparr>w_db := db2\<rparr>)
                | (Inr _, db2) \<Rightarrow>
                    (let w2 = sch_publish (mg_bus m) EventTriggerReceived runID (w1\<lparr>w_db := db2\<rparr>) in
                     (Inr runID,
                      w2\<lparr>w_tasks := w_tasks w2 @
                           [\<lparr>at_runID = runID, at_spec = spec, at_rc = rc\<rparr>]\<rparr>)))))"

text \<open>The goroutine.\<close>

definition run_task ::
  "('s, 'd, 'h) Manager \<Rightarrow> advance_task \<Rightarrow> ('s, 'd, 'h) world \<Rightarrow> ('s, 'd, 'h) world" where
  "run_task m t w = Advance (mg_scheduler m) (at_runID t) (at_spec t) (at_rc t) w"

fun allTerminal :: "NodeRecord list \<Rightarrow> bool" where
  "allTerminal [] = True"
| "allTerminal (n # nodes) =
     (if nr_State n = NodeStatePending \<or> nr_State n = NodeStateRunning then False
      else allTerminal nodes)"

text \<open>The loop that looks for a failed node.\<close>

fun final_state :: "NodeRecord list \<Rightarrow> RunState" where
  "final_state [] = RunStateSuccess"
| "final_state (n # nodes) =
     (if nr_State n = NodeStateFailed then RunStateFailed else final_state nodes)"

definition NodeCompleted ::
  "('s, 'd, 'h) Manager \<Rightarrow> string \<Rightarrow> string \<Rightarrow> bool \<Rightarrow> ('s, 'd, 'h) world \<Rightarrow>
   unit result \<times> ('s, 'd, 'h) world" where
  "NodeCompleted m runID nodeID success w =
     (let state = (if \<not> success then NodeStateFailed else NodeStateSuccess);
          evType = (if \<not> success then EventJobFailed else EventJobCompleted) in
      case world_upsert (mg_db m) (mk_NodeRecord runID nodeID state) w of
        (Inl e, w1) \<Rightarrow> (Inl e, w1)
      | (Inr _, w1) \<Rightarrow>
          (let w2 = sch_publish (mg_bus m) evType nodeID w1 in
           case db_ListNodes (mg_db m) runID (w_db w2) of
             (Inl e, db) \<Rightarrow> (Inl e, w2\<lparr>w_db := db\<rparr>)
           | (Inr nodes, db) \<Rightarrow>
               (let w3 = w2\<lparr>w_db := db\<rparr> in
                if allTerminal nodes
                then (case db_UpdateRunState (mg_db m) runID (final_state nodes) (w_db w3) of
                        (Inl e, db) \<Rightarrow> (Inl e, w3\<lparr>w_db := db\<rparr>)
                      | (Inr _, db) \<Rightarrow>
                          (Inr (), sch_publish (mg_bus m) EventRunCompleted runID (w3\<lparr>w_db := db\<rparr>)))
                else (Inr (), w3))))"

lemma allTerminal_iff:
  "allTerminal ns \<longleftrightarrow> (\<forall>n \<in> set ns. nr_State n \<notin> {NodeStatePending, NodeStateRunning})"
  by (induction ns) auto

lemma final_state_iff:
  "final_state ns =
     (if \<exists>n \<in> set ns. nr_State n = NodeStateFailed then RunStateFailed else RunStateSuccess)"
  by (induction ns) auto

section \<open>What the rows of a run say\<close>

text \<open>The IDs under which a node is seeded.\<close>

definition node_rows :: "Node \<Rightarrow> string list" where
  "node_rows node =
     nd_Id node #
     (case Node_GetStage node of
        None \<Rightarrow> [] | Some s \<Rightarrow> map (\<lambda>j. nd_Id node @ ''/'' @ nd_Id j) (ss_Jobs s))"

definition seed_ids :: "PipelineSpec \<Rightarrow> string set" where
  "seed_ids spec = (\<Union>n \<in> set (ps_Nodes spec). set (node_rows n))"

definition set_rows ::
  "string \<Rightarrow> string set \<Rightarrow> NodeState \<Rightarrow> (string \<times> string \<Rightarrow> (string \<times> NodeState) option) \<Rightarrow>
   string \<times> string \<Rightarrow> (string \<times> NodeState) option" where
  "set_rows rid ids st V = (\<lambda>(r, i). if r = rid \<and> i \<in> ids then Some ([], st) else V (r, i))"

lemma set_rows_empty [simp]: "set_rows rid {} st V = V"
  by (simp add: set_rows_def)

lemma set_rows_set_rows: "set_rows rid B st (set_rows rid A st V) = set_rows rid (A \<union> B) st V"
  by (auto simp: set_rows_def fun_eq_iff)

lemma set_rows_upd: "V((rid, i) \<mapsto> ([], st)) = set_rows rid {i} st V"
  by (auto simp: set_rows_def fun_eq_iff)

definition run_active :: "(string \<times> string \<Rightarrow> (string \<times> NodeState) option) \<Rightarrow> string \<Rightarrow> bool" where
  "run_active V rid \<longleftrightarrow>
     (\<exists>i j st. V (rid, i) = Some (j, st) \<and> st \<in> {NodeStatePending, NodeStateRunning})"

definition run_failed :: "(string \<times> string \<Rightarrow> (string \<times> NodeState) option) \<Rightarrow> string \<Rightarrow> bool" where
  "run_failed V rid \<longleftrightarrow> (\<exists>i j. V (rid, i) = Some (j, NodeStateFailed))"

definition completed_view ::
  "string \<Rightarrow> string \<Rightarrow> bool \<Rightarrow> (string \<times> string \<Rightarrow> (string \<times> NodeState) option) \<Rightarrow>
   string \<times> string \<Rightarrow> (string \<times> NodeState) option" where
  "completed_view rid nid success V =
     V((rid, nid) \<mapsto> ([], if success then NodeStateSuccess else NodeStateFailed))"

text \<open>The runs after a completion: the run ends when its rows are all terminal.\<close>

definition completed_runs ::
  "string \<Rightarrow> (string \<times> string \<Rightarrow> (string \<times> NodeState) option) \<Rightarrow>
   (string \<Rightarrow> (string \<times> RunState) option) \<Rightarrow> string \<Rightarrow> (string \<times> RunState) option" where
  "completed_runs rid V R =
     (if run_active V rid then R
      else R(rid := map_option (\<lambda>(p, _).
             (p, if run_failed V rid then RunStateFailed else RunStateSuccess)) (R rid)))"

section \<open>The manager in the context of the contracts\<close>

text \<open>What seeding touches: rows of the run, which become pending.\<close>

definition seeds_rows ::
  "('s \<Rightarrow> bool) \<Rightarrow> ('s \<Rightarrow> 'r) \<Rightarrow> ('s \<Rightarrow> string \<times> string \<Rightarrow> (string \<times> NodeState) option) \<Rightarrow>
   string \<Rightarrow> string set \<Rightarrow> ('s, 'd, 'h) world \<Rightarrow> ('s, 'd, 'h) world \<Rightarrow> bool" where
  "seeds_rows valid run_view node_view rid ids w w' \<longleftrightarrow>
     valid (w_db w') \<and> run_view (w_db w') = run_view (w_db w) \<and> w_disp w' = w_disp w
     \<and> w_tasks w' = w_tasks w \<and> w_subs w' = w_subs w
     \<and> node_view (w_db w') = set_rows rid ids NodeStatePending (node_view (w_db w))"

locale manager_context = scheduler_context D valid run_view node_view dispatch dvalid sent S
  for D :: "'s DB" and valid and run_view and node_view
    and dispatch :: "'d Dispatcher" and dvalid and sent
    and S :: "('s, 'd, 'h) Scheduler" +
  fixes M :: "('s, 'd, 'h) Manager"
  assumes M_db: "mg_db M = D" and M_scheduler: "mg_scheduler M = S"
begin

abbreviation seeds where "seeds \<equiv> seeds_rows valid run_view node_view"

lemma seeds_trans: "seeds rid A w w1 \<Longrightarrow> seeds rid B w1 w2 \<Longrightarrow> seeds rid (A \<union> B) w w2"
  by (simp add: seeds_rows_def set_rows_set_rows)

lemma seeds_refl: "valid (w_db w) \<Longrightarrow> seeds rid {} w w"
  by (simp add: seeds_rows_def)

lemma seed_upsert:
  assumes "valid (w_db w)" and "world_upsert D (mk_NodeRecord rid i NodeStatePending) w = (q, w')"
  shows "\<exists>ids. ids \<subseteq> {i} \<and> seeds rid ids w w' \<and> (q = Inr () \<longrightarrow> ids = {i})"
proof (cases q)
  case (Inl e)
  then show ?thesis using world_upsert_effect [OF assms]
    by (intro exI [of _ "{}"]) (simp add: seeds_rows_def)
next
  case (Inr u)
  then show ?thesis using world_upsert_effect [OF assms]
    by (intro exI [of _ "{i}"]) (simp add: seeds_rows_def set_rows_upd)
qed

text \<open>A loop over items each of which seeds at most its IDs, and exactly those when it succeeds.\<close>

lemma seed_loop:
  assumes "valid (w_db w)" and "for_err f xs w = (q, w')"
    and "\<And>x w q w'. x \<in> set xs \<Longrightarrow> valid (w_db w) \<Longrightarrow> f x w = (q, w') \<Longrightarrow>
           \<exists>ids. ids \<subseteq> g x \<and> seeds rid ids w w' \<and> (q = Inr () \<longrightarrow> ids = g x)"
  shows "\<exists>ids. ids \<subseteq> (\<Union>x \<in> set xs. g x) \<and> seeds rid ids w w'
    \<and> (q = Inr () \<longrightarrow> ids = (\<Union>x \<in> set xs. g x))"
  using assms
proof (induction xs arbitrary: w)
  case Nil
  then show ?case by (auto intro: seeds_refl)
next
  case (Cons x xs)
  obtain q1 w1 where f: "f x w = (q1, w1)" by (cases "f x w")
  obtain ids1 where ids1: "ids1 \<subseteq> g x" "seeds rid ids1 w w1" "q1 = Inr () \<longrightarrow> ids1 = g x"
    using Cons.prems(3) [OF _ Cons.prems(1) f] by auto
  show ?case
  proof (cases q1)
    case (Inl e)
    with f Cons.prems(2) have "q = Inl e" "w' = w1" by simp_all
    with ids1 show ?thesis by auto
  next
    case (Inr u)
    with f Cons.prems(2) have loop: "for_err f xs w1 = (q, w')" by simp
    have v1: "valid (w_db w1)" using ids1(2) by (simp add: seeds_rows_def)
    have "\<exists>ids. ids \<subseteq> (\<Union>x \<in> set xs. g x) \<and> seeds rid ids w1 w'
        \<and> (q = Inr () \<longrightarrow> ids = (\<Union>x \<in> set xs. g x))"
      using v1 loop by (rule Cons.IH) (rule Cons.prems(3), simp_all)
    then obtain ids2 where ids2: "ids2 \<subseteq> (\<Union>x \<in> set xs. g x)" "seeds rid ids2 w1 w'"
      "q = Inr () \<longrightarrow> ids2 = (\<Union>x \<in> set xs. g x)" by blast
    have "seeds rid (ids1 \<union> ids2) w w'" using ids1(2) ids2(2) by (rule seeds_trans)
    moreover have "ids1 \<union> ids2 \<subseteq> (\<Union>x \<in> set (x # xs). g x)" using ids1(1) ids2(1) by auto
    moreover have "q = Inr () \<longrightarrow> ids1 \<union> ids2 = (\<Union>x \<in> set (x # xs). g x)"
      using ids1(3) ids2(3) Inr by simp
    ultimately show ?thesis by blast
  qed
qed

lemma seed_node_effect:
  assumes "valid (w_db w)" and "seed_node D rid node w = (q, w')"
  shows "\<exists>ids. ids \<subseteq> set (node_rows node) \<and> seeds rid ids w w'
    \<and> (q = Inr () \<longrightarrow> ids = set (node_rows node))"
proof -
  obtain q1 w1 where up: "world_upsert D (mk_NodeRecord rid (nd_Id node) NodeStatePending) w = (q1, w1)"
    by (cases "world_upsert D (mk_NodeRecord rid (nd_Id node) NodeStatePending) w")
  note one = seed_upsert [OF assms(1) up]
  show ?thesis
  proof (cases q1)
    case (Inl e)
    with assms(2) up one show ?thesis by (auto simp: seed_node_def node_rows_def)
  next
    case (Inr u)
    with one have s1: "seeds rid {nd_Id node} w w1" by simp
    show ?thesis
    proof (cases "Node_GetStage node")
      case None
      with assms(2) up Inr s1 show ?thesis
        by (intro exI [of _ "{nd_Id node}"]) (auto simp: seed_node_def node_rows_def)
    next
      case (Some s)
      let ?i = "\<lambda>j. nd_Id node @ ''/'' @ nd_Id j"
      let ?f = "\<lambda>j. world_upsert D (mk_NodeRecord rid (?i j) NodeStatePending)"
      have loop: "for_err ?f (ss_Jobs s) w1 = (q, w')"
        using assms(2) up Inr Some by (simp add: seed_node_def)
      have v1: "valid (w_db w1)" using s1 by (simp add: seeds_rows_def)
      have "\<exists>ids. ids \<subseteq> (\<Union>j \<in> set (ss_Jobs s). {?i j}) \<and> seeds rid ids w1 w'
          \<and> (q = Inr () \<longrightarrow> ids = (\<Union>j \<in> set (ss_Jobs s). {?i j}))"
        using v1 loop by (rule seed_loop) (rule seed_upsert)
      then obtain ids where "ids \<subseteq> ?i ` set (ss_Jobs s)" "seeds rid ids w1 w'"
        "q = Inr () \<longrightarrow> ids = ?i ` set (ss_Jobs s)" by auto
      with seeds_trans [OF s1] show ?thesis
        by (intro exI [of _ "{nd_Id node} \<union> ids"]) (auto simp: node_rows_def Some)
    qed
  qed
qed

lemma seed_all_effect:
  assumes "valid (w_db w)" and "for_err (seed_node D rid) (ps_Nodes spec) w = (q, w')"
  shows "\<exists>ids. ids \<subseteq> seed_ids spec \<and> seeds rid ids w w' \<and> (q = Inr () \<longrightarrow> ids = seed_ids spec)"
  unfolding seed_ids_def using assms by (rule seed_loop) (rule seed_node_effect)

text \<open>The effects of \<open>Start\<close>.\<close>

lemma Start_ok:
  assumes "valid (w_db w)" and "Start M rid now spec project rc w = (Inr i, w')"
  shows "i = rid" and "valid (w_db w')" and "run_view (w_db w) rid = None"
    and "run_view (w_db w') = (run_view (w_db w))(rid \<mapsto> (project, RunStateRunning))"
    and "node_view (w_db w') = set_rows rid (seed_ids spec) NodeStatePending (node_view (w_db w))"
    and "w_disp w' = w_disp w"
    and "w_tasks w' = w_tasks w @ [\<lparr>at_runID = rid, at_spec = spec, at_rc = rc\<rparr>]"
    and "w_subs w' = Publish (mg_bus M) \<lparr>e_Type = EventTriggerReceived, e_Payload = rid\<rparr> (w_subs w)"
proof -
  let ?run = "\<lparr>run_ID = rid, run_Project = project, run_State = RunStatePending,
    run_CreatedAt = now, run_UpdatedAt = now\<rparr>"
  obtain q db where c: "db_CreateRun D ?run (w_db w) = (q, db)" by (cases "db_CreateRun D ?run (w_db w)")
  with assms(2) obtain u where q: "q = Inr u" by (cases q) (auto simp: Start_def M_db Let_def)
  note created = create_run_ok [OF assms(1) c [unfolded q]]
  obtain q1 w1 where l: "for_err (seed_node D rid) (ps_Nodes spec) (w\<lparr>w_db := db\<rparr>) = (q1, w1)"
    by (cases "for_err (seed_node D rid) (ps_Nodes spec) (w\<lparr>w_db := db\<rparr>)")
  with assms(2) c q have q1: "q1 = Inr ()" by (cases q1) (auto simp: Start_def M_db Let_def)
  have seeded: "seeds rid (seed_ids spec) (w\<lparr>w_db := db\<rparr>) w1"
    using seed_all_effect [OF _ l] created q1 by auto
  then have v1: "valid (w_db w1)" by (simp add: seeds_rows_def)
  obtain q2 db2 where up: "db_UpdateRunState D rid RunStateRunning (w_db w1) = (q2, db2)"
    by (cases "db_UpdateRunState D rid RunStateRunning (w_db w1)")
  with assms(2) c q l q1 obtain u2 where q2: "q2 = Inr u2"
    by (cases q2) (auto simp: Start_def M_db Let_def)
  note updated = update_run_ok [OF v1 up [unfolded q2]]
  from assms(2) c q l q1 up q2 have w': "i = rid" "w' = (sch_publish (mg_bus M) EventTriggerReceived rid
      (w1\<lparr>w_db := db2\<rparr>))\<lparr>w_tasks := w_tasks w1 @ [\<lparr>at_runID = rid, at_spec = spec, at_rc = rc\<rparr>]\<rparr>"
    by (auto simp: Start_def M_db Let_def sch_publish_def)
  show "i = rid" "valid (w_db w')" "run_view (w_db w) rid = None" "w_disp w' = w_disp w"
    "node_view (w_db w') = set_rows rid (seed_ids spec) NodeStatePending (node_view (w_db w))"
    "w_tasks w' = w_tasks w @ [\<lparr>at_runID = rid, at_spec = spec, at_rc = rc\<rparr>]"
    "w_subs w' = Publish (mg_bus M) \<lparr>e_Type = EventTriggerReceived, e_Payload = rid\<rparr> (w_subs w)"
    "run_view (w_db w') = (run_view (w_db w))(rid \<mapsto> (project, RunStateRunning))"
    using created seeded updated by (simp_all add: w' sch_publish_def seeds_rows_def)
qed

text \<open>
  A \<open>Start\<close> that fails leaves no task, event or dispatch behind, but, unless \<open>CreateRun\<close> itself
  failed, it leaves the run in state pending with some of its rows.
\<close>

lemma Start_err:
  assumes "valid (w_db w)" and "Start M rid now spec project rc w = (Inl e, w')"
  shows "valid (w_db w') \<and> w_disp w' = w_disp w \<and> w_tasks w' = w_tasks w \<and> w_subs w' = w_subs w
    \<and> (node_view (w_db w') = node_view (w_db w) \<and> run_view (w_db w') = run_view (w_db w)
         \<and> (\<exists>e0. e = Wrapf ''create run'' [] e0)
       \<or> run_view (w_db w) rid = None
         \<and> run_view (w_db w') = (run_view (w_db w))(rid \<mapsto> (project, RunStatePending))
         \<and> (\<exists>ids \<subseteq> seed_ids spec.
              node_view (w_db w') = set_rows rid ids NodeStatePending (node_view (w_db w))))"
proof -
  let ?run = "\<lparr>run_ID = rid, run_Project = project, run_State = RunStatePending,
    run_CreatedAt = now, run_UpdatedAt = now\<rparr>"
  obtain q db where c: "db_CreateRun D ?run (w_db w) = (q, db)" by (cases "db_CreateRun D ?run (w_db w)")
  show ?thesis
  proof (cases q)
    case (Inl e0)
    with assms(2) c have "e = Wrapf ''create run'' [] e0" "w' = w\<lparr>w_db := db\<rparr>"
      by (simp_all add: Start_def M_db Let_def)
    with create_run_err [OF assms(1) c [unfolded Inl]] show ?thesis by (simp add: reads_only_def)
  next
    case (Inr u)
    note created = create_run_ok [OF assms(1) c [unfolded Inr]]
    obtain q1 w1 where l: "for_err (seed_node D rid) (ps_Nodes spec) (w\<lparr>w_db := db\<rparr>) = (q1, w1)"
      by (cases "for_err (seed_node D rid) (ps_Nodes spec) (w\<lparr>w_db := db\<rparr>)")
    obtain ids where ids: "ids \<subseteq> seed_ids spec" "seeds rid ids (w\<lparr>w_db := db\<rparr>) w1"
      using seed_all_effect [OF _ l] created by auto
    then have v1: "valid (w_db w1)" by (simp add: seeds_rows_def)
    obtain q2 db2 where up: "db_UpdateRunState D rid RunStateRunning (w_db w1) = (q2, db2)"
      by (cases "db_UpdateRunState D rid RunStateRunning (w_db w1)")
    have "w' = w1 \<or> w' = w1\<lparr>w_db := db2\<rparr> \<and> (\<exists>e. q2 = Inl e)"
      using assms(2) c Inr l up
      by (cases q1; cases q2) (simp_all add: Start_def M_db Let_def)
    then have "valid (w_db w') \<and> run_view (w_db w') = run_view (w_db w1)
        \<and> node_view (w_db w') = node_view (w_db w1) \<and> w_disp w' = w_disp w1
        \<and> w_tasks w' = w_tasks w1 \<and> w_subs w' = w_subs w1"
      using v1 update_run_err [OF v1, of rid RunStateRunning] up by (auto simp: reads_only_def)
    with ids created show ?thesis by (auto simp: seeds_rows_def)
  qed
qed

text \<open>The effects of \<open>NodeCompleted\<close>.\<close>

lemma listed_terminal:
  assumes "valid s" and "db_ListNodes D rid s = (Inr ns, s')"
  shows "allTerminal ns \<longleftrightarrow> \<not> run_active (node_view s) rid"
    and "final_state ns = (if run_failed (node_view s) rid then RunStateFailed else RunStateSuccess)"
proof -
  note l = list_nodes_state [OF assms]
  have "(\<exists>n \<in> set ns. nr_State n = st) \<longleftrightarrow> (\<exists>i j. node_view s (rid, i) = Some (j, st))" for st
    using l [of _ st] by blast
  note st = this
  show "allTerminal ns \<longleftrightarrow> \<not> run_active (node_view s) rid"
    using st [of NodeStatePending] st [of NodeStateRunning]
    unfolding allTerminal_iff run_active_def by blast
  show "final_state ns = (if run_failed (node_view s) rid then RunStateFailed else RunStateSuccess)"
    using st [of NodeStateFailed] by (simp add: final_state_iff run_failed_def)
qed

lemma NodeCompleted_ok:
  assumes "valid (w_db w)" and "NodeCompleted M rid nid success w = (Inr u, w')"
  defines "V \<equiv> completed_view rid nid success (node_view (w_db w))"
  shows "valid (w_db w') \<and> node_view (w_db w') = V
    \<and> run_view (w_db w') = completed_runs rid V (run_view (w_db w))
    \<and> w_disp w' = w_disp w \<and> w_tasks w' = w_tasks w"
proof -
  let ?n = "mk_NodeRecord rid nid (if \<not> success then NodeStateFailed else NodeStateSuccess)"
  let ?ev = "if \<not> success then EventJobFailed else EventJobCompleted"
  obtain q w1 where up: "world_upsert D ?n w = (q, w1)" by (cases "world_upsert D ?n w")
  with assms(2) obtain u1 where q: "q = Inr u1"
    by (cases q) (auto simp: NodeCompleted_def M_db Let_def)
  note eff = world_upsert_effect [OF assms(1) up]
  let ?w2 = "sch_publish (mg_bus M) ?ev nid w1"
  have w2: "w_db ?w2 = w_db w1" "w_disp ?w2 = w_disp w1" "w_tasks ?w2 = w_tasks w1"
    by (simp_all add: sch_publish_def)
  have V: "node_view (w_db w1) = V" using eff q by (cases success) (simp_all add: V_def completed_view_def)
  have v1: "valid (w_db w1)" using eff by simp
  obtain q2 db where l: "db_ListNodes D rid (w_db w1) = (q2, db)" by (cases "db_ListNodes D rid (w_db w1)")
  with assms(2) up q w2 obtain ns where q2: "q2 = Inr ns"
    by (cases q2) (auto simp: NodeCompleted_def M_db Let_def)
  note ro = list_nodes [OF v1 l]
  note t = listed_terminal [OF v1 l [unfolded q2], unfolded V]
  have v2: "valid db" using ro by (simp add: reads_only_def)
  show ?thesis
  proof (cases "allTerminal ns")
    case False
    with assms(2) up q l q2 w2 have "w' = ?w2\<lparr>w_db := db\<rparr>" by (simp add: NodeCompleted_def M_db Let_def)
    with eff ro V w2 False t show ?thesis by (simp add: reads_only_def completed_runs_def)
  next
    case True
    obtain q3 db3 where ur: "db_UpdateRunState D rid (final_state ns) db = (q3, db3)"
      by (cases "db_UpdateRunState D rid (final_state ns) db")
    with assms(2) up q l q2 w2 True obtain u3 where q3: "q3 = Inr u3"
      by (cases q3) (auto simp: NodeCompleted_def M_db Let_def)
    note upd = update_run_ok [OF v2 ur [unfolded q3]]
    from assms(2) up q l q2 w2 True ur q3
    have "w' = sch_publish (mg_bus M) EventRunCompleted rid (?w2\<lparr>w_db := db3\<rparr>)"
      by (simp add: NodeCompleted_def M_db Let_def sch_publish_def)
    with eff ro V w2 True t upd show ?thesis
      by (simp add: reads_only_def completed_runs_def sch_publish_def)
  qed
qed

lemma NodeCompleted_err:
  assumes "valid (w_db w)" and "NodeCompleted M rid nid success w = (Inl e, w')"
  shows "valid (w_db w') \<and> run_view (w_db w') = run_view (w_db w)
    \<and> w_disp w' = w_disp w \<and> w_tasks w' = w_tasks w
    \<and> node_view (w_db w') \<in> {node_view (w_db w), completed_view rid nid success (node_view (w_db w))}"
proof -
  let ?n = "mk_NodeRecord rid nid (if \<not> success then NodeStateFailed else NodeStateSuccess)"
  let ?ev = "if \<not> success then EventJobFailed else EventJobCompleted"
  obtain q w1 where up: "world_upsert D ?n w = (q, w1)" by (cases "world_upsert D ?n w")
  note eff = world_upsert_effect [OF assms(1) up]
  let ?w2 = "sch_publish (mg_bus M) ?ev nid w1"
  have w2: "w_db ?w2 = w_db w1" "w_disp ?w2 = w_disp w1" "w_tasks ?w2 = w_tasks w1"
    by (simp_all add: sch_publish_def)
  show ?thesis
  proof (cases q)
    case (Inl e0)
    with assms(2) up eff show ?thesis by (auto simp: NodeCompleted_def M_db Let_def)
  next
    case (Inr u)
    then have V: "node_view (w_db w1) = completed_view rid nid success (node_view (w_db w))"
      using eff by (cases success) (simp_all add: completed_view_def)
    have v1: "valid (w_db w1)" using eff by simp
    obtain q2 db where l: "db_ListNodes D rid (w_db w1) = (q2, db)" by (cases "db_ListNodes D rid (w_db w1)")
    note ro = list_nodes [OF v1 l]
    have v2: "valid db" using ro by (simp add: reads_only_def)
    show ?thesis
    proof (cases q2)
      case (Inl e0)
      with assms(2) up Inr l w2 have "w' = ?w2\<lparr>w_db := db\<rparr>" by (simp add: NodeCompleted_def M_db Let_def)
      with eff ro V w2 show ?thesis by (simp add: reads_only_def)
    next
      case (Inr ns)
      obtain q3 db3 where ur: "db_UpdateRunState D rid (final_state ns) db = (q3, db3)"
        by (cases "db_UpdateRunState D rid (final_state ns) db")
      with assms(2) up \<open>q = Inr u\<close> Inr l w2 have "q3 = Inl e" "w' = ?w2\<lparr>w_db := db3\<rparr>"
        by (cases "allTerminal ns"; cases q3; simp add: NodeCompleted_def M_db Let_def)+
      with eff ro V w2 update_run_err [OF v2 ur [unfolded \<open>q3 = Inl e\<close>]] show ?thesis
        by (simp add: reads_only_def)
    qed
  qed
qed

end

section \<open>The master's manager\<close>

definition master_manager ::
  "sql_env \<Rightarrow> net_env \<Rightarrow> 'h Bus \<Rightarrow> (db_value, Registry, 'h) Manager" where
  "master_manager env net b = NewManager (store_DB env) b (master_scheduler env net b)"

interpretation mgr: manager_context "store_DB env" store_valid runs_of nodes_of
  "registryDispatcher_Dispatch net" registry_ok registry_sent "master_scheduler env net b"
  "master_manager env net b"
  for env net b
  by unfold_locales (simp_all add: master_manager_def NewManager_def)

lemma Start_valid:
  "store_valid (w_db w) \<Longrightarrow> Start (master_manager env net b) rid now spec project rc w = (Inr i, w') \<Longrightarrow>
     store_valid (w_db w')"
  by (rule mgr.Start_ok(2))

text \<open>On a store that answers, a \<open>Start\<close> with a new ID succeeds.\<close>

lemma world_upsert_up:
  "store_valid (w_db w) \<Longrightarrow>
     \<exists>w'. world_upsert (store_DB (healthy env)) n w = (Inr (), w') \<and> store_valid (w_db w')"
  by (rule store_up.upsert_node_upE [of "w_db w" env n]) (simp_all add: world_upsert_def)

lemma seed_node_up:
  assumes "store_valid (w_db w)"
  shows "\<exists>w'. seed_node (store_DB (healthy env)) rid node w = (Inr (), w') \<and> store_valid (w_db w')"
proof -
  obtain w1 where w1: "world_upsert (store_DB (healthy env)) (mk_NodeRecord rid (nd_Id node) NodeStatePending) w
      = (Inr (), w1)" "store_valid (w_db w1)"
    using world_upsert_up [OF assms] by blast
  show ?thesis
  proof (cases "Node_GetStage node")
    case None
    then show ?thesis using w1 by (simp add: seed_node_def)
  next
    case (Some s)
    have "\<exists>w'. for_err (\<lambda>j. world_upsert (store_DB (healthy env))
        (mk_NodeRecord rid (nd_Id node @ ''/'' @ nd_Id j) NodeStatePending)) (ss_Jobs s) w1 = (Inr (), w')
        \<and> store_valid (w_db w')"
      by (rule for_err_ok [where I = "\<lambda>w. store_valid (w_db w)"]) (rule w1(2), rule world_upsert_up)
    then show ?thesis using w1(1) Some by (simp add: seed_node_def)
  qed
qed

lemma Start_up:
  assumes "store_valid (w_db w)" and "runs_of (w_db w) rid = None"
  shows "\<exists>w'. Start (master_manager (healthy env) net b) rid now spec project rc w = (Inr rid, w')"
proof -
  let ?D = "store_DB (healthy env)"
  let ?run = "\<lparr>run_ID = rid, run_Project = project, run_State = RunStatePending,
    run_CreatedAt = now, run_UpdatedAt = now\<rparr>"
  obtain s1 where c: "db_CreateRun ?D ?run (w_db w) = (Inr (), s1)" "store_valid s1"
    by (rule store_up.create_run_upE [OF assms(1), of ?run env]) (simp_all add: assms(2))
  have "\<exists>w2. for_err (seed_node ?D rid) (ps_Nodes spec) (w\<lparr>w_db := s1\<rparr>) = (Inr (), w2) \<and> store_valid (w_db w2)"
    by (rule for_err_ok [where I = "\<lambda>w. store_valid (w_db w)"]) (simp add: c(2), rule seed_node_up)
  then obtain w2 where l: "for_err (seed_node ?D rid) (ps_Nodes spec) (w\<lparr>w_db := s1\<rparr>) = (Inr (), w2)"
      "store_valid (w_db w2)" by blast
  obtain s3 where u: "db_UpdateRunState ?D rid RunStateRunning (w_db w2) = (Inr (), s3)"
    by (rule store_up.update_run_upE [OF l(2)])
  show ?thesis using c(1) l(1) u by (simp add: Start_def Let_def master_manager_def NewManager_def)
qed

end
