(* ===== verification/Api_Server.thy ===== *)
theory Api_Server
  imports Run_Manager
begin

text \<open>
  \<open>internal/api/server.go\<close>: the gRPC services \<open>BrazierAPI\<close> and \<open>AgentService\<close>. A service method
  takes the store, the manager or the registry that its server struct holds.
\<close>

section \<open>Status errors\<close>

datatype grpc_code = NotFound | Internal | Unimplemented

text \<open>
  \<open>status.Errorf(code, f + ": %v", err)\<close>, a status without a wrapped error, and the error of a stream.
\<close>

datatype grpc_error =
    StatusErr grpc_code string go_error
  | StatusMsg grpc_code string
  | StreamErr go_error

type_synonym 'a rpc = "grpc_error + 'a"

section \<open>The servers\<close>

text \<open>
  What the two structs hold besides the registry, which is the dispatcher's state \<open>w_disp\<close> of the world. The methods
  below take the field that they use.
\<close>

record ('s, 'd, 'h) BrazierServer =
  bs_store :: "'s DB"
  bs_manager :: "('s, 'd, 'h) Manager"

definition NewBrazierServer :: "'s DB \<Rightarrow> ('s, 'd, 'h) Manager \<Rightarrow> ('s, 'd, 'h) BrazierServer" where
  "NewBrazierServer store mgr = \<lparr>bs_store = store, bs_manager = mgr\<rparr>"

record 's AgentServer =
  as_store :: "'s DB"

definition NewAgentServer :: "'s DB \<Rightarrow> 's AgentServer" where
  "NewAgentServer store = \<lparr>as_store = store\<rparr>"

section \<open>BrazierAPI\<close>

definition SubmitPipeline ::
  "('s, 'd, 'h) Manager \<Rightarrow> string \<Rightarrow> time \<Rightarrow> PipelineSpec \<Rightarrow> ('s, 'd, 'h) world \<Rightarrow>
   string rpc \<times> ('s, 'd, 'h) world" where
  "SubmitPipeline m runID now spec w =
     (case Start m runID now spec ''api'' \<lparr>rc_Branch = [], rc_Tag = [], rc_Event = ''manual''\<rparr> w of
        (Inl e, w1) \<Rightarrow> (Inl (StatusErr Internal ''start pipeline'' e), w1)
      | (Inr i, w1) \<Rightarrow> (Inr i, w1))"

definition GetRun :: "'s DB \<Rightarrow> string \<Rightarrow> 's \<Rightarrow> RunStatus rpc \<times> 's" where
  "GetRun D rid s =
     (case db_GetRun D rid s of
        (Inl e, s1) \<Rightarrow> (Inl (StatusErr NotFound ''run not found'' e), s1)
      | (Inr run, s1) \<Rightarrow>
          (case db_ListNodes D rid s1 of
             (q, s2) \<Rightarrow>
               (let nodes = (case q of Inl _ \<Rightarrow> [] | Inr ns \<Rightarrow> ns) in
                (Inr \<lparr>rs_RunId = run_ID run, rs_State = run_State run, rs_Nodes = map nr_NodeID nodes\<rparr>,
                 s2))))"

definition ListRuns :: "'s DB \<Rightarrow> ListRunsRequest \<Rightarrow> 's \<Rightarrow> RunStatus list rpc \<times> 's" where
  "ListRuns D req s =
     (let limit = int_of_int32 (lr_Limit req);
          limit = (if limit \<le> 0 then 50 else limit) in
      case db_ListRuns D (lr_Project req) limit s of
        (Inl e, s1) \<Rightarrow> (Inl (StatusErr Internal ''list runs'' e), s1)
      | (Inr runs, s1) \<Rightarrow>
          (Inr (map (\<lambda>r. \<lparr>rs_RunId = run_ID r, rs_State = run_State r, rs_Nodes = []\<rparr>) runs), s1))"

definition CancelRun :: "'s DB \<Rightarrow> string \<Rightarrow> 's \<Rightarrow> unit rpc \<times> 's" where
  "CancelRun D rid s =
     (case db_UpdateRunState D rid RunStateCancelled s of
        (Inl e, s1) \<Rightarrow> (Inl (StatusErr Internal ''cancel run'' e), s1)
      | (Inr _, s1) \<Rightarrow> (Inr (), s1))"

text \<open>
  One tick of \<open>StreamLogs\<close>: the result is an error, or whether the stream ends and the new value
  of \<open>seen\<close>. \<open>send\<close> is \<open>stream.Send\<close> on a state \<open>'k\<close> of the stream.
\<close>

definition pb_of_LogChunk :: "LogChunk \<Rightarrow> pb_LogChunk" where
  "pb_of_LogChunk c =
     \<lparr>pl_JobId = lc_JobID c, pl_RunId = lc_RunID c, pl_Timestamp = lc_Timestamp c,
      pl_Line = lc_Line c, pl_Stderr = lc_Stderr c\<rparr>"

definition StreamLogs_tick ::
  "'s DB \<Rightarrow> (pb_LogChunk \<Rightarrow> 'k \<Rightarrow> unit result \<times> 'k) \<Rightarrow> string \<Rightarrow> nat \<Rightarrow> 's \<times> 'k \<Rightarrow>
   (bool \<times> nat) rpc \<times> 's \<times> 'k" where
  "StreamLogs_tick D send rid seen = (\<lambda>(s, k).
     (case db_GetLogs D rid [] s of
        (Inl e, s1) \<Rightarrow> (Inl (StatusErr Internal ''get logs'' e), s1, k)
      | (Inr chunks, s1) \<Rightarrow>
          (case for_err (\<lambda>c. send (pb_of_LogChunk c)) (drop seen chunks) k of
             (Inl e, k1) \<Rightarrow> (Inl (StreamErr e), s1, k1)
           | (Inr _, k1) \<Rightarrow>
               (case db_GetRun D rid s1 of
                  (q, s2) \<Rightarrow>
                    (let run = (case q of Inl _ \<Rightarrow> zero_PipelineRun | Inr r \<Rightarrow> r) in
                     (Inr (run_State run = RunStateSuccess \<or> run_State run = RunStateFailed
                           \<or> run_State run = RunStateCancelled, length chunks), s2, k1))))))"

text \<open>
  The loop, over the ticks until the context is done: before each tick other goroutines may have
  changed the store, as the function in the list says.
\<close>

fun StreamLogs ::
  "'s DB \<Rightarrow> (pb_LogChunk \<Rightarrow> 'k \<Rightarrow> unit result \<times> 'k) \<Rightarrow> string \<Rightarrow> ('s \<Rightarrow> 's) list \<Rightarrow> nat \<Rightarrow> 's \<times> 'k \<Rightarrow>
   unit rpc \<times> 's \<times> 'k" where
  "StreamLogs D send rid [] seen sk = (Inr (), sk)"
| "StreamLogs D send rid (f # fs) seen (s, k) =
     (case StreamLogs_tick D send rid seen (f s, k) of
        (Inl e, sk) \<Rightarrow> (Inl e, sk)
      | (Inr (stop, seen'), sk) \<Rightarrow>
          if stop then (Inr (), sk) else StreamLogs D send rid fs seen' sk)"

definition ListAgents :: "net_env \<Rightarrow> Registry \<Rightarrow> AgentInfo list rpc" where
  "ListAgents net r = Inr (Registry_List net r)"

definition ListWorkflows :: "string list rpc" where
  "ListWorkflows = Inr []"

definition GetWorkflow :: "WorkflowRef \<Rightarrow> WorkflowDAG rpc" where
  "GetWorkflow ref = Inl (StatusMsg Unimplemented (''workflow '' @ wr_Name ref @ '' not found''))"

section \<open>AgentService\<close>

text \<open>\<open>SendLog\<close> reads chunks until the stream ends; the error of an append is dropped.\<close>

definition LogChunk_of_pb :: "pb_LogChunk \<Rightarrow> LogChunk" where
  "LogChunk_of_pb c =
     \<lparr>lc_JobID = pl_JobId c, lc_RunID = pl_RunId c, lc_Timestamp = pl_Timestamp c,
      lc_Line = pl_Line c, lc_Stderr = pl_Stderr c\<rparr>"

text \<open>The handler of \<open>Register\<close>: what it does when the stream opens, and when it has ended.\<close>

definition AgentServer_Register :: "AgentRegistration \<Rightarrow> nat \<Rightarrow> Registry \<Rightarrow> Registry \<times> (Registry \<Rightarrow> Registry)" where
  "AgentServer_Register reg stream r = (Register_connect reg stream r, Register_disconnect reg)"

definition SendLog :: "'s DB \<Rightarrow> pb_LogChunk list \<Rightarrow> 's \<Rightarrow> unit rpc \<times> 's" where
  "SendLog D received s = (Inr (), fold (\<lambda>c s. snd (db_AppendLog D (LogChunk_of_pb c) s)) received s)"

definition SendResult :: "JobResult \<Rightarrow> Registry \<Rightarrow> unit rpc \<times> Registry" where
  "SendResult result r = (Inr (), JobDone (jr_JobId result) r)"

lemma pb_LogChunk_roundtrip [simp]: "pb_of_LogChunk (LogChunk_of_pb c) = c"
  by (simp add: pb_of_LogChunk_def LogChunk_of_pb_def)

lemma LogChunk_pb_roundtrip [simp]: "LogChunk_of_pb (pb_of_LogChunk c) = c"
  by (simp add: pb_of_LogChunk_def LogChunk_of_pb_def)

section \<open>Log streaming\<close>

text \<open>A stream that accepts every message and keeps them in order.\<close>

definition collect :: "pb_LogChunk \<Rightarrow> pb_LogChunk list \<Rightarrow> unit result \<times> pb_LogChunk list" where
  "collect c k = (Inr (), k @ [c])"

lemma for_err_collect: "for_err (\<lambda>c. collect (f c)) cs k = (Inr (), k @ map f cs)"
  by (induction cs arbitrary: k) (simp_all add: collect_def)

text \<open>The chunks of a run that the stream looks at: those without a job ID, by timestamp.\<close>

definition streamed :: "string \<Rightarrow> LogChunk list \<Rightarrow> LogChunk list" where
  "streamed rid logs = sort_key lc_Timestamp (filter (\<lambda>c. lc_RunID c = rid \<and> lc_JobID c = []) logs)"

context db_log_contract
begin

lemma SendLog_logs:
  assumes "valid s" and "SendLog D cs s = (q, s')"
  shows "q = Inr ()" and "reads_only valid run_view node_view s s'"
    and "\<exists>xs. subseq xs (map LogChunk_of_pb cs) \<and> log_view s' = log_view s @ xs"
proof -
  show "q = Inr ()" using assms(2) by (simp add: SendLog_def)
  let ?f = "\<lambda>c s. snd (db_AppendLog D (LogChunk_of_pb c) s)"
  have "reads_only valid run_view node_view s (fold ?f cs s)
      \<and> (\<exists>xs. subseq xs (map LogChunk_of_pb cs) \<and> log_view (fold ?f cs s) = log_view s @ xs)"
    using assms(1)
  proof (induction cs arbitrary: s)
    case Nil
    then show ?case by (simp add: reads_only_def)
  next
    case (Cons c cs)
    obtain q1 s1 where a: "db_AppendLog D (LogChunk_of_pb c) s = (q1, s1)"
      by (cases "db_AppendLog D (LogChunk_of_pb c) s")
    have one: "reads_only valid run_view node_view s s1 \<and>
        (log_view s1 = log_view s \<or> log_view s1 = log_view s @ [LogChunk_of_pb c])"
      using append_log_ok [OF Cons.prems, of "LogChunk_of_pb c"]
        append_log_err [OF Cons.prems, of "LogChunk_of_pb c"] a
      by (cases q1) auto
    then have "valid s1" by (simp add: reads_only_def)
    from Cons.IH [OF this] obtain xs where xs: "subseq xs (map LogChunk_of_pb cs)"
      "log_view (fold ?f cs s1) = log_view s1 @ xs"
      and ro: "reads_only valid run_view node_view s1 (fold ?f cs s1)" by blast
    have "\<exists>ys. subseq ys (LogChunk_of_pb c # map LogChunk_of_pb cs)
        \<and> log_view (fold ?f cs s1) = log_view s @ ys"
    proof (cases "log_view s1 = log_view s")
      case True
      with xs show ?thesis by (intro exI [of _ xs]) (simp add: list_emb_Cons)
    next
      case False
      with xs one show ?thesis by (intro exI [of _ "LogChunk_of_pb c # xs"]) simp
    qed
    with one ro a show ?case by (simp add: reads_only_def)
  qed
  then show "reads_only valid run_view node_view s s'"
    "\<exists>xs. subseq xs (map LogChunk_of_pb cs) \<and> log_view s' = log_view s @ xs"
    using assms(2) by (simp_all add: SendLog_def)
qed

lemma StreamLogs_tick_effect:
  assumes "valid s" and "StreamLogs_tick D collect rid seen (s, k) = (q, s', k')"
  shows "valid s' \<and> log_view s' = log_view s \<and>
    (k' = k \<and> (\<exists>e. q = Inl e)
     \<or> k' = k @ map pb_of_LogChunk (drop seen (streamed rid (log_view s)))
       \<and> (\<exists>stop. q = Inr (stop, length (streamed rid (log_view s)))))"
proof -
  obtain q1 s1 where g: "db_GetLogs D rid [] s = (q1, s1)" by (cases "db_GetLogs D rid [] s")
  note one = get_logs [OF assms(1) g]
  show ?thesis
  proof (cases q1)
    case (Inl e)
    with assms(2) g one show ?thesis by (auto simp: StreamLogs_tick_def reads_only_def)
  next
    case (Inr cs)
    have cs: "cs = streamed rid (log_view s)"
      using get_logs_ok [OF assms(1) g [unfolded Inr]] by (simp add: streamed_def)
    have v1: "valid s1" using one by (simp add: reads_only_def)
    obtain q2 s2 where r: "db_GetRun D rid s1 = (q2, s2)" by (cases "db_GetRun D rid s1")
    have "valid s2 \<and> log_view s2 = log_view s"
      using get_run [OF v1 r] get_run_logs [OF v1 r] one by (simp add: reads_only_def)
    with assms(2) g Inr r cs show ?thesis
      by (auto simp: StreamLogs_tick_def for_err_collect Let_def)
  qed
qed

text \<open>
  When the chunks that others append only come after those of before in the order of the stream, the
  client gets each once, in order: what it has is a prefix of what the log holds.
\<close>

lemma StreamLogs_effect:
  assumes "StreamLogs D collect rid fs seen (s, k) = (q, s', k')"
    and "valid s" and "k = map pb_of_LogChunk (take seen (streamed rid (log_view s)))"
    and "seen \<le> length (streamed rid (log_view s))"
    and "\<And>f s. f \<in> set fs \<Longrightarrow> valid s \<Longrightarrow> valid (f s) \<and>
           (\<exists>xs. streamed rid (log_view (f s)) = streamed rid (log_view s) @ xs)"
  shows "valid s' \<and> (\<exists>n \<le> length (streamed rid (log_view s')).
    k' = map pb_of_LogChunk (take n (streamed rid (log_view s'))))"
  using assms
proof (induction fs arbitrary: seen s k)
  case Nil
  then show ?case by auto
next
  case (Cons f fs)
  have vf: "valid (f s)" using Cons.prems(2,5) by simp
  obtain xs where grow: "streamed rid (log_view (f s)) = streamed rid (log_view s) @ xs"
    using Cons.prems(5) [of f s] Cons.prems(2) by auto
  have k: "k = map pb_of_LogChunk (take seen (streamed rid (log_view (f s))))"
    using Cons.prems(3,4) by (simp add: grow)
  obtain q1 s1 k1 where t: "StreamLogs_tick D collect rid seen (f s, k) = (q1, s1, k1)"
    by (cases "StreamLogs_tick D collect rid seen (f s, k)")
  note eff = StreamLogs_tick_effect [OF vf t]
  show ?case
  proof (cases q1)
    case (Inl e)
    with Cons.prems(1) t have "s' = s1" "k' = k1" by simp_all
    moreover have "k1 = k" using eff Inl by auto
    ultimately show ?thesis using eff k Cons.prems(4) grow by (intro conjI exI [of _ seen]) auto
  next
    case (Inr p)
    let ?n = "length (streamed rid (log_view s1))"
    have s1: "valid s1" "streamed rid (log_view s1) = streamed rid (log_view (f s))" using eff by simp_all
    obtain stop where p: "p = (stop, ?n)"
      and "k1 = k @ map pb_of_LogChunk (drop seen (streamed rid (log_view (f s))))"
      using eff Inr by auto
    then have k1: "k1 = map pb_of_LogChunk (take ?n (streamed rid (log_view s1)))"
      by (simp add: k s1(2) flip: map_append)
    show ?thesis
    proof (cases stop)
      case True
      with Cons.prems(1) t Inr p have "s' = s1" "k' = k1" by simp_all
      with k1 s1(1) show ?thesis by blast
    next
      case False
      with Cons.prems(1) t Inr p have "StreamLogs D collect rid fs ?n (s1, k1) = (q, s', k')" by simp
      then show ?thesis using s1(1) k1 order_refl
        by (rule Cons.IH) (rule Cons.prems(5), simp_all)
    qed
  qed
qed

text \<open>Whatever the others append, what is sent has no job ID.\<close>

lemma StreamLogs_unnamed:
  assumes "StreamLogs D collect rid fs seen (s, k) = (q, s', k')" and "valid s"
    and "\<And>f s. f \<in> set fs \<Longrightarrow> valid s \<Longrightarrow> valid (f s)"
    and "\<forall>c \<in> set k. pl_JobId c = [] \<and> pl_RunId c = rid"
  shows "\<forall>c \<in> set k'. pl_JobId c = [] \<and> pl_RunId c = rid"
  using assms
proof (induction fs arbitrary: seen s k)
  case Nil
  then show ?case by simp
next
  case (Cons f fs)
  have vf: "valid (f s)" using Cons.prems(2,3) by simp
  obtain q1 s1 k1 where t: "StreamLogs_tick D collect rid seen (f s, k) = (q1, s1, k1)"
    by (cases "StreamLogs_tick D collect rid seen (f s, k)")
  note eff = StreamLogs_tick_effect [OF vf t]
  have "\<forall>c \<in> set (streamed rid (log_view (f s))). lc_JobID c = [] \<and> lc_RunID c = rid"
    by (simp add: streamed_def)
  then have d: "\<forall>c \<in> set (drop seen (streamed rid (log_view (f s)))). lc_JobID c = [] \<and> lc_RunID c = rid"
    by (blast dest: in_set_dropD)
  have "k1 = k \<or> k1 = k @ map pb_of_LogChunk (drop seen (streamed rid (log_view (f s))))"
    using eff by blast
  then have k1: "\<forall>c \<in> set k1. pl_JobId c = [] \<and> pl_RunId c = rid"
  proof
    assume "k1 = k @ map pb_of_LogChunk (drop seen (streamed rid (log_view (f s))))"
    with d Cons.prems(4) show ?thesis by (simp add: ball_Un pb_of_LogChunk_def)
  qed (use Cons.prems(4) in simp)
  show ?case
  proof (cases "\<exists>n. q1 = Inr (False, n)")
    case True
    then obtain n where "q1 = Inr (False, n)" by blast
    with Cons.prems(1) t have "StreamLogs D collect rid fs n (s1, k1) = (q, s', k')" by simp
    moreover have "valid s1" using eff by simp
    ultimately show ?thesis using Cons.prems(3) k1 by (rule Cons.IH) simp_all
  next
    case False
    with Cons.prems(1) t have "k' = k1" by (auto split: sum.splits if_splits)
    with k1 show ?thesis by simp
  qed
qed

end

end
