(* ===== verification/Example_World.thy ===== *)
theory Example_World
  imports Run_Manager
begin

text \<open>
  A concrete master on which hypotheses are shown to hold: engines and streams that never fail, one
  agent with room for two jobs, and a pipeline of two jobs, the second of which depends on the first.
\<close>

definition ex_env :: sql_env where
  "ex_env =
     \<lparr>env_fault = (\<lambda>_. None), env_now = (\<lambda>n. int n * 1000000),
      env_run_rank = (\<lambda>_ _. 0), env_node_rank = (\<lambda>_ _. 0), env_text = (\<lambda>_. True)\<rparr>"

definition ex_net :: net_env where
  "ex_net = \<lparr>ne_rank = (\<lambda>_ _. 0), ne_send_fault = (\<lambda>_. None)\<rparr>"

definition ex_agent :: AgentRegistration where
  "ex_agent = \<lparr>ar_AgentId = ''a1'', ar_Name = ''agent'', ar_Labels = [], ar_Capacity = 2\<rparr>"

definition ex_registry :: Registry where
  "ex_registry = Register_connect ex_agent 0 registry_New"

definition ex_job :: JobSpec where
  "ex_job = \<lparr>js_Commands = [''make''], js_Env = [], js_Secrets = [], js_ArtifactPaths = []\<rparr>"

definition ex_build :: Node where "ex_build = Node ''build'' [] [] (Some (Node_Job ex_job))"
definition ex_test :: Node where "ex_test = Node ''test'' [''build''] [] (Some (Node_Job ex_job))"

definition ex_spec :: PipelineSpec where
  "ex_spec = \<lparr>ps_Workflow = None, ps_Nodes = [ex_build, ex_test]\<rparr>"

definition ex_rc :: RunContext where
  "ex_rc = \<lparr>rc_Branch = [], rc_Tag = [], rc_Event = ''manual''\<rparr>"

definition ex_world :: "(db_value, Registry, Event list) world" where
  "ex_world = \<lparr>w_db = open_store [], w_disp = ex_registry, w_subs = [], w_tasks = []\<rparr>"

abbreviation ex_bus :: "Event list Bus" where "ex_bus \<equiv> bus_New"

definition ex_scheduler :: "(db_value, Registry, Event list) Scheduler" where
  "ex_scheduler = master_scheduler ex_env ex_net ex_bus"

definition ex_manager :: "(db_value, Registry, Event list) Manager" where
  "ex_manager = master_manager ex_env ex_net ex_bus"

text \<open>The world after the run \<open>r\<close> started, and after its first \<open>Advance\<close>.\<close>

definition ex_started :: "(db_value, Registry, Event list) world" where
  "ex_started = snd (Start ex_manager ''r'' 0 ex_spec ''api'' ex_rc ex_world)"

definition ex_advanced :: "(db_value, Registry, Event list) world" where
  "ex_advanced = Advance ex_scheduler ''r'' ex_spec ex_rc ex_started"

lemma ex_world_ok: "store_valid (w_db ex_world)" "registry_ok (w_disp ex_world)"
  by (simp_all add: ex_world_def open_store_valid ex_registry_def Register_connect_ok registry_ok_New)

lemma ex_Start: "Start ex_manager ''r'' 0 ex_spec ''api'' ex_rc ex_world = (Inr ''r'', ex_started)"
proof -
  have "fst (Start ex_manager ''r'' 0 ex_spec ''api'' ex_rc ex_world) = Inr ''r''"
    by code_simp
  then show ?thesis by (simp add: ex_started_def prod_eq_iff)
qed

lemma ex_advanced_row: "row_states (nodes_of (w_db ex_advanced)) ''r'' ''build'' = NodeStateRunning"
  by code_simp

lemma ex_advanced_sent: "registry_sent (w_disp ex_advanced) = [(''r'', ''build'', Some ex_job)]"
  by code_simp

end
