(* ===== verification/Pipeline_Safety.thy ===== *)
theory Pipeline_Safety
  imports Example_World
begin

text \<open>
  A run under every sequence of calls of the two packages \<open>pipeline\<close> and \<open>registry\<close>, as the comments
  of \<open>scheduler.go\<close> and \<open>run.go\<close> intend them: \<open>Advance\<close> may be called again at any time,
  \<open>NodeCompleted\<close> is called for jobs that were dispatched, agents come and go, other runs do the
  same, and any statement or send may fail. The steps are whole calls, one after the other.
\<close>

section \<open>The rows and the dispatches of one run\<close>

definition run_sent ::
  "string \<Rightarrow> (string \<times> string \<times> JobSpec option) list \<Rightarrow> (string \<times> JobSpec option) list" where
  "run_sent rid sl = map snd (filter (\<lambda>(r, _). r = rid) sl)"

text \<open>No two rows of the run have the same ID (\<open>Start\<close> does not check this).\<close>

definition distinct_rows :: "PipelineSpec \<Rightarrow> bool" where
  "distinct_rows spec \<longleftrightarrow> distinct (concat (map node_rows (ps_Nodes spec)))"

definition dag_ok ::
  "PipelineSpec \<Rightarrow> string \<Rightarrow> (string \<times> string \<Rightarrow> (string \<times> NodeState) option) \<Rightarrow> bool" where
  "dag_ok spec rid V \<longleftrightarrow>
     (\<forall>n \<in> set (ps_Nodes spec). row_states V rid (nd_Id n) \<noteq> NodeStatePending \<longrightarrow>
        depsTerminal (nd_DependsOn n) (row_states V rid))"

definition sent_ok ::
  "PipelineSpec \<Rightarrow> string \<Rightarrow> (string \<times> string \<Rightarrow> (string \<times> NodeState) option) \<Rightarrow>
   (string \<times> string \<times> JobSpec option) list \<Rightarrow> bool" where
  "sent_ok spec rid V sl \<longleftrightarrow>
     distinct (map fst (run_sent rid sl))
     \<and> (\<forall>x \<in> set (run_sent rid sl). \<exists>m \<in> set (ps_Nodes spec).
          x \<in> set (node_jobs m) \<and> row_states V rid (nd_Id m) \<noteq> NodeStatePending)"

lemma run_sent_append [simp]: "run_sent rid (xs @ ys) = run_sent rid xs @ run_sent rid ys"
  by (simp add: run_sent_def)

lemma run_sent_map:
  "run_sent rid (map (Pair r) xs) = (if r = rid then xs else [])"
  by (induction xs) (auto simp: run_sent_def)

lemma distinct_concatD:
  "distinct (concat (map f xs)) \<Longrightarrow> x \<in> set xs \<Longrightarrow> y \<in> set xs \<Longrightarrow> i \<in> set (f x) \<Longrightarrow> i \<in> set (f y) \<Longrightarrow>
     x = y"
  by (induction xs) auto

lemma node_jobs_rows: "(i, j) \<in> set (node_jobs m) \<Longrightarrow> i \<in> set (node_rows m)"
  by (cases "nd_Kind m"; cases "the (nd_Kind m)")
    (auto simp: node_jobs_def node_rows_def Node_GetStage_def)

lemma nd_Id_rows [simp]: "nd_Id m \<in> set (node_rows m)"
  by (simp add: node_rows_def)

lemma node_jobs_distinct: "distinct (node_rows m) \<Longrightarrow> distinct (map fst (node_jobs m))"
  by (auto simp: node_jobs_def node_rows_def Node_GetStage_def comp_def
      split: option.splits Node_Kind.splits)

lemma subseq_distinct: "subseq xs ys \<Longrightarrow> distinct ys \<Longrightarrow> distinct xs"
  by (auto simp: subseq_conv_nths intro: distinct_nthsI)

lemma distinct_ready_jobs:
  "distinct (concat (map node_rows nodes)) \<Longrightarrow>
     distinct (map fst (concat (map node_jobs (filter p nodes))))"
proof (induction nodes)
  case (Cons n nodes)
  let ?js = "concat (map node_jobs (filter p nodes))"
  have rest: "fst ` set ?js \<subseteq> set (concat (map node_rows nodes))"
    by (fastforce intro: node_jobs_rows)
  have one: "fst ` set (node_jobs n) \<subseteq> set (node_rows n)" by (auto intro: node_jobs_rows)
  have "set (node_rows n) \<inter> set (concat (map node_rows nodes)) = {}" using Cons.prems by simp
  with rest one have "fst ` set (node_jobs n) \<inter> fst ` set ?js = {}" by blast
  moreover have "distinct (map fst (node_jobs n))" using Cons.prems by (simp add: node_jobs_distinct)
  moreover have "distinct (map fst ?js)" using Cons by simp
  ultimately show ?case by (simp del: set_concat)
qed simp

lemma rows_unique:
  "distinct_rows spec \<Longrightarrow> m \<in> set (ps_Nodes spec) \<Longrightarrow> n \<in> set (ps_Nodes spec) \<Longrightarrow>
     i \<in> set (node_rows m) \<Longrightarrow> i \<in> set (node_rows n) \<Longrightarrow> m = n"
  unfolding distinct_rows_def by (rule distinct_concatD)

section \<open>What keeps a run in order\<close>

text \<open>The rows of another run do not matter, and neither do its dispatches.\<close>

lemma dag_ok_cong: "row_states V' rid = row_states V rid \<Longrightarrow> dag_ok spec rid V' = dag_ok spec rid V"
  by (simp add: dag_ok_def)

lemma sent_ok_cong:
  "row_states V' rid = row_states V rid \<Longrightarrow> run_sent rid sl' = run_sent rid sl \<Longrightarrow>
     sent_ok spec rid V' sl' = sent_ok spec rid V sl"
  by (simp add: sent_ok_def)

lemma row_states_cong: "(\<And>i. V' (rid, i) = V (rid, i)) \<Longrightarrow> row_states V' rid = row_states V rid"
  by (simp add: row_states_def fun_eq_iff)

text \<open>A call of \<open>Advance\<close> for the run.\<close>

lemma loop_outcome_rows:
  assumes "loop_outcome valid rv nv dvalid sent rid rc (row_states (nv (w_db w)) rid) nodes w w'"
    and "row_states (nv (w_db w')) rid i \<noteq> row_states (nv (w_db w)) rid i"
  shows "\<exists>n \<in> set nodes. nd_Id n = i \<and> node_due (row_states (nv (w_db w)) rid) n"
proof -
  have "nv (w_db w') (rid, i) \<noteq> nv (w_db w) (rid, i)"
    using assms(2) by (auto simp: row_states_def)
  with assms(1) have "row_due rid rc (row_states (nv (w_db w)) rid) nodes (rid, i) (nv (w_db w') (rid, i))"
    unfolding loop_outcome_def by blast
  then show ?thesis by (auto simp: row_due_def)
qed

lemma loop_outcome_deps:
  assumes "loop_outcome valid rv nv dvalid sent rid rc (row_states (nv (w_db w)) rid) nodes w w'"
    and "depsTerminal deps (row_states (nv (w_db w)) rid)"
  shows "depsTerminal deps (row_states (nv (w_db w')) rid)"
proof (rule depsTerminal_mono [OF assms(2)])
  fix d
  assume "row_states (nv (w_db w)) rid d \<in> {NodeStateSuccess, NodeStateSkipped}"
  then have "row_states (nv (w_db w)) rid d \<noteq> NodeStatePending" by auto
  then show "row_states (nv (w_db w')) rid d = row_states (nv (w_db w)) rid d"
    using loop_outcome_rows [OF assms(1), of d] by (auto simp: node_due_def)
qed

lemma dag_ok_advance:
  assumes "loop_outcome valid rv nv dvalid sent rid rc (row_states (nv (w_db w)) rid) (ps_Nodes spec) w w'"
    and "distinct_rows spec" and "dag_ok spec rid (nv (w_db w))"
  shows "dag_ok spec rid (nv (w_db w'))"
  unfolding dag_ok_def
proof (intro ballI impI)
  fix n
  assume n: "n \<in> set (ps_Nodes spec)"
    and np: "row_states (nv (w_db w')) rid (nd_Id n) \<noteq> NodeStatePending"
  show "depsTerminal (nd_DependsOn n) (row_states (nv (w_db w')) rid)"
  proof (cases "row_states (nv (w_db w')) rid (nd_Id n) = row_states (nv (w_db w)) rid (nd_Id n)")
    case True
    with np n assms(3) have "depsTerminal (nd_DependsOn n) (row_states (nv (w_db w)) rid)"
      by (simp add: dag_ok_def)
    with assms(1) show ?thesis by (rule loop_outcome_deps)
  next
    case False
    then obtain m where m: "m \<in> set (ps_Nodes spec)" "nd_Id m = nd_Id n"
      "node_due (row_states (nv (w_db w)) rid) m"
      using loop_outcome_rows [OF assms(1)] by blast
    have "m = n" using rows_unique [OF assms(2) m(1) n, of "nd_Id n"] m(2) by (metis nd_Id_rows)
    with m(3) have "depsTerminal (nd_DependsOn n) (row_states (nv (w_db w)) rid)"
      by (simp add: node_due_def)
    with assms(1) show ?thesis by (rule loop_outcome_deps)
  qed
qed

lemma sent_ok_advance:
  assumes out: "loop_outcome valid rv nv dvalid sent rid rc (row_states (nv (w_db w)) rid) (ps_Nodes spec) w w'"
    and d: "distinct_rows spec" and ok: "sent_ok spec rid (nv (w_db w)) (sent (w_disp w))"
  shows "sent_ok spec rid (nv (w_db w')) (sent (w_disp w'))"
proof -
  let ?st = "row_states (nv (w_db w)) rid" and ?st' = "row_states (nv (w_db w')) rid"
  from out obtain xs where xs: "sent (w_disp w') = sent (w_disp w) @ map (\<lambda>(n, j). (rid, n, j)) xs"
    "subseq xs (concat (map node_jobs (filter (node_ready ?st rc) (ps_Nodes spec))))"
    and marked: "\<forall>x \<in> set xs. \<exists>m \<in> set (ps_Nodes spec). node_ready ?st rc m \<and> x \<in> set (node_jobs m)
             \<and> ?st' (nd_Id m) \<noteq> NodeStatePending"
    unfolding loop_outcome_def sent_ready_def by blast
  have rs: "run_sent rid (sent (w_disp w')) = run_sent rid (sent (w_disp w)) @ xs"
    by (simp add: xs(1) run_sent_map)
  have keep: "?st' i \<noteq> NodeStatePending" if "?st i \<noteq> NodeStatePending" for i
    using that loop_outcome_rows [OF out, of i] by (auto simp: node_due_def)
  have old: "\<forall>x \<in> set (run_sent rid (sent (w_disp w))). \<exists>m \<in> set (ps_Nodes spec).
      x \<in> set (node_jobs m) \<and> ?st (nd_Id m) \<noteq> NodeStatePending"
    using ok by (simp add: sent_ok_def)
  have "subseq (map fst xs) (map fst (concat (map node_jobs (filter (node_ready ?st rc) (ps_Nodes spec)))))"
    using xs(2) by (rule subseq_map)
  moreover have "distinct (map fst (concat (map node_jobs (filter (node_ready ?st rc) (ps_Nodes spec)))))"
    using d unfolding distinct_rows_def by (rule distinct_ready_jobs)
  ultimately have dx: "distinct (map fst xs)" by (rule subseq_distinct)
  have "fst x \<noteq> fst y" if x: "x \<in> set (run_sent rid (sent (w_disp w)))" and y: "y \<in> set xs" for x y
  proof
    assume eq: "fst x = fst y"
    obtain m where m: "m \<in> set (ps_Nodes spec)" "x \<in> set (node_jobs m)" "?st (nd_Id m) \<noteq> NodeStatePending"
      using old x by blast
    obtain n where n: "n \<in> set (ps_Nodes spec)" "y \<in> set (node_jobs n)" "node_ready ?st rc n"
      using marked y by blast
    have "fst x \<in> set (node_rows m)" "fst x \<in> set (node_rows n)"
      using m(2) n(2) eq node_jobs_rows by (metis prod.collapse)+
    with d m(1) n(1) have "m = n" by (rule rows_unique)
    with m(3) n(3) show False by (simp add: node_ready_def node_due_def)
  qed
  then have "distinct (map fst (run_sent rid (sent (w_disp w'))))"
    using ok dx unfolding rs by (auto simp: sent_ok_def)
  moreover have "\<exists>m \<in> set (ps_Nodes spec). x \<in> set (node_jobs m) \<and> ?st' (nd_Id m) \<noteq> NodeStatePending"
    if "x \<in> set (run_sent rid (sent (w_disp w')))" for x
    using that old keep marked unfolding rs set_append by blast
  ultimately show ?thesis by (simp add: sent_ok_def)
qed

text \<open>A call for another run.\<close>

lemma loop_outcome_other:
  assumes "loop_outcome valid rv nv dvalid sent rid' rc st nodes w w'" and "rid' \<noteq> rid"
  shows "row_states (nv (w_db w')) rid = row_states (nv (w_db w)) rid"
    and "run_sent rid (sent (w_disp w')) = run_sent rid (sent (w_disp w))"
proof -
  have "nv (w_db w') (rid, i) = nv (w_db w) (rid, i)" for i
    using assms unfolding loop_outcome_def row_due_def by blast
  then show "row_states (nv (w_db w')) rid = row_states (nv (w_db w)) rid" by (rule row_states_cong)
  show "run_sent rid (sent (w_disp w')) = run_sent rid (sent (w_disp w))"
    using assms by (auto simp: loop_outcome_def sent_ready_def run_sent_map)
qed

text \<open>The completion of a job that was dispatched and has not completed.\<close>

lemma row_states_completed:
  "row_states (completed_view r nid success V) rid i =
     (if r = rid \<and> i = nid then if success then NodeStateSuccess else NodeStateFailed
      else row_states V rid i)"
  by (simp add: row_states_def completed_view_def)

lemma dag_ok_completed:
  assumes "distinct_rows spec" and "dag_ok spec rid V" and "sent_ok spec rid V sl"
    and "(nid, j) \<in> set (run_sent rid sl)"
    and "row_states V rid nid \<in> {NodeStatePending, NodeStateRunning}"
  shows "dag_ok spec rid (completed_view rid nid success V)"
  unfolding dag_ok_def
proof (intro ballI impI)
  fix n
  assume n: "n \<in> set (ps_Nodes spec)"
    and np: "row_states (completed_view rid nid success V) rid (nd_Id n) \<noteq> NodeStatePending"
  have "row_states V rid (nd_Id n) \<noteq> NodeStatePending"
  proof (cases "nd_Id n = nid")
    case True
    from assms(3,4) obtain m where m: "m \<in> set (ps_Nodes spec)" "(nid, j) \<in> set (node_jobs m)"
      "row_states V rid (nd_Id m) \<noteq> NodeStatePending" by (auto simp: sent_ok_def)
    have "n = m"
      using rows_unique [OF assms(1) n m(1)] node_jobs_rows [OF m(2)] True nd_Id_rows [of n] by simp
    with m(3) show ?thesis by simp
  qed (use np in \<open>simp add: row_states_completed\<close>)
  with n assms(2) have "depsTerminal (nd_DependsOn n) (row_states V rid)" by (simp add: dag_ok_def)
  then show "depsTerminal (nd_DependsOn n) (row_states (completed_view rid nid success V) rid)"
    by (rule depsTerminal_mono) (use assms(5) in \<open>auto simp: row_states_completed\<close>)
qed

lemma sent_ok_completed:
  "sent_ok spec rid V sl \<Longrightarrow> sent_ok spec rid (completed_view r nid success V) sl"
  unfolding sent_ok_def row_states_completed
  by (metis (full_types) node_state_neqs(4) node_state_neqs(6))

lemma row_states_set_rows:
  "r \<noteq> rid \<Longrightarrow> row_states (set_rows r ids st V) rid = row_states V rid"
  by (rule row_states_cong) (simp add: set_rows_def)

lemma row_states_completed_other:
  "r \<noteq> rid \<Longrightarrow> row_states (completed_view r nid success V) rid = row_states V rid"
  by (rule row_states_cong) (simp add: completed_view_def)

section \<open>The steps\<close>

text \<open>
  The calls around the run \<open>rid\<close>. A job completes at most once: its row is not terminal yet. A job
  inside a stage completes under its own ID.
\<close>

inductive pipeline_step ::
  "sql_env \<Rightarrow> net_env \<Rightarrow> 'h Bus \<Rightarrow> string \<Rightarrow> PipelineSpec \<Rightarrow> RunContext \<Rightarrow>
   (db_value, Registry, 'h) world \<Rightarrow> (db_value, Registry, 'h) world \<Rightarrow> bool"
  for env net b rid spec rc where
  advance:
    "pipeline_step env net b rid spec rc w (Advance (master_scheduler env net b) rid spec rc w)"
| advance_other:
    "rid' \<noteq> rid \<Longrightarrow>
     pipeline_step env net b rid spec rc w (Advance (master_scheduler env net b) rid' spec' rc' w)"
| completed:
    "(nid, j) \<in> set (run_sent rid (registry_sent (w_disp w))) \<Longrightarrow>
     row_states (nodes_of (w_db w)) rid nid \<in> {NodeStatePending, NodeStateRunning} \<Longrightarrow>
     pipeline_step env net b rid spec rc w (snd (NodeCompleted (master_manager env net b) rid nid ok w))"
| completed_other:
    "rid' \<noteq> rid \<Longrightarrow>
     pipeline_step env net b rid spec rc w (snd (NodeCompleted (master_manager env net b) rid' nid ok w))"
| start_other:
    "pipeline_step env net b rid spec rc w
       (snd (Start (master_manager env net b) rid' now spec' project rc' w))"
| set_run_state:
    "pipeline_step env net b rid spec rc w
       (w\<lparr>w_db := snd (db_UpdateRunState (store_DB env) rid' st (w_db w))\<rparr>)"
| agent_connects:
    "pipeline_step env net b rid spec rc w (w\<lparr>w_disp := Register_connect reg stream (w_disp w)\<rparr>)"
| agent_leaves:
    "pipeline_step env net b rid spec rc w (w\<lparr>w_disp := Register_disconnect reg (w_disp w)\<rparr>)"
| job_done:
    "pipeline_step env net b rid spec rc w (w\<lparr>w_disp := JobDone agentID (w_disp w)\<rparr>)"

inductive pipeline_reach ::
  "sql_env \<Rightarrow> net_env \<Rightarrow> 'h Bus \<Rightarrow> string \<Rightarrow> PipelineSpec \<Rightarrow> RunContext \<Rightarrow>
   (db_value, Registry, 'h) world \<Rightarrow> bool"
  for env net b rid spec rc where
  started:
    "store_valid (w_db w) \<Longrightarrow> registry_ok (w_disp w) \<Longrightarrow>
     run_sent rid (registry_sent (w_disp w)) = [] \<Longrightarrow>
     Start (master_manager env net b) rid now spec project rc w = (Inr i, w') \<Longrightarrow>
     pipeline_reach env net b rid spec rc w'"
| step:
    "pipeline_reach env net b rid spec rc w \<Longrightarrow> pipeline_step env net b rid spec rc w w' \<Longrightarrow>
     pipeline_reach env net b rid spec rc w'"

definition run_known :: "string \<Rightarrow> (db_value, Registry, 'h) world \<Rightarrow> bool" where
  "run_known rid w \<longleftrightarrow> store_valid (w_db w) \<and> registry_ok (w_disp w) \<and> runs_of (w_db w) rid \<noteq> None"

definition run_inv ::
  "PipelineSpec \<Rightarrow> string \<Rightarrow> (db_value, Registry, 'h) world \<Rightarrow> bool" where
  "run_inv spec rid w \<longleftrightarrow>
     run_known rid w \<and> dag_ok spec rid (nodes_of (w_db w))
     \<and> sent_ok spec rid (nodes_of (w_db w)) (registry_sent (w_disp w))"

text \<open>A step that leaves the rows of the run and its dispatches alone.\<close>

definition run_frame ::
  "string \<Rightarrow> (db_value, Registry, 'h) world \<Rightarrow> (db_value, Registry, 'h) world \<Rightarrow> bool" where
  "run_frame rid w w' \<longleftrightarrow>
     run_known rid w' \<and> row_states (nodes_of (w_db w')) rid = row_states (nodes_of (w_db w)) rid
     \<and> run_sent rid (registry_sent (w_disp w')) = run_sent rid (registry_sent (w_disp w))"

lemma run_inv_frame: "run_inv spec rid w \<Longrightarrow> run_frame rid w w' \<Longrightarrow> run_inv spec rid w'"
  unfolding run_inv_def run_frame_def using dag_ok_cong sent_ok_cong by blast

lemma registry_sent_simps [simp]:
  "registry_sent (Register_connect reg stream r) = registry_sent r"
  "registry_sent (Register_disconnect reg r) = registry_sent r"
  "registry_sent (JobDone i r) = registry_sent r"
  by (simp_all add: registry_sent_def Register_connect_def Register_disconnect_def JobDone_def
      split: option.splits)

lemma frame_advance_other:
  assumes "rid' \<noteq> rid" and "run_known rid w"
  shows "run_frame rid w (Advance (master_scheduler env net b) rid' spec' rc w)"
proof -
  from assms(2) have v: "store_valid (w_db w)" "registry_ok (w_disp w)" by (simp_all add: run_known_def)
  note out = master.Advance_outcome [OF v, of rid' rc spec' env net b]
  show ?thesis
    using assms(2) out loop_outcome_other [OF out assms(1)]
    by (simp add: run_frame_def run_known_def loop_outcome_def)
qed

lemma completed_outcome:
  assumes "store_valid (w_db w)" and "NodeCompleted (master_manager env net b) rid' nid ok w = (q, w')"
  shows "store_valid (w_db w') \<and> w_disp w' = w_disp w
    \<and> nodes_of (w_db w') \<in> {nodes_of (w_db w), completed_view rid' nid ok (nodes_of (w_db w))}
    \<and> (runs_of (w_db w') rid \<noteq> None \<longleftrightarrow> runs_of (w_db w) rid \<noteq> None)"
proof (cases q)
  case (Inl e)
  with mgr.NodeCompleted_err [OF assms(1) assms(2) [unfolded Inl]] show ?thesis by simp
next
  case (Inr u)
  with mgr.NodeCompleted_ok [OF assms(1) assms(2) [unfolded Inr]] show ?thesis by (simp add: completed_runs_def)
qed

lemma frame_completed_other:
  assumes "rid' \<noteq> rid" and "run_known rid w"
  shows "run_frame rid w (snd (NodeCompleted (master_manager env net b) rid' nid ok w))"
proof -
  obtain q w' where c: "NodeCompleted (master_manager env net b) rid' nid ok w = (q, w')" by (metis surj_pair)
  from assms(2) have v: "store_valid (w_db w)" by (simp add: run_known_def)
  show ?thesis
    using assms(2) completed_outcome [OF v c, of rid] row_states_completed_other [OF assms(1), of nid ok "nodes_of (w_db w)"]
    by (auto simp: c run_frame_def run_known_def)
qed

lemma frame_start:
  assumes "run_known rid w"
  shows "run_frame rid w (snd (Start (master_manager env net b) rid' now spec' project rc w))"
proof -
  obtain q w' where c: "Start (master_manager env net b) rid' now spec' project rc w = (q, w')" by (metis surj_pair)
  from assms have v: "store_valid (w_db w)" and r: "runs_of (w_db w) rid \<noteq> None"
    by (simp_all add: run_known_def)
  have "store_valid (w_db w') \<and> w_disp w' = w_disp w \<and> runs_of (w_db w') rid = runs_of (w_db w) rid
      \<and> row_states (nodes_of (w_db w')) rid = row_states (nodes_of (w_db w)) rid"
  proof (cases q)
    case (Inl e)
    with mgr.Start_err [OF v c [unfolded Inl]] r show ?thesis
      by (cases "rid' = rid") (auto simp: row_states_set_rows)
  next
    case (Inr i)
    with mgr.Start_ok [OF v c [unfolded Inr]] r show ?thesis
      by (cases "rid' = rid") (auto simp: row_states_set_rows)
  qed
  then show ?thesis using assms by (auto simp: c run_frame_def run_known_def)
qed

lemma frame_set_state:
  assumes "run_known rid w"
  shows "run_frame rid w (w\<lparr>w_db := snd (db_UpdateRunState (store_DB env) rid' st (w_db w))\<rparr>)"
proof -
  obtain q db where c: "db_UpdateRunState (store_DB env) rid' st (w_db w) = (q, db)" by (metis surj_pair)
  from assms have v: "store_valid (w_db w)" by (simp add: run_known_def)
  have "store_valid db \<and> nodes_of db = nodes_of (w_db w)
      \<and> (runs_of db rid \<noteq> None \<longleftrightarrow> runs_of (w_db w) rid \<noteq> None)"
  proof (cases q)
    case (Inl e)
    with store.update_run_err [OF v c [unfolded Inl]] show ?thesis by (simp add: reads_only_def)
  next
    case (Inr u)
    with store.update_run_ok [OF v c [unfolded Inr]] show ?thesis by simp
  qed
  then show ?thesis using assms by (simp add: c run_frame_def run_known_def)
qed

lemma frame_registry:
  assumes "run_known rid w" and "registry_ok d" and "registry_sent d = registry_sent (w_disp w)"
  shows "run_frame rid w (w\<lparr>w_disp := d\<rparr>)"
  using assms by (simp add: run_frame_def run_known_def)

text \<open>So a step is a call of \<open>Advance\<close> for the run, the completion of one of its jobs, or of no concern to it.\<close>

lemma pipeline_step_cases [consumes 2, case_names advance completed frame]:
  assumes "pipeline_step env net b rid spec rc w w'" and known: "run_known rid w"
  obtains "loop_outcome store_valid runs_of nodes_of registry_ok registry_sent rid rc
        (row_states (nodes_of (w_db w)) rid) (ps_Nodes spec) w w'"
  | nid j ok where "(nid, j) \<in> set (run_sent rid (registry_sent (w_disp w)))"
      and "row_states (nodes_of (w_db w)) rid nid \<in> {NodeStatePending, NodeStateRunning}"
      and "run_known rid w'" and "w_disp w' = w_disp w"
      and "nodes_of (w_db w') \<in> {nodes_of (w_db w), completed_view rid nid ok (nodes_of (w_db w))}"
  | "run_frame rid w w'"
  using assms(1)
proof cases
  case advance
  have "store_valid (w_db w)" "registry_ok (w_disp w)" using known by (simp_all add: run_known_def)
  then show ?thesis unfolding advance by (intro that(1) [unfolded advance] master.Advance_outcome)
next
  case (completed nid j ok)
  obtain q w2 where c: "NodeCompleted (master_manager env net b) rid nid ok w = (q, w2)" by (metis surj_pair)
  then have "w' = w2" using completed(1) by simp
  moreover have "store_valid (w_db w)" using known by (simp add: run_known_def)
  ultimately show ?thesis
    using known completed_outcome [OF _ c, of rid] by (intro that(2) [OF completed(2,3)]) (auto simp: run_known_def)
next
  case agent_connects
  then show ?thesis using known
    by (auto intro!: that(3) frame_registry simp: run_known_def Register_connect_ok)
next
  case agent_leaves
  then show ?thesis using known
    by (auto intro!: that(3) frame_registry simp: run_known_def Register_disconnect_ok)
next
  case job_done
  then show ?thesis using known by (auto intro!: that(3) frame_registry simp: run_known_def JobDone_ok)
next
  case advance_other
  then show ?thesis using known by (intro that(3)) (simp add: frame_advance_other)
next
  case completed_other
  then show ?thesis using known by (intro that(3)) (simp add: frame_completed_other)
next
  case start_other
  then show ?thesis using known by (intro that(3)) (simp add: frame_start)
next
  case set_run_state
  then show ?thesis using known by (intro that(3)) (simp add: frame_set_state)
qed

lemma run_inv_step:
  assumes "pipeline_step env net b rid spec rc w w'" and d: "distinct_rows spec" and w: "run_inv spec rid w"
  shows "run_inv spec rid w'"
proof -
  have known: "run_known rid w" using w by (simp add: run_inv_def)
  from assms(1) known show ?thesis
  proof (cases rule: pipeline_step_cases)
    case advance
    with dag_ok_advance [OF advance d] sent_ok_advance [OF advance d] w show ?thesis
      by (simp add: run_inv_def run_known_def loop_outcome_def)
  next
    case (completed nid j ok)
    with w dag_ok_completed [OF d _ _ completed(1,2), of ok] sent_ok_completed [of spec rid _ _ rid nid ok] show ?thesis
      by (auto simp: run_inv_def)
  next
    case frame
    with w show ?thesis by (rule run_inv_frame)
  qed
qed

lemma row_states_seeded:
  "row_states (set_rows rid ids st V) rid i = (if i \<in> ids then st else row_states V rid i)"
  by (simp add: row_states_def set_rows_def)

lemma pipeline_reach_inv:
  assumes "pipeline_reach env net b rid spec rc w" and "distinct_rows spec"
  shows "run_inv spec rid w"
  using assms(1)
proof induction
  case (started w now project i w')
  note ok = mgr.Start_ok [OF started.hyps(1,4)]
  have "nd_Id n \<in> seed_ids spec" if "n \<in> set (ps_Nodes spec)" for n
    using that nd_Id_rows unfolding seed_ids_def by blast
  then show ?case
    using started ok by (simp add: run_inv_def run_known_def dag_ok_def sent_ok_def row_states_seeded)
next
  case (step w w')
  from step.hyps(2) assms(2) step.IH show ?case by (rule run_inv_step)
qed

section \<open>Without distinct rows\<close>

text \<open>
  The node of a job that was sent had its dependencies done, and they stay done: for that the IDs of the
  spec need not be distinct.
\<close>

definition sent_done ::
  "PipelineSpec \<Rightarrow> string \<Rightarrow> (string \<times> string \<Rightarrow> (string \<times> NodeState) option) \<Rightarrow>
   (string \<times> string \<times> JobSpec option) list \<Rightarrow> bool" where
  "sent_done spec rid V sl \<longleftrightarrow>
     (\<forall>x \<in> set (run_sent rid sl). \<exists>n \<in> set (ps_Nodes spec). x \<in> set (node_jobs n)
        \<and> row_states V rid (nd_Id n) \<noteq> NodeStatePending \<and> depsTerminal (nd_DependsOn n) (row_states V rid))"

lemma sent_done_mono:
  assumes "sent_done spec rid V sl"
    and "\<And>i. row_states V rid i \<noteq> NodeStatePending \<Longrightarrow> row_states V' rid i \<noteq> NodeStatePending"
    and "\<And>deps. depsTerminal deps (row_states V rid) \<Longrightarrow> depsTerminal deps (row_states V' rid)"
  shows "sent_done spec rid V' sl"
  using assms unfolding sent_done_def by meson

lemma sent_done_advance:
  assumes out: "loop_outcome valid rv nv dvalid sent rid rc (row_states (nv (w_db w)) rid) (ps_Nodes spec) w w'"
    and ok: "sent_done spec rid (nv (w_db w)) (sent (w_disp w))"
  shows "sent_done spec rid (nv (w_db w')) (sent (w_disp w'))"
proof -
  let ?st = "row_states (nv (w_db w)) rid" and ?st' = "row_states (nv (w_db w')) rid"
  from out obtain xs where xs: "sent (w_disp w') = sent (w_disp w) @ map (Pair rid) xs"
    and marked: "\<forall>x \<in> set xs. \<exists>m \<in> set (ps_Nodes spec). node_ready ?st rc m \<and> x \<in> set (node_jobs m)
             \<and> ?st' (nd_Id m) \<noteq> NodeStatePending"
    unfolding loop_outcome_def sent_ready_def by auto
  have "sent_done spec rid (nv (w_db w')) (sent (w_disp w))"
  proof (rule sent_done_mono [OF ok])
    show "?st' i \<noteq> NodeStatePending" if "?st i \<noteq> NodeStatePending" for i
      using that loop_outcome_rows [OF out, of i] by (auto simp: node_due_def)
  qed (rule loop_outcome_deps [OF out])
  moreover have "depsTerminal (nd_DependsOn m) ?st'" if "node_ready ?st rc m" for m
    using that loop_outcome_deps [OF out] by (auto simp: node_ready_def node_due_def)
  ultimately show ?thesis
    using marked unfolding sent_done_def xs run_sent_append run_sent_map by fastforce
qed

lemma sent_done_completed:
  assumes "sent_done spec rid V sl" and "row_states V rid nid \<in> {NodeStatePending, NodeStateRunning}"
  shows "sent_done spec rid (completed_view rid nid success V) sl"
  by (rule sent_done_mono [OF assms(1)])
    (use assms(2) in \<open>auto simp: row_states_completed depsTerminal_iff\<close>)

lemma pipeline_reach_sent_done:
  assumes "pipeline_reach env net b rid spec rc w"
  shows "run_known rid w \<and> sent_done spec rid (nodes_of (w_db w)) (registry_sent (w_disp w))"
  using assms
proof induction
  case (started w now project i w')
  then show ?case using mgr.Start_ok [OF started.hyps(1,4)] by (simp add: run_known_def sent_done_def)
next
  case (step w w')
  then have known: "run_known rid w" and ok: "sent_done spec rid (nodes_of (w_db w)) (registry_sent (w_disp w))"
    by simp_all
  from step.hyps(2) known show ?case
  proof (cases rule: pipeline_step_cases)
    case advance
    with sent_done_advance [OF advance ok] known show ?thesis by (simp add: run_known_def loop_outcome_def)
  next
    case (completed nid j ok')
    with sent_done_completed [OF ok completed(2), of ok'] ok show ?thesis by auto
  next
    case frame
    with ok show ?thesis by (simp add: run_frame_def sent_done_def)
  qed
qed

end
