(* ===== verification/Webhook.thy ===== *)
theory Webhook
  imports Conditions
begin

text \<open>
  \<open>internal/webhook/handler.go\<close>: the handler of GitHub webhooks. HMAC-SHA256 (\<open>hmac key body\<close>) and
  the JSON decoder of the push payload are parameters. A response is the status code; the trigger
  is a function on a state \<open>'k\<close>.
\<close>

record TriggerEvent =
  te_Project :: string
  te_Branch :: string
  te_Tag :: string
  te_Event :: string
  te_SHA :: string

record githubPushPayload =
  gp_Ref :: string
  gp_After :: string
  gp_FullName :: string

text \<open>A request: its method, the bytes of its body or the error of reading them, and two headers.\<close>

record http_request =
  rq_Method :: string
  rq_Body :: "string result"
  rq_Signature :: string
  rq_GitHubEvent :: string

record 'k webhook_Handler =
  wh_secret :: string
  wh_trigger :: "TriggerEvent \<Rightarrow> 'k \<Rightarrow> 'k"

definition webhook_New :: "string \<Rightarrow> (TriggerEvent \<Rightarrow> 'k \<Rightarrow> 'k) \<Rightarrow> 'k webhook_Handler" where
  "webhook_New secret trigger = \<lparr>wh_secret = secret, wh_trigger = trigger\<rparr>"

definition validSignature ::
  "(string \<Rightarrow> string \<Rightarrow> string) \<Rightarrow> 'k webhook_Handler \<Rightarrow> string \<Rightarrow> string \<Rightarrow> bool" where
  "validSignature hmac h body sig =
     (if \<not> HasPrefix sig ''sha256='' then False
      else case hex_DecodeString (TrimPrefix sig ''sha256='') of
        None \<Rightarrow> False
      | Some got \<Rightarrow> got = hmac (wh_secret h) body)"

definition parseEvent ::
  "(string \<Rightarrow> githubPushPayload result) \<Rightarrow> string \<Rightarrow> string \<Rightarrow> TriggerEvent result" where
  "parseEvent json eventType body =
     (if eventType = ''push'' then
        (case json body of
           Inl e \<Rightarrow> Inl (Wrapf ''parse push'' [] e)
         | Inr p \<Rightarrow>
             (let ev = \<lparr>te_Project = gp_FullName p, te_Branch = [], te_Tag = [], te_Event = ''push'',
                        te_SHA = gp_After p\<rparr>;
                  ref = gp_Ref p in
              Inr (if HasPrefix ref ''refs/heads/''
                   then ev\<lparr>te_Branch := TrimPrefix ref ''refs/heads/''\<rparr>
                   else if HasPrefix ref ''refs/tags/''
                   then ev\<lparr>te_Tag := TrimPrefix ref ''refs/tags/''\<rparr>
                   else ev)))
      else if eventType = ''ping'' then Inl (Errorf ''ping: not a trigger'' [])
      else Inl (Errorf ''unsupported event type: %s'' [eventType]))"

text \<open>\<open>io.LimitReader\<close>: what is beyond 10 MiB is not read.\<close>

definition body_limit :: nat where "body_limit = 10 * 2 ^ 20"

definition webhook_ServeHTTP ::
  "(string \<Rightarrow> string \<Rightarrow> string) \<Rightarrow> (string \<Rightarrow> githubPushPayload result) \<Rightarrow> 'k webhook_Handler \<Rightarrow>
   http_request \<Rightarrow> 'k \<Rightarrow> nat \<times> 'k" where
  "webhook_ServeHTTP hmac json h r k =
     (if rq_Method r \<noteq> ''POST'' then (405, k)
      else case rq_Body r of
        Inl _ \<Rightarrow> (400, k)
      | Inr bytes \<Rightarrow>
          (let body = take body_limit bytes in
           if length (wh_secret h) > 0 \<and> \<not> validSignature hmac h body (rq_Signature r) then (401, k)
           else case parseEvent json (rq_GitHubEvent r) body of
             Inl _ \<Rightarrow> (204, k)
           | Inr ev \<Rightarrow> (204, wh_trigger h ev k)))"

section \<open>Authenticity\<close>

text \<open>A valid signature, spelled out.\<close>

definition signed_body :: "(string \<Rightarrow> string \<Rightarrow> string) \<Rightarrow> string \<Rightarrow> http_request \<Rightarrow> string \<Rightarrow> bool" where
  "signed_body hmac secret r bytes \<longleftrightarrow>
     (\<exists>digits. rq_Signature r = ''sha256='' @ digits
        \<and> hex_DecodeString digits = Some (hmac secret (take body_limit bytes)))"

lemma validSignature_signed:
  "validSignature hmac h (take body_limit bytes) (rq_Signature r) \<longleftrightarrow> signed_body hmac (wh_secret h) r bytes"
proof (cases "HasPrefix (rq_Signature r) ''sha256=''")
  case True
  then obtain digits where sig: "rq_Signature r = ''sha256='' @ digits" unfolding HasPrefix_iff by blast
  have "TrimPrefix (rq_Signature r) ''sha256='' = digits" unfolding sig by (rule TrimPrefix_append)
  with True show ?thesis by (auto simp: validSignature_def signed_body_def sig split: option.split)
next
  case False
  then show ?thesis by (auto simp: validSignature_def signed_body_def HasPrefix_iff)
qed

text \<open>
  Property C12: with a secret, the handler acts only on authentic bodies. The status is 405 exactly for
  another method than POST, 400 exactly for a POST with a body that cannot be read, 401 exactly for a POST
  whose signature header is not \<open>sha256=\<close> followed by hex digits that decode to the HMAC of the body (its first
  10 MiB) under the secret, and 204 exactly for a POST with that signature, whether or not an event is
  triggered. The trigger is run only for such a signed POST of a push event, with the event of its body;
  every other request leaves the state as it is.
\<close>

theorem webhook_authentic:
  assumes "webhook_ServeHTTP hmac json h r k = (code, k')" and "wh_secret h \<noteq> []"
  shows "(code = 405 \<longleftrightarrow> rq_Method r \<noteq> ''POST'')
   \<and> (code = 400 \<longleftrightarrow> rq_Method r = ''POST'' \<and> (\<exists>e. rq_Body r = Inl e))
   \<and> (code = 401 \<longleftrightarrow> rq_Method r = ''POST'' \<and> (\<exists>bytes. rq_Body r = Inr bytes \<and> \<not> signed_body hmac (wh_secret h) r bytes))
   \<and> (code = 204 \<longleftrightarrow> rq_Method r = ''POST'' \<and> (\<exists>bytes. rq_Body r = Inr bytes \<and> signed_body hmac (wh_secret h) r bytes))
   \<and> (k' \<noteq> k \<longrightarrow> rq_Method r = ''POST'' \<and> rq_GitHubEvent r = ''push''
        \<and> (\<exists>bytes ev. rq_Body r = Inr bytes \<and> signed_body hmac (wh_secret h) r bytes
             \<and> parseEvent json ''push'' (take body_limit bytes) = Inr ev \<and> k' = wh_trigger h ev k))"
proof (cases "rq_Body r")
  case (Inl e)
  then show ?thesis using assms by (auto simp: webhook_ServeHTTP_def split: if_splits)
next
  case (Inr bytes)
  let ?body = "take body_limit bytes"
  show ?thesis
  proof (cases "rq_Method r = ''POST'' \<and> signed_body hmac (wh_secret h) r bytes")
    case False
    then show ?thesis using assms Inr
      by (auto simp: webhook_ServeHTTP_def Let_def validSignature_signed split: if_splits)
  next
    case True
    show ?thesis
    proof (cases "parseEvent json (rq_GitHubEvent r) ?body")
      case (Inl e)
      then show ?thesis using assms Inr True by (simp add: webhook_ServeHTTP_def Let_def validSignature_signed)
    next
      case ev: (Inr ev)
      then have p: "rq_GitHubEvent r = ''push''" by (simp add: parseEvent_def split: if_splits)
      have "code = 204" "k' = wh_trigger h ev k"
        using assms Inr True ev by (simp_all add: webhook_ServeHTTP_def Let_def validSignature_signed)
      then show ?thesis using Inr True ev p by simp
    qed
  qed
qed

text \<open>
  A request that GitHub signs is accepted. For any secret, a POST whose signature header is
  \<open>sha256=\<close> followed by the hex encoding of the HMAC of its body (of at most 10 MiB), with a push
  payload, runs the trigger once with the event of that payload: the branch for \<open>refs/heads/\<close>, the
  tag for \<open>refs/tags/\<close>, never both, and neither for any other ref.
\<close>

lemma webhook_accepts_signed:
  assumes "rq_Method r = ''POST''" and "rq_Body r = Inr bytes" and "length bytes \<le> body_limit"
    and "rq_Signature r = ''sha256='' @ hex_EncodeToString (hmac (wh_secret h) bytes)"
    and "rq_GitHubEvent r = ''push''" and "json bytes = Inr p"
  shows "\<exists>ev. webhook_ServeHTTP hmac json h r k = (204, wh_trigger h ev k)
    \<and> te_Project ev = gp_FullName p \<and> te_SHA ev = gp_After p \<and> te_Event ev = ''push''
    \<and> (\<forall>b. gp_Ref p = ''refs/heads/'' @ b \<longrightarrow> te_Branch ev = b \<and> te_Tag ev = [])
    \<and> (\<forall>t. gp_Ref p = ''refs/tags/'' @ t \<longrightarrow> te_Tag ev = t \<and> te_Branch ev = [])
    \<and> (\<not> HasPrefix (gp_Ref p) ''refs/heads/'' \<and> \<not> HasPrefix (gp_Ref p) ''refs/tags/'' \<longrightarrow>
        te_Branch ev = [] \<and> te_Tag ev = [])"
proof -
  have body: "take body_limit bytes = bytes" using assms(3) by simp
  have "HasPrefix (rq_Signature r) ''sha256=''" unfolding assms(4) HasPrefix_iff by blast
  moreover have "TrimPrefix (rq_Signature r) ''sha256='' = hex_EncodeToString (hmac (wh_secret h) bytes)"
    unfolding assms(4) by (rule TrimPrefix_append)
  ultimately have v: "validSignature hmac h bytes (rq_Signature r)"
    by (simp add: validSignature_def hex_roundtrip)
  obtain ev where ev: "parseEvent json ''push'' bytes = Inr ev" by (simp add: parseEvent_def assms(6) Let_def)
  then have "webhook_ServeHTTP hmac json h r k = (204, wh_trigger h ev k)"
    using assms body v by (simp add: webhook_ServeHTTP_def Let_def)
  moreover have heads: "\<not> HasPrefix (''refs/tags/'' @ t) ''refs/heads/''" for t by (simp add: HasPrefix_def)
  moreover have "HasPrefix (''refs/heads/'' @ b) ''refs/heads/''" "HasPrefix (''refs/tags/'' @ b) ''refs/tags/''"
    "TrimPrefix (''refs/heads/'' @ b) ''refs/heads/'' = b" "TrimPrefix (''refs/tags/'' @ b) ''refs/tags/'' = b" for b
    by (simp_all add: HasPrefix_def TrimPrefix_def)
  ultimately show ?thesis using ev assms(6)
    by (intro exI [of _ ev] conjI) (auto simp: parseEvent_def Let_def split: if_splits)
qed

text \<open>A stand-in for the two parameters, on which the hypotheses hold.\<close>

definition toy_hmac :: "string \<Rightarrow> string \<Rightarrow> string" where "toy_hmac key body = key @ body"

definition toy_json :: "string \<Rightarrow> githubPushPayload result" where
  "toy_json body = Inr \<lparr>gp_Ref = ''refs/heads/main'', gp_After = ''c0ffee'', gp_FullName = body\<rparr>"

definition toy_handler :: "TriggerEvent list webhook_Handler" where
  "toy_handler = webhook_New ''k'' (\<lambda>ev evs. evs @ [ev])"

definition toy_request :: http_request where
  "toy_request =
     \<lparr>rq_Method = ''POST'', rq_Body = Inr ''b'',
      rq_Signature = ''sha256='' @ hex_EncodeToString (toy_hmac ''k'' ''b''), rq_GitHubEvent = ''push''\<rparr>"

lemma webhook_accepts_signed_witness:
  "\<exists>ev. webhook_ServeHTTP toy_hmac toy_json toy_handler toy_request [] = (204, [ev])
     \<and> te_Branch ev = ''main'' \<and> te_Tag ev = []"
proof -
  have "rq_Method toy_request = ''POST''" "rq_Body toy_request = Inr ''b''" "length ''b'' \<le> body_limit"
    "rq_Signature toy_request = ''sha256='' @ hex_EncodeToString (toy_hmac (wh_secret toy_handler) ''b'')"
    "rq_GitHubEvent toy_request = ''push''"
    "toy_json ''b'' = Inr \<lparr>gp_Ref = ''refs/heads/main'', gp_After = ''c0ffee'', gp_FullName = ''b''\<rparr>"
    by (simp_all add: toy_request_def toy_handler_def webhook_New_def body_limit_def toy_json_def)
  from webhook_accepts_signed [where hmac = toy_hmac and json = toy_json and k = "[]", OF this] show ?thesis
    by (auto simp: toy_handler_def webhook_New_def)
qed

theorem webhook_authentic_witness:
  "fst (webhook_ServeHTTP toy_hmac toy_json toy_handler (toy_request\<lparr>rq_Signature := ''sha256=00''\<rparr>) []) = 401
   \<and> snd (webhook_ServeHTTP toy_hmac toy_json toy_handler (toy_request\<lparr>rq_Signature := ''sha256=00''\<rparr>) []) = []"
proof -
  let ?r = "toy_request\<lparr>rq_Signature := ''sha256=00''\<rparr>"
  let ?x = "webhook_ServeHTTP toy_hmac toy_json toy_handler ?r []"
  have "take body_limit ''b'' = ''b''" by (simp add: body_limit_def)
  moreover have "hex_DecodeString ''00'' = Some [CHR 0x00]" by code_simp
  ultimately have "\<not> signed_body toy_hmac (wh_secret toy_handler) ?r ''b''"
    by (simp add: signed_body_def toy_handler_def webhook_New_def toy_hmac_def)
  moreover have "rq_Method ?r = ''POST''" "rq_Body ?r = Inr ''b''" by (simp_all add: toy_request_def)
  moreover have "wh_secret toy_handler \<noteq> []" by (simp add: toy_handler_def webhook_New_def)
  ultimately show ?thesis using webhook_authentic [OF prod.collapse [symmetric], of toy_handler toy_hmac toy_json ?r "[]"]
    by auto
qed

end
