(* ===== verification/Master_System.thy ===== *)
theory Master_System
  imports Api_Server Pipeline_Safety Webhook
begin

text \<open>
  The master as \<open>cmd/master/main.go\<close> wires it: the states that it can reach by the calls that its
  servers make. \<open>Start\<close> is reached through \<open>SubmitPipeline\<close> and the webhook, \<open>Advance\<close> only
  as the goroutine of \<open>Start\<close>, \<open>JobDone\<close> only through \<open>SendResult\<close>, and no server calls
  \<open>NodeCompleted\<close>. What follows about runs that never end and nodes that never start holds of this
  system, not of the package \<open>pipeline\<close> alone.
\<close>

section \<open>The steps of the servers\<close>

text \<open>
  The handler that \<open>run\<close> gives to the webhook: it starts a run of a spec without nodes, under the
  project and the context of the trigger; an error is logged.
\<close>

definition webhook_trigger ::
  "('s, 'd, 'h) Manager \<Rightarrow> string \<Rightarrow> time \<Rightarrow> TriggerEvent \<Rightarrow> ('s, 'd, 'h) world \<Rightarrow> ('s, 'd, 'h) world"
where
  "webhook_trigger m runID now e w =
     (let rc = \<lparr>rc_Branch = te_Branch e, rc_Tag = te_Tag e, rc_Event = te_Event e\<rparr> in
      snd (Start m runID now \<lparr>ps_Workflow = None, ps_Nodes = []\<rparr> (te_Project e) rc w))"

text \<open>
  A step that only reads may still use up statements. The state of a log stream is a number here, which
  is enough to tell its sends apart. In \<open>master_reach\<close>, \<open>hist\<close> is the list of the goroutines started so
  far, with the specs of their runs.
\<close>

inductive master_step ::
  "sql_env \<Rightarrow> net_env \<Rightarrow> 'h Bus \<Rightarrow> (db_value, Registry, 'h) world \<Rightarrow> (db_value, Registry, 'h) world \<Rightarrow> bool"
  for env net b where
  submit:
    "master_step env net b w (snd (SubmitPipeline (master_manager env net b) runID now spec w))"
| webhook:
    "master_step env net b w
       (snd (webhook_ServeHTTP hmac json
          (webhook_New secret (webhook_trigger (master_manager env net b) runID now)) r w))"
| goroutine:
    "w_tasks w = ts1 @ t # ts2 \<Longrightarrow>
     master_step env net b w (run_task (master_manager env net b) t (w\<lparr>w_tasks := ts1 @ ts2\<rparr>))"
| cancel_run:
    "master_step env net b w (w\<lparr>w_db := snd (CancelRun (store_DB env) rid (w_db w))\<rparr>)"
| get_run:
    "master_step env net b w (w\<lparr>w_db := snd (GetRun (store_DB env) rid (w_db w))\<rparr>)"
| list_runs:
    "master_step env net b w (w\<lparr>w_db := snd (ListRuns (store_DB env) req (w_db w))\<rparr>)"
| stream_logs:
    "StreamLogs_tick (store_DB env) send rid seen (w_db w, k :: nat) = (q, s', k') \<Longrightarrow>
     master_step env net b w (w\<lparr>w_db := s'\<rparr>)"
| send_log:
    "master_step env net b w (w\<lparr>w_db := snd (SendLog (store_DB env) chunks (w_db w))\<rparr>)"
| send_result:
    "master_step env net b w (w\<lparr>w_disp := snd (SendResult result (w_disp w))\<rparr>)"
| agent_connects:
    "master_step env net b w (w\<lparr>w_disp := Register_connect reg stream (w_disp w)\<rparr>)"
| agent_leaves:
    "master_step env net b w (w\<lparr>w_disp := Register_disconnect reg (w_disp w)\<rparr>)"

inductive master_reach ::
  "sql_env \<Rightarrow> net_env \<Rightarrow> 'h Bus \<Rightarrow> advance_task list \<Rightarrow> (db_value, Registry, 'h) world \<Rightarrow> bool"
  for env net b where
  boot:
    "master_reach env net b []
       \<lparr>w_db = open_store dbURL, w_disp = registry_New, w_subs = h, w_tasks = []\<rparr>"
| step:
    "master_reach env net b hist w \<Longrightarrow> master_step env net b w w' \<Longrightarrow>
     master_reach env net b (hist @ filter (\<lambda>t. t \<notin> set (w_tasks w)) (w_tasks w')) w'"

section \<open>The invariant of the wired master\<close>

text \<open>
  No row of the store is ever success or failed, rows belong to runs that exist, and a run whose
  goroutine has not run yet has pending rows only.
\<close>

definition untouched :: "(string \<times> string \<Rightarrow> (string \<times> NodeState) option) \<Rightarrow> string \<Rightarrow> bool" where
  "untouched V rid \<longleftrightarrow> (\<forall>i. V (rid, i) \<in> {None, Some ([], NodeStatePending)})"

definition rows_wired ::
  "(string \<Rightarrow> (string \<times> RunState) option) \<Rightarrow> (string \<times> string \<Rightarrow> (string \<times> NodeState) option) \<Rightarrow> bool"
where
  "rows_wired R V \<longleftrightarrow>
     (\<forall>r i. R r = None \<longrightarrow> V (r, i) = None)
     \<and> (\<forall>r p st. R r = Some (p, st) \<longrightarrow> st \<in> {RunStatePending, RunStateRunning, RunStateCancelled})"

definition tasks_wired ::
  "(string \<Rightarrow> (string \<times> RunState) option) \<Rightarrow> (string \<times> string \<Rightarrow> (string \<times> NodeState) option) \<Rightarrow>
   advance_task list \<Rightarrow> bool" where
  "tasks_wired R V ts \<longleftrightarrow>
     distinct (map at_runID ts) \<and> (\<forall>t \<in> set ts. R (at_runID t) \<noteq> None \<and> untouched V (at_runID t))"

text \<open>What was sent comes from nodes without dependencies.\<close>

definition sent_wired ::
  "advance_task list \<Rightarrow> (string \<times> string \<times> JobSpec option) list \<Rightarrow> bool" where
  "sent_wired hist sl \<longleftrightarrow>
     (\<forall>(r, x) \<in> set sl. \<exists>t \<in> set hist. at_runID t = r
        \<and> (\<exists>n \<in> set (ps_Nodes (at_spec t)). nd_DependsOn n = [] \<and> x \<in> set (node_jobs n)))"

definition wired_inv :: "advance_task list \<Rightarrow> (db_value, Registry, 'h) world \<Rightarrow> bool" where
  "wired_inv hist w \<longleftrightarrow>
     store_valid (w_db w) \<and> registry_ok (w_disp w) \<and> set (w_tasks w) \<subseteq> set hist
     \<and> rows_wired (runs_of (w_db w)) (nodes_of (w_db w))
     \<and> tasks_wired (runs_of (w_db w)) (nodes_of (w_db w)) (w_tasks w)
     \<and> sent_wired hist (registry_sent (w_disp w))"

lemma wired_valid: "wired_inv hist w \<Longrightarrow> store_valid (w_db w)"
  by (simp add: wired_inv_def)

lemma sent_wired_mono: "sent_wired hist sl \<Longrightarrow> set hist \<subseteq> set hist' \<Longrightarrow> sent_wired hist' sl"
  unfolding sent_wired_def by (blast intro: case_prodI2)

lemma untouched_due:
  assumes "untouched V rid" and "node_due (row_states V rid) n"
  shows "nd_DependsOn n = []"
proof (rule ccontr)
  assume "nd_DependsOn n \<noteq> []"
  then obtain d where "d \<in> set (nd_DependsOn n)" by (cases "nd_DependsOn n") auto
  then have "row_states V rid d \<in> {NodeStateSuccess, NodeStateSkipped}"
    using assms(2) by (simp add: node_due_def depsTerminal_iff)
  moreover have "V (rid, d) \<in> {None, Some ([], NodeStatePending)}"
    using assms(1) by (simp add: untouched_def)
  ultimately show False by (auto simp: row_states_def)
qed

text \<open>A step that leaves the node rows and the tasks alone, and gives no run a new terminal state.\<close>

lemma wired_store:
  assumes "wired_inv hist w" and "store_valid s" and "nodes_of s = nodes_of (w_db w)"
    and "\<And>r. runs_of s r = None \<longleftrightarrow> runs_of (w_db w) r = None"
    and "\<And>r p st. runs_of s r = Some (p, st) \<Longrightarrow>
           st \<in> {RunStatePending, RunStateRunning, RunStateCancelled}"
  shows "wired_inv hist (w\<lparr>w_db := s\<rparr>)"
  using assms unfolding wired_inv_def rows_wired_def tasks_wired_def by simp

lemma wired_reads:
  assumes "wired_inv hist w" and "reads_only store_valid runs_of nodes_of (w_db w) s"
  shows "wired_inv hist (w\<lparr>w_db := s\<rparr>)"
  using assms by (intro wired_store) (auto simp: reads_only_def wired_inv_def rows_wired_def)

lemma wired_registry:
  assumes "wired_inv hist w" and "registry_ok d" and "registry_sent d = registry_sent (w_disp w)"
  shows "wired_inv hist (w\<lparr>w_disp := d\<rparr>)"
  using assms by (simp add: wired_inv_def)

lemma reads_only_refl: "store_valid s \<Longrightarrow> reads_only store_valid runs_of nodes_of s s"
  by (simp add: reads_only_def)

lemma reads_only_trans:
  "reads_only v R N s s1 \<Longrightarrow> reads_only v R N s1 s2 \<Longrightarrow> reads_only v R N s s2"
  by (simp add: reads_only_def)

lemma GetRun_reads:
  assumes "store_valid s"
  shows "reads_only store_valid runs_of nodes_of s (snd (GetRun (store_DB env) rid s))"
proof -
  obtain q s1 where g: "db_GetRun (store_DB env) rid s = (q, s1)" by (cases "db_GetRun (store_DB env) rid s")
  note one = store.get_run [OF assms g]
  show ?thesis
  proof (cases q)
    case (Inr r)
    obtain q2 s2 where l: "db_ListNodes (store_DB env) rid s1 = (q2, s2)"
      by (cases "db_ListNodes (store_DB env) rid s1")
    have "store_valid s1" using one by (simp add: reads_only_def)
    from reads_only_trans [OF one store.list_nodes [OF this l]] g l Inr
    show ?thesis by (simp add: GetRun_def Let_def)
  qed (use one g in \<open>simp add: GetRun_def\<close>)
qed

lemma ListRuns_reads:
  assumes "store_valid s"
  shows "reads_only store_valid runs_of nodes_of s (snd (ListRuns (store_DB env) req s))"
  using store_list.list_runs [OF assms]
  by (auto simp: ListRuns_def Let_def split: prod.splits sum.splits)

lemma StreamLogs_tick_reads:
  assumes "store_valid s" and "StreamLogs_tick (store_DB env) send rid seen (s, k) = (q, s', k')"
  shows "reads_only store_valid runs_of nodes_of s s'"
proof -
  obtain q1 s1 where g: "db_GetLogs (store_DB env) rid [] s = (q1, s1)"
    by (cases "db_GetLogs (store_DB env) rid [] s")
  have one: "reads_only store_valid runs_of nodes_of s s1" using store.get_logs [OF assms(1) g] by simp
  then have v1: "store_valid s1" by (simp add: reads_only_def)
  obtain q2 s2 where r: "db_GetRun (store_DB env) rid s1 = (q2, s2)"
    by (cases "db_GetRun (store_DB env) rid s1")
  have "s' = s1 \<or> s' = s2"
    using assms(2) g r by (auto simp: StreamLogs_tick_def Let_def split: sum.splits prod.splits)
  with one reads_only_trans [OF one store.get_run [OF v1 r]] show ?thesis by auto
qed

lemma CancelRun_wired:
  assumes "wired_inv hist w"
  shows "wired_inv hist (w\<lparr>w_db := snd (CancelRun (store_DB env) rid (w_db w))\<rparr>)"
proof -
  from assms have v: "store_valid (w_db w)"
    and R: "\<And>r p st. runs_of (w_db w) r = Some (p, st) \<Longrightarrow>
      st \<in> {RunStatePending, RunStateRunning, RunStateCancelled}"
    by (auto simp: wired_inv_def rows_wired_def)
  obtain q s where c: "db_UpdateRunState (store_DB env) rid RunStateCancelled (w_db w) = (q, s)"
    by (cases "db_UpdateRunState (store_DB env) rid RunStateCancelled (w_db w)")
  have s: "snd (CancelRun (store_DB env) rid (w_db w)) = s"
    using c by (cases q) (simp_all add: CancelRun_def)
  show ?thesis
  proof (cases q)
    case (Inl e)
    with store.update_run_err [OF v c [unfolded Inl]] show ?thesis
      unfolding s by (intro wired_reads [OF assms])
  next
    case (Inr u)
    note eff = store.update_run_ok [OF v c [unfolded Inr]]
    show ?thesis unfolding s
      using eff R by (intro wired_store [OF assms]) (auto split: if_splits)
  qed
qed

lemma untouched_set_rows:
  "untouched (set_rows r ids NodeStatePending V) rid \<longleftrightarrow>
     (if r = rid then \<forall>i. i \<notin> ids \<longrightarrow> V (rid, i) \<in> {None, Some ([], NodeStatePending)} else untouched V rid)"
  by (auto simp: untouched_def set_rows_def)

text \<open>\<open>Start\<close>: a new run, whose rows are pending.\<close>

lemma Start_wired:
  assumes w: "wired_inv hist w"
    and st: "Start (master_manager env net b) rid now spec project rc w = (q, w')"
  shows "wired_inv (hist @ filter (\<lambda>t. t \<notin> set (w_tasks w)) (w_tasks w')) w'"
proof -
  from w have v: "store_valid (w_db w)" and R: "rows_wired (runs_of (w_db w)) (nodes_of (w_db w))"
    and T: "tasks_wired (runs_of (w_db w)) (nodes_of (w_db w)) (w_tasks w)"
    and S: "sent_wired hist (registry_sent (w_disp w))" and H: "set (w_tasks w) \<subseteq> set hist"
    and ok: "registry_ok (w_disp w)"
    by (simp_all add: wired_inv_def)
  have rows: "rows_wired ((runs_of (w_db w))(rid \<mapsto> (project, st))) (set_rows rid ids NodeStatePending (nodes_of (w_db w)))"
    if "st \<in> {RunStatePending, RunStateRunning}" for st ids
    using R that by (auto simp: rows_wired_def set_rows_def)
  have tasks: "tasks_wired ((runs_of (w_db w))(rid \<mapsto> x)) (set_rows rid ids NodeStatePending (nodes_of (w_db w))) (w_tasks w)"
    if "runs_of (w_db w) rid = None" for x ids
    using T that by (auto simp: tasks_wired_def untouched_set_rows)
  show ?thesis
  proof (cases q)
    case (Inl e)
    have new: "filter (\<lambda>t. t \<notin> set (w_tasks w)) (w_tasks w') = []"
      using mgr.Start_err [OF v st [unfolded Inl]] by simp
    show ?thesis unfolding new
      using mgr.Start_err [OF v st [unfolded Inl]] rows [of RunStatePending] tasks R T S H ok
      by (auto simp: wired_inv_def)
  next
    case (Inr i)
    note eff = mgr.Start_ok [OF v st [unfolded Inr]]
    let ?t = "\<lparr>at_runID = rid, at_spec = spec, at_rc = rc\<rparr>"
    have none: "nodes_of (w_db w) (rid, k) = None" for k
      using R eff(3) by (simp add: rows_wired_def)
    have "rid \<notin> at_runID ` set (w_tasks w)" using T eff(3) by (auto simp: tasks_wired_def)
    with tasks [OF eff(3), of "(project, RunStateRunning)" "seed_ids spec"] none
    have "tasks_wired (runs_of (w_db w')) (nodes_of (w_db w')) (w_tasks w')"
      by (auto simp: tasks_wired_def eff(4,5,7) untouched_set_rows)
    moreover have "rows_wired (runs_of (w_db w')) (nodes_of (w_db w'))"
      by (simp add: eff(4,5) rows)
    moreover have "sent_wired (hist @ filter (\<lambda>t. t \<notin> set (w_tasks w)) (w_tasks w')) (registry_sent (w_disp w'))"
      using sent_wired_mono [OF S] by (simp add: eff(6))
    ultimately show ?thesis using eff(2,6,7) ok H by (auto simp: wired_inv_def)
  qed
qed

text \<open>The goroutine: only nodes without dependencies can be due.\<close>

lemma run_task_wired:
  assumes w: "wired_inv hist w" and ts: "w_tasks w = ts1 @ t # ts2"
  shows "wired_inv hist (run_task (master_manager env net b) t (w\<lparr>w_tasks := ts1 @ ts2\<rparr>))"
proof -
  let ?w0 = "w\<lparr>w_tasks := ts1 @ ts2\<rparr>" and ?r = "at_runID t"
  let ?w' = "Advance (master_scheduler env net b) ?r (at_spec t) (at_rc t) ?w0"
  let ?st = "row_states (nodes_of (w_db w)) ?r"
  from w have v: "store_valid (w_db w)" and ok: "registry_ok (w_disp w)"
    and R: "rows_wired (runs_of (w_db w)) (nodes_of (w_db w))"
    and T: "tasks_wired (runs_of (w_db w)) (nodes_of (w_db w)) (w_tasks w)"
    and S: "sent_wired hist (registry_sent (w_disp w))" and H: "set (w_tasks w) \<subseteq> set hist"
    by (simp_all add: wired_inv_def)
  have un: "untouched (nodes_of (w_db w)) ?r" and r: "runs_of (w_db w) ?r \<noteq> None"
    and d: "?r \<notin> at_runID ` set (ts1 @ ts2)" and dt: "distinct (map at_runID (ts1 @ ts2))"
    using T ts by (auto simp: tasks_wired_def)
  have out: "loop_outcome store_valid runs_of nodes_of registry_ok registry_sent ?r (at_rc t) ?st
      (ps_Nodes (at_spec t)) ?w0 ?w'"
    using master.Advance_outcome [of ?w0 ?r "at_rc t" "at_spec t" env net b] v ok by simp
  have other: "nodes_of (w_db ?w') (r', i) = nodes_of (w_db w) (r', i)" if "r' \<noteq> ?r" for r' i
    using out that unfolding loop_outcome_def row_due_def by fastforce
  have "rows_wired (runs_of (w_db ?w')) (nodes_of (w_db ?w'))"
    unfolding rows_wired_def
  proof (intro conjI allI impI)
    fix r' i
    assume "runs_of (w_db ?w') r' = None"
    then have n: "runs_of (w_db w) r' = None" using out by (simp add: loop_outcome_def)
    then have "r' \<noteq> ?r" using r by auto
    with other [of r' i] R n show "nodes_of (w_db ?w') (r', i) = None" by (simp add: rows_wired_def)
  next
    fix r' p st
    assume "runs_of (w_db ?w') r' = Some (p, st)"
    then have "runs_of (w_db w) r' = Some (p, st)" using out by (simp add: loop_outcome_def)
    with R show "st \<in> {RunStatePending, RunStateRunning, RunStateCancelled}"
      unfolding rows_wired_def by blast
  qed
  moreover have "tasks_wired (runs_of (w_db ?w')) (nodes_of (w_db ?w')) (ts1 @ ts2)"
    unfolding tasks_wired_def
  proof (intro conjI ballI)
    show "distinct (map at_runID (ts1 @ ts2))" by (rule dt)
    fix u assume u: "u \<in> set (ts1 @ ts2)"
    with T ts have "runs_of (w_db w) (at_runID u) \<noteq> None" "untouched (nodes_of (w_db w)) (at_runID u)"
      by (auto simp: tasks_wired_def)
    moreover have "at_runID u \<noteq> ?r" using d u by (metis imageI)
    ultimately show "runs_of (w_db ?w') (at_runID u) \<noteq> None"
      "untouched (nodes_of (w_db ?w')) (at_runID u)"
      using other out by (simp_all add: untouched_def loop_outcome_def)
  qed
  moreover have "sent_wired hist (registry_sent (w_disp ?w'))"
  proof -
    have d0: "w_disp ?w0 = w_disp w" by simp
    obtain xs where xs: "registry_sent (w_disp ?w') = registry_sent (w_disp w) @ map (\<lambda>(n, j). (?r, n, j)) xs"
      and m: "\<forall>x \<in> set xs. \<exists>m \<in> set (ps_Nodes (at_spec t)). node_ready ?st (at_rc t) m \<and> x \<in> set (node_jobs m)"
      using out unfolding loop_outcome_def sent_ready_def d0 by blast
    have "t \<in> set hist" using H ts by auto
    moreover have "\<exists>n \<in> set (ps_Nodes (at_spec t)). nd_DependsOn n = [] \<and> x \<in> set (node_jobs n)"
      if "x \<in> set xs" for x
      using m that untouched_due [OF un] unfolding node_ready_def by blast
    ultimately show ?thesis using S by (auto simp: sent_wired_def xs)
  qed
  ultimately have "wired_inv hist ?w'"
    using out H ts by (auto simp: wired_inv_def loop_outcome_def)
  then show ?thesis by (simp add: run_task_def master_manager_def NewManager_def)
qed

section \<open>Every step keeps it\<close>

text \<open>A step without new tasks adds nothing to the history.\<close>

lemma wired_same_tasks:
  "wired_inv hist w' \<Longrightarrow> set (w_tasks w') \<subseteq> set (w_tasks w) \<Longrightarrow>
     wired_inv (hist @ filter (\<lambda>t. t \<notin> set (w_tasks w)) (w_tasks w')) w'"
proof -
  assume "wired_inv hist w'" and sub: "set (w_tasks w') \<subseteq> set (w_tasks w)"
  moreover have "filter (\<lambda>t. t \<notin> set (w_tasks w)) (w_tasks w') = []"
    using sub by (auto simp: filter_empty_conv)
  ultimately show ?thesis by simp
qed

lemma SubmitPipeline_snd:
  "snd (SubmitPipeline m rid now spec w) =
     snd (Start m rid now spec ''api'' \<lparr>rc_Branch = [], rc_Tag = [], rc_Event = ''manual''\<rparr> w)"
  by (simp add: SubmitPipeline_def split: prod.splits sum.splits)

lemma run_task_tasks:
  assumes "wired_inv hist w" and "w_tasks w = ts1 @ t # ts2"
  shows "w_tasks (run_task (master_manager env net b) t (w\<lparr>w_tasks := ts1 @ ts2\<rparr>)) = ts1 @ ts2"
proof -
  let ?w0 = "w\<lparr>w_tasks := ts1 @ ts2\<rparr>"
  have "store_valid (w_db ?w0)" "registry_ok (w_disp ?w0)" using assms(1) by (simp_all add: wired_inv_def)
  from master.Advance_outcome [OF this, of "at_runID t" "at_rc t" "at_spec t" env net b]
  show ?thesis by (simp add: run_task_def master_manager_def NewManager_def loop_outcome_def)
qed

text \<open>A step is a start, a goroutine, a cancellation, a read, or a change of the agents that sends nothing.\<close>

lemma master_step_cases [consumes 3, case_names start goroutine cancel reads agents]:
  assumes "master_step env net b w w'" and v: "store_valid (w_db w)" and ok: "registry_ok (w_disp w)"
  obtains rid now spec project rc q where "Start (master_manager env net b) rid now spec project rc w = (q, w')"
  | ts1 t ts2 where "w_tasks w = ts1 @ t # ts2"
      and "w' = run_task (master_manager env net b) t (w\<lparr>w_tasks := ts1 @ ts2\<rparr>)"
  | rid where "w' = w\<lparr>w_db := snd (CancelRun (store_DB env) rid (w_db w))\<rparr>"
  | s where "w' = w\<lparr>w_db := s\<rparr>" and "reads_only store_valid runs_of nodes_of (w_db w) s"
  | d where "w' = w\<lparr>w_disp := d\<rparr>" and "registry_ok d" and "registry_sent d = registry_sent (w_disp w)"
      and "rg_wire d = rg_wire (w_disp w)"
  using assms(1)
proof cases
  case (submit runID now spec)
  then show ?thesis by (intro that(1) prod_eqI) (simp_all add: SubmitPipeline_snd)
next
  case (webhook hmac json secret runID now r)
  have "w' = w \<or> (\<exists>e. w' = webhook_trigger (master_manager env net b) runID now e w)"
    unfolding webhook
    by (auto simp: webhook_ServeHTTP_def webhook_New_def Let_def split: sum.splits)
  then show ?thesis
  proof
    assume "w' = w"
    then show ?thesis using that(4) [of "w_db w"] reads_only_refl [OF v] by simp
  next
    assume "\<exists>e. w' = webhook_trigger (master_manager env net b) runID now e w"
    then obtain e where "w' = webhook_trigger (master_manager env net b) runID now e w" by blast
    then show ?thesis unfolding webhook_trigger_def Let_def by (intro that(1) prod_eqI) simp_all
  qed
next
  case (goroutine ts1 t ts2)
  then show ?thesis by (intro that(2))
next
  case (cancel_run rid)
  then show ?thesis by (rule that(3))
next
  case get_run
  then show ?thesis by (rule that(4)) (rule GetRun_reads [OF v])
next
  case list_runs
  then show ?thesis by (rule that(4)) (rule ListRuns_reads [OF v])
next
  case (stream_logs send rid seen k q s' k')
  then show ?thesis by (intro that(4)) (simp, rule StreamLogs_tick_reads [OF v stream_logs(2)])
next
  case (send_log chunks)
  then show ?thesis by (rule that(4)) (rule store.SendLog_logs(2) [OF v prod.collapse [symmetric]])
next
  case (send_result result)
  with JobDone_ok [OF ok, of "jr_JobId result"] show ?thesis
    by (intro that(5) [of "JobDone (jr_JobId result) (w_disp w)"]) (simp_all add: SendResult_def)
next
  case (agent_connects reg stream)
  with Register_connect_ok [OF ok] show ?thesis
    by (intro that(5) [of "Register_connect reg stream (w_disp w)"]) simp_all
next
  case (agent_leaves reg)
  with Register_disconnect_ok [OF ok] show ?thesis
    by (intro that(5) [of "Register_disconnect reg (w_disp w)"]) simp_all
qed

lemma master_step_inv:
  assumes step: "master_step env net b w w'" and w: "wired_inv hist w"
  shows "wired_inv (hist @ filter (\<lambda>t. t \<notin> set (w_tasks w)) (w_tasks w')) w'"
proof -
  have v: "store_valid (w_db w)" and ok: "registry_ok (w_disp w)" using w by (simp_all add: wired_inv_def)
  from step v ok show ?thesis
  proof (cases rule: master_step_cases)
    case (start rid now spec project rc q)
    then show ?thesis by (rule Start_wired [OF w])
  next
    case (goroutine ts1 t ts2)
    then show ?thesis
      using run_task_wired [OF w goroutine(1)] run_task_tasks [OF w goroutine(1)]
      by (intro wired_same_tasks) auto
  next
    case (cancel rid)
    then show ?thesis using CancelRun_wired [OF w] by (simp add: wired_same_tasks)
  next
    case (reads s)
    then show ?thesis using wired_reads [OF w] by (simp add: wired_same_tasks)
  next
    case (agents d)
    then show ?thesis using wired_registry [OF w] by (simp add: wired_same_tasks)
  qed
qed

lemma master_reach_inv: "master_reach env net b hist w \<Longrightarrow> wired_inv hist w"
proof (induction rule: master_reach.induct)
  case (boot dbURL h)
  have "registry_sent registry_New = []" by (simp add: registry_sent_def registry_New_def)
  then show ?case
    by (simp add: wired_inv_def open_store_valid registry_ok_New rows_wired_def tasks_wired_def
        sent_wired_def open_store_empty)
next
  case (step hist w w')
  from master_step_inv [OF step.hyps(2) step.IH] show ?case .
qed

end
