(* ===== verification/Pipeline_Props.thy ===== *)
theory Pipeline_Props
  imports Pipeline_Safety
begin

text \<open>
  The properties of the master's scheduler and manager, over the facts of \<open>Scheduler_Props\<close>,
  \<open>Run_Manager\<close> and \<open>Pipeline_Safety\<close>.
\<close>

section \<open>A run under every sequence of calls\<close>


lemma ex_reach: "pipeline_reach ex_env ex_net ex_bus ''r'' ex_spec ex_rc ex_advanced"
proof -
  have "run_sent ''r'' (registry_sent (w_disp ex_world)) = []" by code_simp
  from ex_world_ok this ex_Start [unfolded ex_manager_def] have "pipeline_reach ex_env ex_net ex_bus ''r'' ex_spec ex_rc ex_started"
    by (rule pipeline_reach.started)
  then show ?thesis unfolding ex_advanced_def ex_scheduler_def
    by (rule pipeline_reach.step) (rule pipeline_step.advance)
qed

lemma ex_distinct_rows: "distinct_rows ex_spec" by code_simp


text \<open>
  Property C2: in every such sequence, for a spec in which no two rows (nodes, and jobs inside stages)
  share an ID, each job of the run reaches an agent at most once: the job IDs sent for the run are
  distinct, and each stands in the spec. \<open>Start\<close> does not check that the IDs are distinct; two nodes
  that share one are both sent under it, even by one call of \<open>Advance\<close>. The calls are whole calls here;
  two overlapping calls of \<open>Advance\<close> are another matter.
\<close>

theorem dispatched_at_most_once:
  assumes "pipeline_reach env net b rid spec rc w" and "distinct_rows spec"
  shows "distinct (map fst (run_sent rid (registry_sent (w_disp w))))
       \<and> set (run_sent rid (registry_sent (w_disp w))) \<subseteq> set (concat (map node_jobs (ps_Nodes spec)))"
  using pipeline_reach_inv [OF assms] unfolding run_inv_def sent_ok_def by auto

theorem dispatched_at_most_once_witness:
  "distinct (map fst (run_sent ''r'' (registry_sent (w_disp ex_advanced))))
   \<and> run_sent ''r'' (registry_sent (w_disp ex_advanced)) = [(''build'', Some ex_job)]"
  using dispatched_at_most_once [OF ex_reach ex_distinct_rows]
  by (simp add: ex_advanced_sent run_sent_def)

text \<open>
  The claim above fails for overlapping calls. Two calls of \<open>Advance\<close> that both read the
  states before either has run its loop send the same job twice, although the comment on \<open>Advance\<close>
  says that it is safe to call concurrently.
\<close>

lemma Advance_overlap_sends_twice:
  "(case Advance_read ex_scheduler ''r'' ex_started of
      (Some st1, w1) \<Rightarrow>
        (case Advance_read ex_scheduler ''r'' w1 of
           (Some st2, w2) \<Rightarrow>
             registry_sent (w_disp
               (Advance_loop ex_scheduler ''r'' ex_spec ex_rc st2
                 (Advance_loop ex_scheduler ''r'' ex_spec ex_rc st1 w2)))
         | _ \<Rightarrow> [])
    | _ \<Rightarrow> [])
   = [(''r'', ''build'', Some ex_job), (''r'', ''build'', Some ex_job)]"
  by code_simp

text \<open>Nor does it hold when two nodes share an ID, which nothing refuses: both jobs go out under it.\<close>

definition twin_spec :: PipelineSpec where
  "twin_spec = \<lparr>ps_Workflow = None, ps_Nodes =
     [Node ''a'' [] [] (Some (Node_Job ex_job)), Node ''a'' [] [] (Some (Node_Job ex_job))]\<rparr>"

lemma twins_sent_twice:
  "(case Start ex_manager ''r'' 0 twin_spec ''web'' ex_rc ex_world of
      (q, w) \<Rightarrow> (q, registry_sent (w_disp (Advance ex_scheduler ''r'' twin_spec ex_rc w))))
   = (Inr ''r'', [(''r'', ''a'', Some ex_job), (''r'', ''a'', Some ex_job)])"
  by code_simp

section \<open>One call of Advance\<close>

text \<open>
  Property C7: one call of \<open>Advance\<close>, whatever fails in it. What it sends is a subsequence, in the
  order of the spec, of the jobs of the nodes that are pending with their dependencies done and their
  conditions true in the states it read; a row that it changes is the row of a pending node of the
  spec with its dependencies done, and goes to running when the conditions hold and to skipped when
  not; no other row and no run changes.
\<close>

theorem Advance_safe:
  assumes "store_valid (w_db w)" and "registry_ok (w_disp w)"
  shows "let st = row_states (nodes_of (w_db w)) rid;
             w' = Advance (master_scheduler env net b) rid spec rc w in
     (\<exists>jobs. registry_sent (w_disp w') = registry_sent (w_disp w) @ map (\<lambda>(n, j). (rid, n, j)) jobs
        \<and> subseq jobs (ready_jobs st rc (ps_Nodes spec)))
     \<and> (\<forall>k. nodes_of (w_db w') k = nodes_of (w_db w) k
        \<or> (\<exists>n \<in> set (ps_Nodes spec). node_due st n \<and> k = (rid, nd_Id n)
             \<and> nodes_of (w_db w') k = Some ([], if evalConditions (nd_Conditions n) rc
                 then NodeStateRunning else NodeStateSkipped)))
     \<and> runs_of (w_db w') = runs_of (w_db w)"
  using master.Advance_outcome [OF assms, of rid rc spec env net b]
  unfolding Let_def loop_outcome_def sent_ready_def ready_jobs_def row_due_def due_row_def by blast

theorem Advance_safe_witness:
  "runs_of (w_db (Advance (master_scheduler ex_env ex_net ex_bus) ''r'' ex_spec ex_rc ex_world))
   = runs_of (w_db ex_world)"
  using Advance_safe [OF ex_world_ok] unfolding Let_def by blast

text \<open>
  Property C3: over a store that answers, \<open>Advance\<close> is its specification on the view of the node
  table: every pending node with its dependencies done in the view gets the row of running or
  skipped, by its conditions, and every other entry stays; and the dispatcher is called for exactly
  the jobs of the ready nodes, in the order of the spec, each call after the other whatever it
  returned.
\<close>

theorem Advance_refines:
  assumes "store_valid (w_db w)"
  shows "nodes_of (w_db (Advance (master_scheduler (healthy env) net b) rid spec rc w))
       = advance_view rid rc (ps_Nodes spec) (nodes_of (w_db w))
     \<and> w_disp (Advance (master_scheduler (healthy env) net b) rid spec rc w)
       = dispatch_all (registryDispatcher_Dispatch net) rid
           (ready_jobs (row_states (nodes_of (w_db w)) rid) rc (ps_Nodes spec)) (w_disp w)"
  using assms by (rule master_up.Advance_world)

theorem Advance_refines_witness:
  "nodes_of (w_db (Advance (master_scheduler (healthy ex_env) ex_net ex_bus) ''r'' ex_spec ex_rc ex_world))
   = advance_view ''r'' ex_rc (ps_Nodes ex_spec) (nodes_of (w_db ex_world))"
  using Advance_refines [OF ex_world_ok(1)] by blast

section \<open>Start and NodeCompleted\<close>

text \<open>
  Property C4: a \<open>Start\<close> that succeeds returns the new run ID, under which there was no run; it
  leaves the run in state running under the project, a pending row for every node and for every job
  inside a stage (\<open>stage/job\<close>) and every other row as it was, sends nothing, publishes one
  \<open>TriggerReceived\<close>, and starts one goroutine, which calls \<open>Advance\<close> for the run.
\<close>

theorem Start_success:
  assumes "store_valid (w_db w)"
    and "Start (master_manager env net b) rid now spec project rc w = (Inr i, w')"
  shows "i = rid \<and> runs_of (w_db w) rid = None
     \<and> runs_of (w_db w') = (runs_of (w_db w))(rid \<mapsto> (project, RunStateRunning))
     \<and> nodes_of (w_db w') = set_rows rid (seed_ids spec) NodeStatePending (nodes_of (w_db w))
     \<and> w_disp w' = w_disp w
     \<and> w_subs w' = Publish b \<lparr>e_Type = EventTriggerReceived, e_Payload = rid\<rparr> (w_subs w)
     \<and> w_tasks w' = w_tasks w @ [\<lparr>at_runID = rid, at_spec = spec, at_rc = rc\<rparr>]"
  using mgr.Start_ok [OF assms] by (simp add: master_manager_def NewManager_def)

theorem Start_success_witness:
  "nodes_of (w_db ex_started) = set_rows ''r'' (seed_ids ex_spec) NodeStatePending (nodes_of (w_db ex_world))"
  using Start_success [OF ex_world_ok(1) ex_Start [unfolded ex_manager_def]] by simp

text \<open>
  Property C26: a \<open>Start\<close> that fails sends, publishes and schedules nothing. Either \<open>CreateRun\<close>
  failed and no row changed, or a run is left behind in state pending, with a part of its rows, all
  pending: nothing takes it back.
\<close>

theorem Start_failure:
  assumes "store_valid (w_db w)"
    and "Start (master_manager env net b) rid now spec project rc w = (Inl e, w')"
  shows "w_disp w' = w_disp w \<and> w_tasks w' = w_tasks w \<and> w_subs w' = w_subs w
     \<and> (nodes_of (w_db w') = nodes_of (w_db w) \<and> runs_of (w_db w') = runs_of (w_db w)
          \<and> (\<exists>e0. e = Wrapf ''create run'' [] e0)
        \<or> runs_of (w_db w) rid = None
          \<and> runs_of (w_db w') = (runs_of (w_db w))(rid \<mapsto> (project, RunStatePending))
          \<and> (\<exists>ids \<subseteq> seed_ids spec.
               nodes_of (w_db w') = set_rows rid ids NodeStatePending (nodes_of (w_db w))))"
  using mgr.Start_err [OF assms] by blast

text \<open>An engine whose third statement fails: the seeding of the second node.\<close>

definition ex_env_fault :: sql_env where
  "ex_env_fault = ex_env\<lparr>env_fault := (\<lambda>n. if n = 2 then Some ''disk I/O error'' else None)\<rparr>"

definition ex_Start_fault where
  "ex_Start_fault =
     Start (master_manager ex_env_fault ex_net ex_bus) ''r'' 0 ex_spec ''api'' ex_rc ex_world"

theorem Start_failure_witness:
  "fst ex_Start_fault = Inl (Wrapf ''seed node %s'' [''test''] (DriverErr ''disk I/O error''))
   \<and> runs_of (w_db (snd ex_Start_fault)) = (runs_of (w_db ex_world))(''r'' \<mapsto> (''api'', RunStatePending))"
proof -
  have e: "fst ex_Start_fault = Inl (Wrapf ''seed node %s'' [''test''] (DriverErr ''disk I/O error''))"
    by code_simp
  then have "Start (master_manager ex_env_fault ex_net ex_bus) ''r'' 0 ex_spec ''api'' ex_rc ex_world
      = (Inl (Wrapf ''seed node %s'' [''test''] (DriverErr ''disk I/O error'')), snd ex_Start_fault)"
    unfolding ex_Start_fault_def by (simp add: prod_eq_iff)
  from Start_failure [OF ex_world_ok(1) this] e show ?thesis by simp
qed

text \<open>
  Property C5: a \<open>NodeCompleted\<close> that returns no error sets the row of the node to success or failed
  and leaves every other row as it was. When every row of the run is terminal then, the run becomes
  failed if some row is failed and success otherwise; when some row is still pending or running the
  run keeps its state. It sends nothing and schedules nothing, so no node that waited for this one is
  started by it, although its comment says that the scheduler decides here what to dispatch next.
\<close>

theorem NodeCompleted_success:
  assumes "store_valid (w_db w)"
    and "NodeCompleted (master_manager env net b) rid nid ok w = (Inr u, w')"
  shows "let V = (nodes_of (w_db w))((rid, nid) \<mapsto>
             ([], if ok then NodeStateSuccess else NodeStateFailed)) in
     nodes_of (w_db w') = V
     \<and> runs_of (w_db w') =
         (if \<exists>i j st. V (rid, i) = Some (j, st) \<and> st \<in> {NodeStatePending, NodeStateRunning}
          then runs_of (w_db w)
          else (runs_of (w_db w))(rid := map_option (\<lambda>(p, _). (p,
                  if \<exists>i j. V (rid, i) = Some (j, NodeStateFailed) then RunStateFailed
                  else RunStateSuccess)) (runs_of (w_db w) rid)))
     \<and> w_disp w' = w_disp w \<and> w_tasks w' = w_tasks w"
  using mgr.NodeCompleted_ok [OF assms]
  unfolding Let_def completed_view_def completed_runs_def run_active_def run_failed_def by blast

definition ex_completed where
  "ex_completed = NodeCompleted ex_manager ''r'' ''build'' True ex_advanced"

lemma ex_completed_ok: "fst ex_completed = Inr ()"
  by code_simp

lemma ex_advanced_valid: "store_valid (w_db ex_advanced)"
  using pipeline_reach_inv [OF ex_reach ex_distinct_rows] by (simp add: run_inv_def run_known_def)

theorem NodeCompleted_success_witness:
  "nodes_of (w_db (snd ex_completed)) (''r'', ''build'') = Some ([], NodeStateSuccess)
   \<and> w_tasks (snd ex_completed) = w_tasks ex_advanced"
proof -
  have "NodeCompleted (master_manager ex_env ex_net ex_bus) ''r'' ''build'' True ex_advanced
      = (Inr (), snd ex_completed)"
    using ex_completed_ok by (simp add: ex_completed_def ex_manager_def prod_eq_iff)
  from NodeCompleted_success [OF ex_advanced_valid this] show ?thesis by (simp add: Let_def)
qed

end
