(* ===== verification/Master_Props.thy ===== *)
theory Master_Props
  imports Master_System Pipeline_Props
begin

text \<open>
  The properties of the wired master and of its gRPC service: what its runs and nodes can reach, and
  what its methods return.
\<close>

section \<open>What the wired master can reach\<close>

text \<open>
  Property C23: in the master as it is wired no run ever becomes success or failed, whatever the
  clients and agents do: \<open>SendResult\<close> does not tell the manager, so \<open>NodeCompleted\<close>, which ends runs,
  is never called. A run stays pending or running until a client cancels it.
\<close>

theorem wired_runs_never_end:
  assumes "master_reach env net b hist w" and "runs_of (w_db w) r = Some (p, st)"
  shows "st \<in> {RunStatePending, RunStateRunning, RunStateCancelled}"
  using master_reach_inv [OF assms(1)] assms(2) unfolding wired_inv_def rows_wired_def by blast

text \<open>
  Property C24: in the wired master every job that reaches an agent is one of a node without
  dependencies, of a run that was started: \<open>Advance\<close> runs once per run, when every row is pending,
  and is not called again, so a node with a dependency is never dispatched, not even when its
  dependency was skipped.
\<close>

theorem wired_only_roots_run:
  assumes "master_reach env net b hist w" and "(r, i, j) \<in> set (registry_sent (w_disp w))"
  shows "\<exists>t \<in> set hist. at_runID t = r
    \<and> (\<exists>n \<in> set (ps_Nodes (at_spec t)). nd_DependsOn n = [] \<and> (i, j) \<in> set (node_jobs n))"
  using master_reach_inv [OF assms(1)] assms(2) unfolding wired_inv_def sent_wired_def by blast

text \<open>A reachable world: an agent connects, a client submits the example, the goroutine runs.\<close>

definition wired0 :: "(db_value, Registry, Event list) world" where
  "wired0 = \<lparr>w_db = open_store [], w_disp = registry_New, w_subs = [], w_tasks = []\<rparr>"

definition wired1 where "wired1 = wired0\<lparr>w_disp := Register_connect ex_agent 0 (w_disp wired0)\<rparr>"

definition wired2 where
  "wired2 = snd (SubmitPipeline (master_manager ex_env ex_net ex_bus) ''r'' 0 ex_spec wired1)"

definition wired_task :: advance_task where
  "wired_task = \<lparr>at_runID = ''r'', at_spec = ex_spec, at_rc = ex_rc\<rparr>"

definition wired3 where
  "wired3 = run_task (master_manager ex_env ex_net ex_bus) wired_task (wired2\<lparr>w_tasks := []\<rparr>)"

lemma wired_tasks: "w_tasks wired0 = []" "w_tasks wired1 = []" "w_tasks wired2 = [wired_task]"
    "w_tasks wired3 = []"
  by (simp add: wired0_def, simp add: wired1_def wired0_def, code_simp, code_simp)

lemma wired1_reach: "master_reach ex_env ex_net ex_bus [] wired1"
proof -
  have "master_reach ex_env ex_net ex_bus [] wired0" unfolding wired0_def by (rule master_reach.boot)
  moreover have "master_step ex_env ex_net ex_bus wired0 wired1"
    unfolding wired1_def by (rule master_step.agent_connects)
  ultimately show ?thesis
    using master_reach.step [of ex_env ex_net ex_bus "[]" wired0 wired1] by (simp add: wired_tasks)
qed

text \<open>The goroutine of a submission that has left its task behind.\<close>

lemma submitted_reach:
  assumes "w2 = snd (SubmitPipeline (master_manager ex_env ex_net ex_bus) r now spec wired1)" and "w_tasks w2 = [t]"
    and "w3 = run_task (master_manager ex_env ex_net ex_bus) t (w2\<lparr>w_tasks := []\<rparr>)" and "w_tasks w3 = []"
  shows "master_reach ex_env ex_net ex_bus [t] w2" and "master_reach ex_env ex_net ex_bus [t] w3"
proof -
  have "master_step ex_env ex_net ex_bus wired1 w2" unfolding assms(1) by (rule master_step.submit)
  with wired1_reach show r: "master_reach ex_env ex_net ex_bus [t] w2"
    using master_reach.step [of ex_env ex_net ex_bus "[]" wired1 w2] assms(2) by (simp add: wired_tasks)
  have "master_step ex_env ex_net ex_bus w2 w3"
    using master_step.goroutine [of w2 "[]" t "[]" ex_env ex_net ex_bus] assms(2,3) by simp
  with r show "master_reach ex_env ex_net ex_bus [t] w3"
    using master_reach.step [of ex_env ex_net ex_bus "[t]" w2 w3] assms(4) by simp
qed

lemmas wired2_reach = submitted_reach(1) [OF wired2_def wired_tasks(3) wired3_def wired_tasks(4)]
lemmas wired3_reach = submitted_reach(2) [OF wired2_def wired_tasks(3) wired3_def wired_tasks(4)]

theorem wired_runs_never_end_witness:
  "runs_of (w_db wired3) ''r'' = Some (''api'', RunStateRunning)
   \<and> RunStateRunning \<in> {RunStatePending, RunStateRunning, RunStateCancelled}"
proof -
  have r: "runs_of (w_db wired3) ''r'' = Some (''api'', RunStateRunning)" by code_simp
  with wired_runs_never_end [OF wired3_reach r] show ?thesis by simp
qed

theorem wired_only_roots_run_witness:
  "registry_sent (w_disp wired3) = [(''r'', ''build'', Some ex_job)]
   \<and> (\<exists>n \<in> set (ps_Nodes ex_spec). nd_DependsOn n = [] \<and> (''build'', Some ex_job) \<in> set (node_jobs n))"
proof -
  have s: "registry_sent (w_disp wired3) = [(''r'', ''build'', Some ex_job)]" by code_simp
  then have "(''r'', ''build'', Some ex_job) \<in> set (registry_sent (w_disp wired3))" by simp
  from s wired_only_roots_run [OF wired3_reach this] show ?thesis by (simp add: wired_task_def)
qed

section \<open>The methods of BrazierAPI\<close>

text \<open>
  \<open>ListRuns\<close> returns runs of the requested project only, each once with its current
  state, the latest created first, and exactly as many as there are up to the limit; a limit that is
  zero or negative counts as 50, so the store never sees a negative one.
\<close>

lemma ListRuns_bounded:
  assumes "store_valid s" and "ListRuns (store_DB env) req s = (Inr items, s')"
  shows "let limit = (if sint (lr_Limit req) \<le> 0 then 50 else sint (lr_Limit req)) in
     (\<exists>runs. items = map (\<lambda>r. \<lparr>rs_RunId = run_ID r, rs_State = run_State r, rs_Nodes = []\<rparr>) runs
        \<and> runs_listed (runs_of s) (lr_Project req) limit runs)"
proof -
  let ?l = "if sint (lr_Limit req) \<le> 0 then 50 else sint (lr_Limit req)"
  obtain q s1 where l: "db_ListRuns (store_DB env) (lr_Project req) ?l s = (q, s1)"
    by (cases "db_ListRuns (store_DB env) (lr_Project req) ?l s")
  with assms(2) obtain runs where q: "q = Inr runs"
    by (cases q) (auto simp: ListRuns_def Let_def split: if_splits)
  have "0 \<le> ?l" by simp
  from store_list.list_runs_ok [OF assms(1) this l [unfolded q]]
  have "runs_listed (runs_of s) (lr_Project req) ?l runs" .
  moreover have "items = map (\<lambda>r. \<lparr>rs_RunId = run_ID r, rs_State = run_State r, rs_Nodes = []\<rparr>) runs"
    using assms(2) l q unfolding ListRuns_def by (simp add: Let_def split: if_splits)
  ultimately show ?thesis unfolding Let_def by blast
qed

definition ex_list :: "RunStatus list rpc \<times> db_value" where
  "ex_list = ListRuns (store_DB ex_env) \<lparr>lr_Project = ''api'', lr_Limit = - 1\<rparr> (w_db ex_started)"

lemma ListRuns_bounded_witness:
  "fst ex_list = Inr [\<lparr>rs_RunId = ''r'', rs_State = RunStateRunning, rs_Nodes = []\<rparr>]
   \<and> (\<exists>runs. runs_listed (runs_of (w_db ex_started)) ''api'' 50 runs \<and> map run_ID runs = [''r''])"
proof -
  have f: "fst ex_list = Inr [\<lparr>rs_RunId = ''r'', rs_State = RunStateRunning, rs_Nodes = []\<rparr>]"
    by code_simp
  then have "ListRuns (store_DB ex_env) \<lparr>lr_Project = ''api'', lr_Limit = - 1\<rparr> (w_db ex_started)
      = (Inr [\<lparr>rs_RunId = ''r'', rs_State = RunStateRunning, rs_Nodes = []\<rparr>], snd ex_list)"
    by (simp add: ex_list_def prod_eq_iff)
  moreover have "store_valid (w_db ex_started)"
    using Start_valid [OF ex_world_ok(1) ex_Start [unfolded ex_manager_def]] .
  ultimately show ?thesis using f ListRuns_bounded by (fastforce simp: Let_def)
qed

text \<open>
  \<open>StreamLogs\<close> delivers no line of a named job: it asks the store for the chunks whose job
  ID is the empty string, and the store compares for equality. Whatever the other goroutines append
  between the ticks, every message the client receives has an empty job ID.
\<close>

lemma StreamLogs_no_named_job:
  assumes "store_valid s" and "\<And>f s. f \<in> set fs \<Longrightarrow> store_valid s \<Longrightarrow> store_valid (f s)"
    and "StreamLogs (store_DB env) collect rid fs 0 (s, []) = (q, s', received)"
  shows "\<forall>c \<in> set received. pl_JobId c = [] \<and> pl_RunId c = rid"
  using store.StreamLogs_unnamed [OF assms(3,1)] assms(2) by simp

text \<open>
  As long as each new chunk comes after the earlier ones of the stream in the order of
  \<open>GetLogs\<close>, the client of \<open>StreamLogs\<close> gets every chunk at most once and in order, without a gap:
  what it has received is a prefix of what the store holds.
\<close>

lemma StreamLogs_prefix:
  assumes "store_valid s"
    and "\<And>f s. f \<in> set fs \<Longrightarrow> store_valid s \<Longrightarrow> store_valid (f s) \<and>
           (\<exists>xs. streamed rid (logs_of (f s)) = streamed rid (logs_of s) @ xs)"
    and "StreamLogs (store_DB env) collect rid fs 0 (s, []) = (q, s', received)"
  shows "prefix received (map pb_of_LogChunk (streamed rid (logs_of s')))"
proof -
  obtain n where "received = map pb_of_LogChunk (take n (streamed rid (logs_of s')))"
    using store.StreamLogs_effect [OF assms(3,1)] assms(2) by auto
  then show ?thesis by (simp add: take_map [symmetric] take_is_prefix)
qed

text \<open>A tick after a chunk was appended, and one after a second.\<close>

definition ex_chunk :: "int \<Rightarrow> string \<Rightarrow> LogChunk" where
  "ex_chunk t l = \<lparr>lc_JobID = [], lc_RunID = ''r'', lc_Timestamp = t, lc_Line = l, lc_Stderr = False\<rparr>"

definition ex_stream where
  "ex_stream ts =
     StreamLogs (store_DB ex_env) collect ''r''
       (map (\<lambda>t s. snd (db_AppendLog (store_DB ex_env) (ex_chunk t ''line'') s)) ts) 0 (open_store [], [])"

lemma ex_append_valid:
  "store_valid s \<Longrightarrow> store_valid (snd (db_AppendLog (store_DB ex_env) c s))"
  using store.append_log_inv [of s ex_env c] by (metis prod.collapse)

text \<open>
  The same with a line of a named job before each of them, and with chunks only when they come last.
\<close>

definition ex_named_append :: "int \<Rightarrow> db_value \<Rightarrow> db_value" where
  "ex_named_append t s =
     snd (db_AppendLog (store_DB ex_env) (ex_chunk t ''line'')
       (snd (db_AppendLog (store_DB ex_env) ((ex_chunk t ''hidden'')\<lparr>lc_JobID := ''build''\<rparr>) s)))"

definition ex_last_append :: "int \<Rightarrow> db_value \<Rightarrow> db_value" where
  "ex_last_append t s =
     (let s1 = snd (db_AppendLog (store_DB ex_env) (ex_chunk t ''line'') s);
          old = streamed ''r'' (logs_of s); new = streamed ''r'' (logs_of s1) in
      if take (length old) new = old then s1 else s)"

lemma ex_named_valid: "store_valid s \<Longrightarrow> store_valid (ex_named_append t s)"
  by (simp add: ex_named_append_def ex_append_valid)

lemma ex_last_extends:
  "store_valid s \<Longrightarrow> store_valid (ex_last_append t s) \<and>
     (\<exists>xs. streamed ''r'' (logs_of (ex_last_append t s)) = streamed ''r'' (logs_of s) @ xs)"
  by (auto simp: ex_last_append_def Let_def ex_append_valid intro: append_take_drop_id [symmetric])
    (metis append_take_drop_id)

definition ex_named where
  "ex_named = StreamLogs (store_DB ex_env) collect ''r'' (map ex_named_append [1, 2]) 0 (open_store [], [])"

definition ex_ordered where
  "ex_ordered = StreamLogs (store_DB ex_env) collect ''r'' (map ex_last_append [1, 2]) 0 (open_store [], [])"

lemma ex_named_parts:
  "StreamLogs (store_DB ex_env) collect ''r'' (map ex_named_append [1, 2]) 0 (open_store [], [])
   = (fst ex_named, fst (snd ex_named), snd (snd ex_named))"
  by (simp add: ex_named_def)

lemma ex_ordered_parts:
  "StreamLogs (store_DB ex_env) collect ''r'' (map ex_last_append [1, 2]) 0 (open_store [], [])
   = (fst ex_ordered, fst (snd ex_ordered), snd (snd ex_ordered))"
  by (simp add: ex_ordered_def)

lemma StreamLogs_no_named_job_witness:
  "list_all (\<lambda>c. pl_JobId c = [] \<and> pl_RunId c = ''r'') (snd (snd ex_named))
   \<and> map pl_Line (snd (snd ex_named)) = [''line'', ''line'']"
proof
  show "list_all (\<lambda>c. pl_JobId c = [] \<and> pl_RunId c = ''r'') (snd (snd ex_named))"
    using StreamLogs_no_named_job [OF open_store_valid _ ex_named_parts] ex_named_valid
    by (fastforce simp: list_all_iff)
qed code_simp

lemma StreamLogs_prefix_witness:
  "prefix (snd (snd ex_ordered)) (map pb_of_LogChunk (streamed ''r'' (logs_of (fst (snd ex_ordered)))))
   \<and> map pl_Timestamp (snd (snd ex_ordered)) = [1, 2]"
proof
  show "prefix (snd (snd ex_ordered)) (map pb_of_LogChunk (streamed ''r'' (logs_of (fst (snd ex_ordered)))))"
    using StreamLogs_prefix [OF open_store_valid _ ex_ordered_parts] ex_last_extends by fastforce
qed code_simp

text \<open>
  Without that order the stream goes wrong: a chunk whose timestamp is before one that
  was already sent shifts the list under the counter \<open>seen\<close>; the client gets the later chunk twice
  and the earlier one never.
\<close>

lemma StreamLogs_late_chunk_lost:
  "map pl_Timestamp (snd (snd (ex_stream [2, 1]))) = [2, 2]
   \<and> map lc_Timestamp (streamed ''r'' (logs_of (fst (snd (ex_stream [2, 1]))))) = [1, 2]"
  by code_simp

text \<open>
  \<open>CancelRun\<close> does not stop a run: it changes the state of the run only, so a completion
  that follows overwrites \<open>cancelled\<close>, and a job that was ready is still dispatched.
\<close>

lemma CancelRun_not_sticky:
  "(let s1 = snd (CancelRun (store_DB ex_env) ''r'' (w_db ex_started));
        w2 = Advance ex_scheduler ''r'' ex_spec ex_rc (ex_started\<lparr>w_db := s1\<rparr>);
        w3 = snd (NodeCompleted ex_manager ''r'' ''build'' True w2);
        w4 = snd (NodeCompleted ex_manager ''r'' ''test'' True w3) in
    (runs_of s1 ''r'', registry_sent (w_disp w2), runs_of (w_db w4) ''r''))
   = (Some (''api'', RunStateCancelled), [(''r'', ''build'', Some ex_job)], Some (''api'', RunStateSuccess))"
  by code_simp

end
