(* ===== verification/Registry_Props.thy ===== *)
theory Registry_Props
  imports Api_Server
begin

text \<open>
  The properties of the agent registry: the choice of an agent, the accounting of slots over
  sequences of its operations as the gRPC servers call them.
\<close>

section \<open>One dispatch\<close>

text \<open>
  Property C10: \<open>Dispatch\<close> on a well-formed registry. It reports that no agent is available exactly
  when no connected agent runs fewer jobs than its capacity; when it returns no error, one message,
  the job, went to the stream of a connected agent with room that runs the fewest jobs of all such
  agents, and the count of that agent alone rose by one, to at most its capacity and without
  wrap-around; on every error the agents and the messages are as before.
\<close>

theorem Dispatch_least_loaded:
  assumes "registry_ok r" and "Registry_Dispatch env job r = (q, r')"
  shows "(q = Inl (Errorf ''no agents available'' []) \<longleftrightarrow>
            (\<forall>k a. map_of (rg_agents r) k = Some a \<longrightarrow> sint (ar_Capacity (ac_info a)) \<le> sint (ac_active a)))
     \<and> (case q of
          Inl e \<Rightarrow> rg_agents r' = rg_agents r \<and> rg_wire r' = rg_wire r
        | Inr _ \<Rightarrow> \<exists>k a. map_of (rg_agents r) k = Some a
            \<and> (\<forall>k' b. map_of (rg_agents r) k' = Some b \<and> sint (ac_active b) < sint (ar_Capacity (ac_info b))
                 \<longrightarrow> sint (ac_active a) \<le> sint (ac_active b))
            \<and> sint (ac_active a + 1) = sint (ac_active a) + 1
            \<and> sint (ac_active a + 1) \<le> sint (ar_Capacity (ac_info a))
            \<and> rg_agents r' = AList.update k (a\<lparr>ac_active := ac_active a + 1\<rparr>) (rg_agents r)
            \<and> rg_wire r' = rg_wire r @ [(ac_stream a, job)])"
  using assms
proof (cases rule: Registry_Dispatch_cases)
  case none
  then show ?thesis by (simp add: has_room_def)
next
  case (fault e)
  have "leastLoaded (range_agents env r) \<noteq> None"
  proof
    assume "leastLoaded (range_agents env r) = None"
    with assms(2) fault(1,2) show False by (simp add: Registry_Dispatch_def)
  qed
  then obtain k a where "(k, a) \<in> set (rg_agents r)" "has_room a"
    using leastLoaded_None [of "range_agents env r"] by auto
  then have "map_of (rg_agents r) k = Some a" "has_room a"
    using assms(1) by (simp_all add: registry_ok_def)
  then have "\<not> (\<forall>k a. map_of (rg_agents r) k = Some a \<longrightarrow>
      sint (ar_Capacity (ac_info a)) \<le> sint (ac_active a))"
    unfolding has_room_def by blast
  then show ?thesis using fault by simp
next
  case (sent k a)
  have "\<not> sint (ar_Capacity (ac_info a)) \<le> sint (ac_active a)" using sent(3) by (simp add: has_room_def)
  then have some: "\<not> (\<forall>k a. map_of (rg_agents r) k = Some a \<longrightarrow>
      sint (ar_Capacity (ac_info a)) \<le> sint (ac_active a))"
    using sent(2) by blast
  have least: "\<forall>k' b. map_of (rg_agents r) k' = Some b \<and>
      sint (ac_active b) < sint (ar_Capacity (ac_info b)) \<longrightarrow> sint (ac_active a) \<le> sint (ac_active b)"
    using sent(4) unfolding has_room_def not_le by blast
  have cap: "sint (ac_active a + 1) \<le> sint (ar_Capacity (ac_info a))"
    using sent(3,5) by (simp add: has_room_def)
  show ?thesis
  proof (rule conjI)
    show "q = Inl (Errorf ''no agents available'' []) \<longleftrightarrow>
        (\<forall>k a. map_of (rg_agents r) k = Some a \<longrightarrow> sint (ar_Capacity (ac_info a)) \<le> sint (ac_active a))"
      using some sent(1) by simp
  qed (unfold sent(1) sum.case, use sent(2,5,6,7) least cap in blast)
qed

text \<open>A registry with two agents, of room 10 and 2, which run two jobs and one.\<close>

definition two_agents :: Registry where
  "two_agents =
     (let reg = (\<lambda>i c. \<lparr>ar_AgentId = i, ar_Name = i, ar_Labels = [], ar_Capacity = c\<rparr>) in
      \<lparr>rg_agents =
         [(''big'', \<lparr>ac_info = reg ''big'' 10, ac_stream = 1, ac_active = 2\<rparr>),
          (''small'', \<lparr>ac_info = reg ''small'' 2, ac_stream = 2, ac_active = 1\<rparr>)],
       rg_calls = 0, rg_wire = []\<rparr>)"

definition steady_net :: net_env where
  "steady_net = \<lparr>ne_rank = (\<lambda>_ _. 0), ne_send_fault = (\<lambda>_. None)\<rparr>"

definition some_job :: JobDispatch where
  "some_job = \<lparr>jd_JobId = ''j'', jd_RunId = ''r'', jd_Spec = None, jd_Env = []\<rparr>"

lemma two_agents_ok: "registry_ok two_agents"
  by (auto simp: registry_ok_def two_agents_def entry_ok_def conn_ok_def Let_def
      simp del: map_of_eq_Some_iff split: if_splits)

theorem Dispatch_least_loaded_witness:
  "fst (Registry_Dispatch steady_net some_job two_agents) \<noteq> Inl (Errorf ''no agents available'' [])"
proof -
  have "map_of (rg_agents two_agents) ''big'' = Some \<lparr>ac_info = \<lparr>ar_AgentId = ''big'', ar_Name = ''big'',
      ar_Labels = [], ar_Capacity = 10\<rparr>, ac_stream = 1, ac_active = 2\<rparr>"
    by (simp add: two_agents_def Let_def)
  then show ?thesis
    using Dispatch_least_loaded [OF two_agents_ok prod.collapse [symmetric], of steady_net some_job]
    by fastforce
qed

text \<open>
  The agent with the fewest jobs need not be the one with the most remaining capacity,
  which the comment on \<open>leastLoaded\<close> promises: with eight free slots on one agent and one on
  the other, the job goes to the other.
\<close>

lemma leastLoaded_not_most_remaining:
  "map_option fst (leastLoaded (range_agents steady_net two_agents)) = Some ''small''
   \<and> map (\<lambda>(k, a). (k, agent_slots a)) (rg_agents two_agents) = [(''big'', 8), (''small'', 1)]"
  by code_simp

text \<open>
  \<open>JobDone\<close> undoes the count of a dispatch. After a dispatch that succeeded there is a
  connected agent for which \<open>JobDone\<close>, called with the ID of that agent, gives back the agents as
  they were; called with an ID that no agent has, it changes nothing.
\<close>

lemma JobDone_undoes_dispatch:
  assumes "registry_ok r" and "Registry_Dispatch env job r = (Inr u, r')"
  shows "(\<exists>k \<in> fst ` set (rg_agents r'). map_of (rg_agents (JobDone k r')) = map_of (rg_agents r))
     \<and> (\<forall>i. i \<notin> fst ` set (rg_agents r') \<longrightarrow> JobDone i r' = r')"
  using assms
proof (cases rule: Registry_Dispatch_cases)
  case (sent k a)
  let ?a = "a\<lparr>ac_active := ac_active a + 1\<rparr>"
  have k: "map_of (rg_agents r') k = Some ?a" by (simp add: sent(6) update_conv')
  have "0 \<le> sint (ac_active a)"
    using registry_ok_entry [OF assms(1) sent(2)] by (simp add: entry_ok_def conn_ok_def)
  then have pos: "0 < sint (ac_active ?a)" using sent(5) by simp
  have "map_of (rg_agents (JobDone k r')) = (map_of (rg_agents r))(k \<mapsto> a)"
    using k pos by (simp add: JobDone_def update_conv' sent(6))
  also have "\<dots> = map_of (rg_agents r)" using sent(2) by (simp add: fun_upd_idem)
  finally have "map_of (rg_agents (JobDone k r')) = map_of (rg_agents r)" .
  moreover have "k \<in> fst ` set (rg_agents r')" using k by (metis map_of_SomeD fst_conv imageI)
  ultimately show ?thesis using JobDone_unknown by blast
qed simp_all

definition dispatched_two :: Registry where
  "dispatched_two = snd (Registry_Dispatch steady_net some_job two_agents)"

lemma JobDone_undoes_dispatch_witness: "JobDone ''j'' dispatched_two = dispatched_two"
proof -
  have "fst (Registry_Dispatch steady_net some_job two_agents) = Inr ()" by code_simp
  then have "Registry_Dispatch steady_net some_job two_agents = (Inr (), dispatched_two)"
    by (simp add: dispatched_two_def prod_eq_iff)
  moreover have "''j'' \<notin> fst ` set (rg_agents dispatched_two)" by code_simp
  ultimately show ?thesis using JobDone_undoes_dispatch [OF two_agents_ok] by blast
qed

section \<open>The slots over a sequence of calls\<close>

text \<open>The calls that the gRPC servers and the scheduler make.\<close>

datatype registry_op =
    Op_connect AgentRegistration nat
  | Op_disconnect AgentRegistration
  | Op_dispatch JobDispatch
  | Op_result JobResult

fun apply_op :: "net_env \<Rightarrow> registry_op \<Rightarrow> Registry \<Rightarrow> Registry" where
  "apply_op net (Op_connect reg stream) r = Register_connect reg stream r"
| "apply_op net (Op_disconnect reg) r = Register_disconnect reg r"
| "apply_op net (Op_dispatch job) r = snd (Registry_Dispatch net job r)"
| "apply_op net (Op_result result) r = snd (SendResult result r)"

fun op_capacity :: "registry_op \<Rightarrow> int" where
  "op_capacity (Op_connect reg _) = max 0 (sint (ar_Capacity reg))"
| "op_capacity _ = 0"

text \<open>No result carries the ID of an agent as its job ID.\<close>

definition op_ids :: "registry_op list \<Rightarrow> string set" where
  "op_ids ops = (\<Union>op \<in> set ops. case op of Op_connect reg _ \<Rightarrow> {ar_AgentId reg} | _ \<Rightarrow> {})"

definition results_name_no_agent :: "string set \<Rightarrow> registry_op list \<Rightarrow> bool" where
  "results_name_no_agent ids ops \<longleftrightarrow>
     (\<forall>op \<in> set ops. case op of Op_result res \<Rightarrow> jr_JobId res \<notin> ids | _ \<Rightarrow> True)"

lemma sum_list_update_le:
  fixes f :: "'b \<Rightarrow> int"
  assumes "\<And>a. 0 \<le> f a" and "distinct (map fst al)"
  shows "(\<Sum>ka \<leftarrow> AList.update k b al. f (snd ka)) \<le> (\<Sum>ka \<leftarrow> al. f (snd ka)) + f b"
  using assms(2)
proof (induction al)
  case (Cons ka al)
  then show ?case using assms(1) [of "snd ka"] by (cases ka) simp
qed simp

lemma sum_list_delete_le:
  fixes f :: "'b \<Rightarrow> int"
  assumes "\<And>a. 0 \<le> f a"
  shows "(\<Sum>ka \<leftarrow> AList.delete k al. f (snd ka)) \<le> (\<Sum>ka \<leftarrow> al. f (snd ka))"
proof (induction al)
  case (Cons ka al)
  then show ?case using assms [of "snd ka"] by (cases ka) simp
qed simp

lemma agent_slots_nonneg: "0 \<le> agent_slots a"
  by (simp add: agent_slots_def)

lemma apply_op_step:
  assumes ok: "registry_ok r" and "fst ` set (rg_agents r) \<subseteq> ids" and "results_name_no_agent ids [op]"
  shows "registry_ok (apply_op net op r)
    \<and> fst ` set (rg_agents (apply_op net op r)) \<subseteq> ids \<union> op_ids [op]
    \<and> int (length (rg_wire (apply_op net op r))) + free_slots (apply_op net op r)
        \<le> int (length (rg_wire r)) + free_slots r + op_capacity op"
proof (cases op)
  case (Op_connect reg stream)
  let ?a = "\<lparr>ac_info = reg, ac_stream = stream, ac_active = 0\<rparr>"
  have "distinct (map fst (rg_agents r))" using ok by (simp add: registry_ok_def)
  with sum_list_update_le [of agent_slots, OF agent_slots_nonneg]
  have "free_slots (Register_connect reg stream r) \<le> free_slots r + agent_slots ?a"
    by (simp add: free_slots_def Register_connect_def)
  moreover have "fst ` set (AList.update (ar_AgentId reg) ?a (rg_agents r))
      = insert (ar_AgentId reg) (fst ` set (rg_agents r))"
    by (simp add: dom_map_of_conv_image_fst [symmetric] update_conv')
  ultimately show ?thesis using assms
    Register_connect_ok [OF ok, of reg stream]
    by (auto simp: Op_connect op_ids_def agent_slots_def Register_connect_def)
next
  case (Op_disconnect reg)
  have "free_slots (Register_disconnect reg r) \<le> free_slots r"
    using sum_list_delete_le [of agent_slots, OF agent_slots_nonneg]
    by (simp add: free_slots_def Register_disconnect_def)
  moreover have "fst ` set (AList.delete (ar_AgentId reg) (rg_agents r)) \<subseteq> fst ` set (rg_agents r)"
    by (auto simp: dom_map_of_conv_image_fst [symmetric] delete_conv' split: if_splits)
  ultimately show ?thesis using assms
    Register_disconnect_ok [OF ok, of reg]
    by (auto simp: Op_disconnect Register_disconnect_def)
next
  case (Op_dispatch job)
  obtain q r' where d: "Registry_Dispatch net job r = (q, r')" by (cases "Registry_Dispatch net job r")
  have "int (length (rg_wire r')) = int (length (rg_wire r)) + (case q of Inl _ \<Rightarrow> 0 | Inr _ \<Rightarrow> 1)"
    using ok d by (cases rule: Registry_Dispatch_cases) simp_all
  then show ?thesis
    using assms Registry_Dispatch_ok [OF ok d] Registry_Dispatch_slots [OF ok d] dispatch_keys [OF ok d]
    by (auto simp: Op_dispatch d)
next
  case (Op_result res)
  then have "JobDone (jr_JobId res) r = r"
    using assms(2,3) by (intro JobDone_unknown) (auto simp: results_name_no_agent_def)
  with assms show ?thesis by (auto simp: Op_result SendResult_def)
qed

lemma apply_ops_bound:
  assumes "registry_ok r" and "fst ` set (rg_agents r) \<subseteq> ids" and "op_ids ops \<subseteq> ids"
    and "results_name_no_agent ids ops"
  shows "int (length (rg_wire (fold (apply_op net) ops r))) + free_slots (fold (apply_op net) ops r)
    \<le> int (length (rg_wire r)) + free_slots r + (\<Sum>op \<leftarrow> ops. op_capacity op)"
  using assms
proof (induction ops arbitrary: r)
  case (Cons op ops)
  have "results_name_no_agent ids [op]" using Cons.prems(4) by (simp add: results_name_no_agent_def)
  note one = apply_op_step [OF Cons.prems(1,2) this, of net]
  have "op_ids [op] \<subseteq> ids" using Cons.prems(3) by (simp add: op_ids_def)
  then have "fst ` set (rg_agents (apply_op net op r)) \<subseteq> ids" using one by blast
  with Cons.IH [of "apply_op net op r"] one Cons.prems(3,4)
  have "int (length (rg_wire (fold (apply_op net) ops (apply_op net op r))))
      + free_slots (fold (apply_op net) ops (apply_op net op r))
    \<le> int (length (rg_wire (apply_op net op r))) + free_slots (apply_op net op r)
      + (\<Sum>op \<leftarrow> ops. op_capacity op)"
    by (simp add: op_ids_def results_name_no_agent_def)
  with one show ?case by simp
qed simp

text \<open>
  Property C22: a slot that a job took is never given back by a result. \<open>SendResult\<close> hands the job ID
  of the result to \<open>JobDone\<close>, which expects an agent ID. So, as long as no job is named like an agent,
  however many results come in, the number of jobs ever sent is at most the sum of the capacities of
  the registrations: an agent with capacity 4 serves four jobs and no more until it registers
  again.
\<close>

theorem slots_never_freed:
  assumes "results_name_no_agent (op_ids ops) ops"
  shows "int (length (rg_wire (fold (apply_op net) ops registry_New))) \<le> (\<Sum>op \<leftarrow> ops. op_capacity op)"
proof -
  have "int (length (rg_wire (fold (apply_op net) ops registry_New)))
      + free_slots (fold (apply_op net) ops registry_New) \<le> (\<Sum>op \<leftarrow> ops. op_capacity op)"
    using apply_ops_bound [OF registry_ok_New _ order_refl assms, of net]
    by (simp add: registry_New_def free_slots_def)
  then show ?thesis using free_slots_nonneg [of "fold (apply_op net) ops registry_New"] by linarith
qed

text \<open>An agent of capacity 1 gets a job, reports its result, and is not given the next job.\<close>

definition leak_ops :: "registry_op list" where
  "leak_ops =
     [Op_connect \<lparr>ar_AgentId = ''a'', ar_Name = ''a'', ar_Labels = [], ar_Capacity = 1\<rparr> 0,
      Op_dispatch some_job,
      Op_result \<lparr>jr_JobId = ''j'', jr_RunId = ''r'', jr_Success = True, jr_ExitCode = 0\<rparr>,
      Op_dispatch some_job]"

theorem slots_never_freed_witness:
  "int (length (rg_wire (fold (apply_op steady_net) leak_ops registry_New))) \<le> 1"
  using slots_never_freed [of leak_ops steady_net]
  by (simp add: leak_ops_def results_name_no_agent_def op_ids_def)

end
