(* ===== verification/Utf8.thy ===== *)
theory Utf8
  imports Go_Prelude
begin

text \<open>
  \<open>unicode/utf8.ValidString\<close> of the standard library, on strings as sequences of bytes. A text that is not
  valid UTF-8 cannot be a \<open>string\<close> field of a protobuf message, nor a \<open>TEXT\<close> of a PostgreSQL database with
  the encoding UTF8, nor does it survive JSON.
\<close>

definition utf8_cont :: "nat \<Rightarrow> bool" where
  "utf8_cont b \<longleftrightarrow> 128 \<le> b \<and> b \<le> 191"

text \<open>The range of the second byte after a first byte: it excludes overlong forms, surrogates, and what is beyond 10FFFF.\<close>

definition utf8_second :: "nat \<Rightarrow> nat \<Rightarrow> bool" where
  "utf8_second a b \<longleftrightarrow>
     (if a = 224 then 160 \<le> b \<and> b \<le> 191
      else if a = 237 then 128 \<le> b \<and> b \<le> 159
      else if a = 240 then 144 \<le> b \<and> b \<le> 191
      else if a = 244 then 128 \<le> b \<and> b \<le> 143
      else utf8_cont b)"

fun utf8_bytes :: "nat list \<Rightarrow> bool" where
  "utf8_bytes [] = True"
| "utf8_bytes (a # bs) =
     (if a < 128 then utf8_bytes bs
      else case bs of
        [] \<Rightarrow> False
      | b # cs \<Rightarrow>
          if 194 \<le> a \<and> a \<le> 223 then utf8_cont b \<and> utf8_bytes cs
          else (case cs of
            [] \<Rightarrow> False
          | c # ds \<Rightarrow>
              if 224 \<le> a \<and> a \<le> 239 then utf8_second a b \<and> utf8_cont c \<and> utf8_bytes ds
              else (case ds of
                [] \<Rightarrow> False
              | d # es \<Rightarrow>
                  240 \<le> a \<and> a \<le> 244 \<and> utf8_second a b \<and> utf8_cont c \<and> utf8_cont d \<and> utf8_bytes es)))"

definition utf8_valid :: "string \<Rightarrow> bool" where
  "utf8_valid s \<longleftrightarrow> utf8_bytes (map of_char s)"

lemma utf8_ascii: "(\<And>c. c \<in> set s \<Longrightarrow> of_char c < (128 :: nat)) \<Longrightarrow> utf8_valid s"
  unfolding utf8_valid_def by (induction s) auto

lemma utf8_Nil [simp]: "utf8_valid []"
  by (simp add: utf8_valid_def)

text \<open>A text, an accented letter, a Euro sign and a musical clef; a lone byte, an overlong slash, a surrogate.\<close>

lemma utf8_examples:
  "utf8_valid ''make'' \<and> utf8_valid [CHR 0xC3, CHR 0xA9] \<and> utf8_valid [CHR 0xE2, CHR 0x82, CHR 0xAC]
   \<and> utf8_valid [CHR 0xF0, CHR 0x9D, CHR 0x84, CHR 0x9E]"
  "\<not> utf8_valid [CHR 0xFF] \<and> \<not> utf8_valid [CHR 0xC0, CHR 0xAF] \<and> \<not> utf8_valid [CHR 0xED, CHR 0xA0, CHR 0x80]"
  by code_simp+

text \<open>What a PostgreSQL database with the encoding UTF8 takes as a text: no NUL byte either.\<close>

definition pg_text :: "string \<Rightarrow> bool" where
  "pg_text s \<longleftrightarrow> utf8_valid s \<and> CHR 0x00 \<notin> set s"

end
