(* ===== verification/Db_Props.thy ===== *)
theory Db_Props
  imports Db_Value Utf8
begin

text \<open>
  The properties of the two backends: what was written is read back, and a client cannot tell
  PostgreSQL from SQLite by the replies to its calls, as long as its texts are valid UTF-8 without NUL
  bytes and no limit is negative.
\<close>

section \<open>Sequences of calls\<close>

datatype db_op =
    Op_CreateRun PipelineRun
  | Op_GetRun string
  | Op_UpdateRunState string RunState
  | Op_ListRuns string int
  | Op_UpsertNode NodeRecord
  | Op_GetNode string string
  | Op_ListNodes string
  | Op_AppendLog LogChunk
  | Op_GetLogs string string

datatype db_reply =
    Reply "unit result"
  | Reply_run "PipelineRun result"
  | Reply_runs "PipelineRun list result"
  | Reply_node "NodeRecord result"
  | Reply_nodes "NodeRecord list result"
  | Reply_logs "LogChunk list result"

fun db_exec :: "'s DB \<Rightarrow> db_op \<Rightarrow> 's \<Rightarrow> db_reply \<times> 's" where
  "db_exec D (Op_CreateRun r) s = map_prod Reply id (db_CreateRun D r s)"
| "db_exec D (Op_GetRun i) s = map_prod Reply_run id (db_GetRun D i s)"
| "db_exec D (Op_UpdateRunState i st) s = map_prod Reply id (db_UpdateRunState D i st s)"
| "db_exec D (Op_ListRuns p l) s = map_prod Reply_runs id (db_ListRuns D p l s)"
| "db_exec D (Op_UpsertNode n) s = map_prod Reply id (db_UpsertNode D n s)"
| "db_exec D (Op_GetNode i n) s = map_prod Reply_node id (db_GetNode D i n s)"
| "db_exec D (Op_ListNodes i) s = map_prod Reply_nodes id (db_ListNodes D i s)"
| "db_exec D (Op_AppendLog c) s = map_prod Reply id (db_AppendLog D c s)"
| "db_exec D (Op_GetLogs i j) s = map_prod Reply_logs id (db_GetLogs D i j s)"

fun db_replies :: "'s DB \<Rightarrow> db_op list \<Rightarrow> 's \<Rightarrow> db_reply list" where
  "db_replies D [] s = []"
| "db_replies D (op # ops) s = (case db_exec D op s of (r, s') \<Rightarrow> r # db_replies D ops s')"

definition limit_ok :: "db_op \<Rightarrow> bool" where
  "limit_ok op = (case op of Op_ListRuns _ l \<Rightarrow> 0 \<le> l | _ \<Rightarrow> True)"

text \<open>The texts that a call sends to the database, as parameters of its statement.\<close>

definition op_texts :: "db_op \<Rightarrow> string list" where
  "op_texts op =
     (case op of
        Op_CreateRun r \<Rightarrow> [run_ID r, run_Project r, run_State r]
      | Op_GetRun i \<Rightarrow> [i]
      | Op_UpdateRunState i st \<Rightarrow> [st, i]
      | Op_ListRuns p _ \<Rightarrow> [p]
      | Op_UpsertNode n \<Rightarrow> [nr_RunID n, nr_NodeID n, nr_JobID n, nr_State n]
      | Op_GetNode i n \<Rightarrow> [i, n]
      | Op_ListNodes i \<Rightarrow> [i]
      | Op_AppendLog c \<Rightarrow> [lc_JobID c, lc_RunID c, lc_Line c]
      | Op_GetLogs i j \<Rightarrow> [i, j])"

section \<open>The simulation\<close>

text \<open>A SQLite database as a PostgreSQL one: the column \<open>stderr\<close> becomes a truth value.\<close>

definition pg_log_of :: "sqlite_log_row \<Rightarrow> postgres_log_row" where
  "pg_log_of r =
     \<lparr>pg_id = sl_id r, pg_job_id = sl_job_id r, pg_run_id = sl_run_id r,
      pg_timestamp = sl_timestamp r, pg_line = sl_line r, pg_stderr = sl_stderr r \<noteq> 0\<rparr>"

definition pg_of :: "SQLiteDB \<Rightarrow> PostgresDB" where
  "pg_of db =
     \<lparr>st_runs = st_runs db, st_nodes = st_nodes db, st_stmts = st_stmts db,
      st_next_log = st_next_log db, pg_logs = map pg_log_of (sq_logs db)\<rparr>"

lemma pg_of_sel [simp]:
  "st_runs (pg_of db) = st_runs db" "st_nodes (pg_of db) = st_nodes db"
  "st_stmts (pg_of db) = st_stmts db" "st_next_log (pg_of db) = st_next_log db"
  "pg_logs (pg_of db) = map pg_log_of (sq_logs db)"
  by (simp_all add: pg_of_def)

lemma pg_of_update [simp]:
  "pg_of (db\<lparr>st_stmts := n\<rparr>) = (pg_of db)\<lparr>st_stmts := n\<rparr>"
  "pg_of (db\<lparr>st_runs := rs\<rparr>) = (pg_of db)\<lparr>st_runs := rs\<rparr>"
  "pg_of (db\<lparr>st_nodes := ns\<rparr>) = (pg_of db)\<lparr>st_nodes := ns\<rparr>"
  "pg_of (db\<lparr>sq_logs := ls\<rparr>) = (pg_of db)\<lparr>pg_logs := map pg_log_of ls\<rparr>"
  "pg_of (db\<lparr>st_next_log := k\<rparr>) = (pg_of db)\<lparr>st_next_log := k\<rparr>"
  by (simp_all add: pg_of_def)

text \<open>A statement of which the bodies correspond gives the same on both.\<close>

lemma sql_exec_pg:
  assumes "\<And>n db. body2 n (pg_of db) = map_prod id pg_of (body1 n db)"
  shows "sql_exec env body2 (pg_of db) = map_prod id pg_of (sql_exec env body1 db)"
  by (simp add: sql_exec_def Let_def assms [of _ "db\<lparr>st_stmts := _\<rparr>", simplified] split: option.split)

lemma scan_pg_log: "Postgres_scan_log (pg_log_of r) = SQLite_scan_log r"
  by (simp add: Postgres_scan_log_def pg_log_of_def SQLite_scan_log_def)

lemma pg_log_sel [simp]:
  "pg_id (pg_log_of r) = sl_id r" "pg_job_id (pg_log_of r) = sl_job_id r"
  "pg_run_id (pg_log_of r) = sl_run_id r" "pg_timestamp (pg_log_of r) = sl_timestamp r"
  by (simp_all add: pg_log_of_def)

lemma CreateRun_pg: "list_all (env_text env) [run_ID r, run_Project r, run_State r] \<Longrightarrow>
    Postgres_CreateRun env r (pg_of db) = map_prod id pg_of (SQLite_CreateRun env r db)"
  apply (simp only: Postgres_CreateRun_def SQLite_CreateRun_def pg_exec_takes)
  by (rule sql_exec_pg) (simp split: option.split)

lemma GetRun_pg: "list_all (env_text env) [i] \<Longrightarrow>
    Postgres_GetRun env i (pg_of db) = map_prod id pg_of (SQLite_GetRun env i db)"
  apply (simp only: Postgres_GetRun_def SQLite_GetRun_def pg_exec_takes)
  by (subst sql_exec_pg [where ?body1.0 = "\<lambda>_ db. case select_pk rr_id i (st_runs db) of
        None \<Rightarrow> (Inl ErrNoRows, db) | Some r \<Rightarrow> (Inr (scan_run r), db)"])
    (simp_all split: option.split prod.split sum.split)

lemma UpdateRunState_pg:
  "list_all (env_text env) [st, i] \<Longrightarrow>
    Postgres_UpdateRunState env i st (pg_of db) = map_prod id pg_of (SQLite_UpdateRunState env i st db)"
  apply (simp only: Postgres_UpdateRunState_def SQLite_UpdateRunState_def pg_exec_takes)
  by (rule sql_exec_pg) simp

lemma ListRuns_pg:
  "list_all (env_text env) [p] \<Longrightarrow>
    0 \<le> l \<Longrightarrow> Postgres_ListRuns env p l (pg_of db) = map_prod id pg_of (SQLite_ListRuns env p l db)"
  apply (simp only: Postgres_ListRuns_def SQLite_ListRuns_def pg_exec_takes)
  by (rule sql_exec_pg) simp

lemma UpsertNode_pg:
  "list_all (env_text env) [nr_RunID n, nr_NodeID n, nr_JobID n, nr_State n] \<Longrightarrow>
    Postgres_UpsertNode env n (pg_of db) = map_prod id pg_of (SQLite_UpsertNode env n db)"
  apply (simp only: Postgres_UpsertNode_def SQLite_UpsertNode_def pg_exec_takes)
  by (rule sql_exec_pg) simp

lemma GetNode_pg:
  "list_all (env_text env) [i, n] \<Longrightarrow>
    Postgres_GetNode env i n (pg_of db) = map_prod id pg_of (SQLite_GetNode env i n db)"
  apply (simp only: Postgres_GetNode_def SQLite_GetNode_def pg_exec_takes)
  by (subst sql_exec_pg [where ?body1.0 = "\<lambda>_ db. case select_pk node_key (i, n) (st_nodes db) of
        None \<Rightarrow> (Inl ErrNoRows, db) | Some r \<Rightarrow> (Inr (scan_node r), db)"])
    (simp_all split: option.split prod.split sum.split)

lemma ListNodes_pg:
  "list_all (env_text env) [i] \<Longrightarrow>
    Postgres_ListNodes env i (pg_of db) = map_prod id pg_of (SQLite_ListNodes env i db)"
  apply (simp only: Postgres_ListNodes_def SQLite_ListNodes_def pg_exec_takes)
  by (rule sql_exec_pg) simp

lemma AppendLog_pg:
  "list_all (env_text env) [lc_JobID c, lc_RunID c, lc_Line c] \<Longrightarrow>
    Postgres_AppendLog env c (pg_of db) = map_prod id pg_of (SQLite_AppendLog env c db)"
  apply (simp only: Postgres_AppendLog_def SQLite_AppendLog_def pg_exec_takes)
  by (rule sql_exec_pg) (simp add: Let_def pg_log_of_def)

lemma GetLogs_pg:
  "list_all (env_text env) [i, j] \<Longrightarrow>
    Postgres_GetLogs env i j (pg_of db) = map_prod id pg_of (SQLite_GetLogs env i j db)"
  apply (simp only: Postgres_GetLogs_def SQLite_GetLogs_def pg_exec_takes)
  by (rule sql_exec_pg) (simp add: filter_map sort_key_map comp_def scan_pg_log)

lemmas backend_pg =
  CreateRun_pg GetRun_pg UpdateRunState_pg ListRuns_pg UpsertNode_pg GetNode_pg ListNodes_pg
  AppendLog_pg GetLogs_pg

lemma db_exec_pg:
  assumes "limit_ok op" "list_all (env_text env) (op_texts op)"
  shows "db_exec (Postgres_DB env) op (pg_of db) = map_prod id pg_of (db_exec (SQLite_DB env) op db)"
  using assms
  by (cases op) (simp_all add: limit_ok_def op_texts_def backend_pg prod.map_comp comp_def)

lemma db_replies_pg:
  "\<forall>op \<in> set ops. limit_ok op \<and> list_all (env_text env) (op_texts op) \<Longrightarrow>
     db_replies (Postgres_DB env) ops (pg_of db) = db_replies (SQLite_DB env) ops db"
  by (induction ops arbitrary: db) (simp_all add: db_exec_pg split: prod.split)

text \<open>
  Property C11: where the two backends are interchangeable, and where not. On a PostgreSQL database
  that takes exactly the texts that are valid UTF-8 without NUL bytes (the encoding UTF8), with the
  same engine decisions for both (which statements fail, the clock, the order of unsorted rows),
  every sequence of calls of the interface \<open>DB\<close> on fresh databases gets the same replies from
  PostgreSQL as from SQLite, errors included, provided no call of \<open>ListRuns\<close> has a negative limit and
  all texts in the calls are valid UTF-8 without NUL. A log chunk of which the line is not such a
  text is stored and read back by SQLite, at a database where no statement fails, while PostgreSQL
  refuses it with an error and stores nothing of it.
\<close>

theorem backends_agree:
  assumes "env_text env = pg_text"
  shows "((\<forall>op \<in> set ops. limit_ok op \<and> list_all pg_text (op_texts op)) \<longrightarrow>
      db_replies (Postgres_DB env) ops Postgres_migrate_new = db_replies (SQLite_DB env) ops SQLite_migrate_new)
    \<and> (\<not> pg_text (lc_Line chunk) \<and> (\<forall>n. env_fault env n = None) \<longrightarrow>
      db_replies (SQLite_DB env) [Op_AppendLog chunk, Op_GetLogs (lc_RunID chunk) (lc_JobID chunk)] SQLite_migrate_new
        = [Reply (Inr ()), Reply_logs (Inr [chunk])]
      \<and> (\<exists>e. fst (db_exec (Postgres_DB env) (Op_AppendLog chunk) pdb) = Reply (Inl e))
      \<and> pg_logs (snd (db_exec (Postgres_DB env) (Op_AppendLog chunk) pdb)) = pg_logs pdb)"
proof (rule conjI)
  have fresh: "Postgres_migrate_new = pg_of SQLite_migrate_new"
    by (simp add: Postgres_migrate_new_def SQLite_migrate_new_def pg_of_def)
  show "(\<forall>op \<in> set ops. limit_ok op \<and> list_all pg_text (op_texts op)) \<longrightarrow>
      db_replies (Postgres_DB env) ops Postgres_migrate_new = db_replies (SQLite_DB env) ops SQLite_migrate_new"
    using db_replies_pg [of ops env SQLite_migrate_new] by (simp add: assms fresh)
  have "SQLite_scan_log \<lparr>sl_id = k, sl_job_id = lc_JobID chunk, sl_run_id = lc_RunID chunk,
      sl_timestamp = lc_Timestamp chunk, sl_line = lc_Line chunk,
      sl_stderr = if lc_Stderr chunk then 1 else 0\<rparr> = chunk" for k
    by (simp add: SQLite_scan_log_def)
  then show "\<not> pg_text (lc_Line chunk) \<and> (\<forall>n. env_fault env n = None) \<longrightarrow>
      db_replies (SQLite_DB env) [Op_AppendLog chunk, Op_GetLogs (lc_RunID chunk) (lc_JobID chunk)] SQLite_migrate_new
        = [Reply (Inr ()), Reply_logs (Inr [chunk])]
      \<and> (\<exists>e. fst (db_exec (Postgres_DB env) (Op_AppendLog chunk) pdb) = Reply (Inl e))
      \<and> pg_logs (snd (db_exec (Postgres_DB env) (Op_AppendLog chunk) pdb)) = pg_logs pdb"
    by (simp add: SQLite_DB_def Postgres_DB_def SQLite_AppendLog_def SQLite_GetLogs_def Postgres_AppendLog_def
        pg_exec_def pg_env_def sql_exec_def assms SQLite_migrate_new_def Let_def)
qed

text \<open>What was written is read back, with times cut to milliseconds.\<close>

lemma select_pk_append: "k \<notin> key ` set tbl \<Longrightarrow> select_pk key k (tbl @ [row]) = select_pk key k [row]"
  by (induction tbl) (auto simp: select_pk_def)

lemma select_pk_insert:
  "insert_pk key row tbl = Some tbl' \<Longrightarrow> select_pk key (key row) tbl' = Some row"
  by (auto simp: insert_pk_def select_pk_append split: if_splits) (simp add: select_pk_def)

lemma select_pk_upsert: "select_pk key (key row) (upsert_pk key row tbl) = Some row"
proof -
  have "find (\<lambda>r. key r = key row) (map (\<lambda>r. if key r = key row then row else r) tbl) = Some row"
    if "key row \<in> key ` set tbl" using that by (induction tbl) auto
  then show ?thesis
    using select_pk_append [of "key row" key tbl row] by (simp add: upsert_pk_def select_pk_def)
qed

definition demo_env :: sql_env where
  "demo_env =
     \<lparr>env_fault = (\<lambda>_. None), env_now = (\<lambda>n. int n * 1000000),
      env_run_rank = (\<lambda>_ _. 0), env_node_rank = (\<lambda>_ _. 0), env_text = pg_text\<rparr>"

definition demo_log :: LogChunk where
  "demo_log = \<lparr>lc_JobID = ''j'', lc_RunID = ''r'', lc_Timestamp = 5, lc_Line = ''hi'', lc_Stderr = True\<rparr>"

definition demo_nul :: LogChunk where
  "demo_nul = demo_log\<lparr>lc_Line := [CHR 0x00]\<rparr>"

theorem backends_agree_witness:
  "db_replies (Postgres_DB demo_env) [Op_AppendLog demo_log, Op_GetLogs ''r'' ''j''] Postgres_migrate_new
     = [Reply (Inr ()), Reply_logs (Inr [demo_log])]
   \<and> (\<exists>e. fst (db_exec (Postgres_DB demo_env) (Op_AppendLog demo_nul) Postgres_migrate_new) = Reply (Inl e))
   \<and> db_replies (SQLite_DB demo_env) [Op_AppendLog demo_nul, Op_GetLogs ''r'' ''j''] SQLite_migrate_new
     = [Reply (Inr ()), Reply_logs (Inr [demo_nul])]"
proof -
  let ?ops = "[Op_AppendLog demo_log, Op_GetLogs ''r'' ''j'']"
  have sq: "db_replies (SQLite_DB demo_env) ?ops SQLite_migrate_new
      = [Reply (Inr ()), Reply_logs (Inr [demo_log])]" by code_simp
  have env: "env_text demo_env = pg_text" by (simp add: demo_env_def)
  have "list_all (\<lambda>op. limit_ok op \<and> list_all pg_text (op_texts op)) ?ops" by code_simp
  then have "db_replies (Postgres_DB demo_env) ?ops Postgres_migrate_new
      = [Reply (Inr ()), Reply_logs (Inr [demo_log])]"
    using backends_agree [OF env, of ?ops] sq by simp
  moreover have "\<not> pg_text (lc_Line demo_nul) \<and> (\<forall>n. env_fault demo_env n = None)"
    by (simp add: demo_nul_def pg_text_def demo_env_def)
  moreover have "lc_RunID demo_nul = ''r''" "lc_JobID demo_nul = ''j''"
    by (simp_all add: demo_nul_def demo_log_def)
  ultimately show ?thesis
    using backends_agree [OF env, of "[]" demo_nul Postgres_migrate_new] by simp
qed

text \<open>
  \<open>GetRun\<close> after \<open>CreateRun\<close>, on either backend. When both return no error, the run read
  is the run written with its two times cut to whole milliseconds; and when the first returned
  no error, the second can only fail through the engine, not with \<open>sql.ErrNoRows\<close>.
\<close>

lemma GetRun_after_CreateRun:
  assumes "db_CreateRun (store_DB env) run s = (Inr u, s1)"
    and "db_GetRun (store_DB env) (run_ID run) s1 = (q, s2)"
  shows "(case q of
      Inr r \<Rightarrow> r = run\<lparr>run_CreatedAt := time_UnixMilli (UnixMilli (run_CreatedAt run)),
                      run_UpdatedAt := time_UnixMilli (UnixMilli (run_UpdatedAt run))\<rparr>
    | Inl e \<Rightarrow> \<exists>m. e = Wrapf ''get run %s'' [run_ID run] (DriverErr m))"
proof -
  have row: "scan_run (row_of_run run) = run\<lparr>run_CreatedAt := time_UnixMilli (UnixMilli (run_CreatedAt run)),
      run_UpdatedAt := time_UnixMilli (UnixMilli (run_UpdatedAt run))\<rparr>"
    by (simp add: scan_run_def row_of_run_def)
  have key: "rr_id (row_of_run run) = run_ID run" by simp
  from assms(1) [unfolded store_DB_sel] show ?thesis
  proof (cases rule: db_callE)
    case (sqlite db db1)
    then obtain rs where "insert_pk rr_id (row_of_run run) (st_runs db) = Some rs" "st_runs db1 = rs"
      by (auto simp: SQLite_CreateRun_def sql_exec_def Let_def split: option.splits)
    with select_pk_insert have "select_pk rr_id (run_ID run) (st_runs db1) = Some (row_of_run run)"
      using key by metis
    with assms(2) sqlite(2) show ?thesis
      by (auto simp: store_DB_def db_call_def SQLite_GetRun_def sql_exec_def Let_def row
          split: option.splits)
  next
    case (postgres db db1)
    then obtain rs where "insert_pk rr_id (row_of_run run) (st_runs db) = Some rs" "st_runs db1 = rs"
      by (auto simp: Postgres_CreateRun_def pg_exec_def sql_exec_def Let_def split: option.splits)
    with select_pk_insert have "select_pk rr_id (run_ID run) (st_runs db1) = Some (row_of_run run)"
      using key by metis
    with assms(2) postgres(2) show ?thesis
      by (auto simp: store_DB_def db_call_def Postgres_GetRun_def pg_exec_def sql_exec_def Let_def row
          split: option.splits)
  qed
qed

definition demo_run :: PipelineRun where
  "demo_run =
     \<lparr>run_ID = ''r'', run_Project = ''p'', run_State = RunStatePending, run_CreatedAt = 1500000,
      run_UpdatedAt = 1500000\<rparr>"

definition demo_created :: db_value where
  "demo_created = snd (db_CreateRun (store_DB demo_env) demo_run (open_store ''postgres://''))"

lemma GetRun_after_CreateRun_witness:
  "fst (db_GetRun (store_DB demo_env) (run_ID demo_run) demo_created)
   = Inr (demo_run\<lparr>run_CreatedAt := 1000000, run_UpdatedAt := 1000000\<rparr>)"
proof -
  have "fst (db_CreateRun (store_DB demo_env) demo_run (open_store ''postgres://'')) = Inr ()"
    by code_simp
  then have c: "db_CreateRun (store_DB demo_env) demo_run (open_store ''postgres://'') = (Inr (), demo_created)"
    by (simp add: demo_created_def prod_eq_iff)
  have ok: "\<exists>r. fst (db_GetRun (store_DB demo_env) (run_ID demo_run) demo_created) = Inr r"
  proof -
    have "(case fst (db_GetRun (store_DB demo_env) (run_ID demo_run) demo_created) of Inl e \<Rightarrow> False | Inr r \<Rightarrow> True)"
      by code_simp
    then show ?thesis by (auto split: sum.splits)
  qed
  with GetRun_after_CreateRun [OF c prod.collapse [symmetric]] show ?thesis
    by (auto simp: demo_run_def UnixMilli_def time_UnixMilli_def)
qed

text \<open>
  \<open>GetNode\<close> after \<open>UpsertNode\<close>, on either backend: when both return no error the record
  read has the run, node, job and state that were written, whatever row was there before, and the
  time of the write in whole milliseconds in place of the \<open>UpdatedAt\<close> of the argument.
\<close>

lemma GetNode_after_UpsertNode:
  assumes "db_UpsertNode (store_DB env) n s = (Inr u, s1)"
    and "db_GetNode (store_DB env) (nr_RunID n) (nr_NodeID n) s1 = (q, s2)"
  shows "(case q of
      Inr r \<Rightarrow> \<exists>t. r = n\<lparr>nr_UpdatedAt := time_UnixMilli (UnixMilli (env_now env t))\<rparr>
    | Inl e \<Rightarrow> \<exists>m. e = Wrapf ''get node %s/%s'' [nr_RunID n, nr_NodeID n] (DriverErr m))"
proof -
  have row: "scan_node (row_of_node n t) = n\<lparr>nr_UpdatedAt := time_UnixMilli (UnixMilli t)\<rparr>" for t
    by (simp add: scan_node_def row_of_node_def)
  have key: "node_key (row_of_node n t) = (nr_RunID n, nr_NodeID n)" for t by simp
  have sel: "select_pk node_key (nr_RunID n, nr_NodeID n) (upsert_pk node_key (row_of_node n t) tbl)
      = Some (row_of_node n t)" for t tbl
    using select_pk_upsert [of node_key "row_of_node n t" tbl] by simp
  from assms(1) [unfolded store_DB_sel] show ?thesis
  proof (cases rule: db_callE)
    case (sqlite db db1)
    then have "select_pk node_key (nr_RunID n, nr_NodeID n) (st_nodes db1)
        = Some (row_of_node n (env_now env (st_stmts db)))"
      by (auto simp: SQLite_UpsertNode_def sql_exec_def Let_def sel split: option.splits)
    with assms(2) sqlite(2) show ?thesis
      by (auto simp: store_DB_def db_call_def SQLite_GetNode_def sql_exec_def Let_def row
          split: option.splits)
  next
    case (postgres db db1)
    then have "select_pk node_key (nr_RunID n, nr_NodeID n) (st_nodes db1)
        = Some (row_of_node n (env_now env (st_stmts db)))"
      by (auto simp: Postgres_UpsertNode_def pg_exec_def pg_env_now sql_exec_def Let_def sel split: option.splits)
    with assms(2) postgres(2) show ?thesis
      by (auto simp: store_DB_def db_call_def Postgres_GetNode_def pg_exec_def sql_exec_def Let_def row
          split: option.splits)
  qed
qed

lemma GetNode_after_UpsertNode_witness:
  "(let n = mk_NodeRecord ''r'' ''a'' NodeStateRunning;
        s1 = snd (db_UpsertNode (store_DB demo_env) n (open_store [])) in
    case fst (db_GetNode (store_DB demo_env) ''r'' ''a'' s1) of
      Inr r \<Rightarrow> nr_State r = NodeStateRunning | Inl e \<Rightarrow> \<exists>m. e = Wrapf ''get node %s/%s'' [''r'', ''a''] (DriverErr m))"
proof -
  let ?n = "mk_NodeRecord ''r'' ''a'' NodeStateRunning"
  let ?s1 = "snd (db_UpsertNode (store_DB demo_env) ?n (open_store []))"
  have "fst (db_UpsertNode (store_DB demo_env) ?n (open_store [])) = Inr ()" by code_simp
  then have c: "db_UpsertNode (store_DB demo_env) ?n (open_store []) = (Inr (), ?s1)"
    by (simp add: prod_eq_iff)
  from GetNode_after_UpsertNode [OF c prod.collapse [symmetric]] show ?thesis
    by (auto simp: Let_def split: sum.splits)
qed

end
