(* ===== verification/Executor.thy ===== *)
theory Executor
  imports Proto_Msgs "HOL-Library.Sublist"
begin

text \<open>
  \<open>internal/executor/executor.go\<close>: jobs as sequences of shell commands. The operating system is a
  parameter: what a command does (its output on the two pipes, the order in which the two readers
  got to deliver, how it ended) is given by its number, its text and the environment of its process; the
  timeout of the job acts through it, as a command that is killed.
\<close>

section \<open>The environment of a job\<close>

definition env_string :: "EnvVar \<Rightarrow> string" where
  "env_string e = ev_Key e @ ''='' @ ev_Value e"

text \<open>The second loop of \<open>buildEnv\<close>: a key that was seen is passed over.\<close>

fun spec_env :: "string set \<Rightarrow> EnvVar list \<Rightarrow> string list" where
  "spec_env seen [] = []"
| "spec_env seen (e # es) =
     (if ev_Key e \<notin> seen then env_string e # spec_env (insert (ev_Key e) seen) es
      else spec_env seen es)"

definition buildEnv :: "JobDispatch \<Rightarrow> string list" where
  "buildEnv job =
     (let seen = set (map ev_Key (jd_Env job)); env = map env_string (jd_Env job) in
      case jd_Spec job of
        None \<Rightarrow> env
      | Some spec \<Rightarrow> env @ spec_env seen (js_Env spec))"

section \<open>Reading a pipe by lines\<close>

text \<open>
  \<open>bufio.Scanner\<close> with its default \<open>ScanLines\<close>: a line ends at a newline, one carriage return before
  it is dropped, and the last line need not end. A line that does not fit into the buffer of 64 KiB
  with its newline stops the scan.
\<close>

definition max_token :: nat where "max_token = 64 * 1024"

definition dropCR :: "string \<Rightarrow> string" where
  "dropCR l = (if l \<noteq> [] \<and> last l = CHR 0x0D then butlast l else l)"

function scan_lines :: "string \<Rightarrow> string list" where
  "scan_lines s =
     (if s = [] then []
      else let l = takeWhile (\<lambda>c. c \<noteq> CHR 0x0A) s; rest = dropWhile (\<lambda>c. c \<noteq> CHR 0x0A) s in
        if length l \<ge> max_token then []
        else dropCR l # (if rest = [] then [] else scan_lines (tl rest)))"
  by pat_completeness auto

termination
proof (relation "measure length")
  fix s :: string and l rest
  assume "s \<noteq> []" and "rest = dropWhile (\<lambda>c. c \<noteq> CHR 0x0A) s" and "rest \<noteq> []"
  then have "length (tl rest) < length rest" and "length rest \<le> length s"
    by (simp_all add: length_dropWhile_le)
  then show "(tl rest, s) \<in> measure length" by simp
qed simp

declare scan_lines.simps [simp del]

section \<open>A command\<close>

datatype cmd_end = Cmd_exit_ok | Cmd_exit_error int | Cmd_wait_error

text \<open>
  A command either fails before it runs, with the message and the time, or writes the two streams.
  The schedule says which reader delivers next (\<open>True\<close> for stderr), and the clock counts deliveries.
\<close>

datatype cmd_outcome =
    Stdout_pipe_error string int
  | Stderr_pipe_error string int
  | Start_error string int
  | Cmd_ran string string "bool list" "nat \<Rightarrow> int" cmd_end

text \<open>The operating system of the agent, with the environment that the agent itself runs in.\<close>

record os =
  os_environ :: "string list"
  os_exec :: "nat \<Rightarrow> string \<Rightarrow> string list \<Rightarrow> cmd_outcome"

text \<open>
  \<open>cmd.Env = env\<close>: the slice that \<open>buildEnv\<close> never appended to is nil, and for a nil \<open>Env\<close> the package
  \<open>os/exec\<close> gives the process the environment of the agent.
\<close>

definition cmd_environ :: "os \<Rightarrow> string list \<Rightarrow> string list" where
  "cmd_environ sys env = (if env = [] then os_environ sys else env)"

text \<open>The lines of the two readers in the order of the schedule.\<close>

fun interleave :: "bool list \<Rightarrow> string list \<Rightarrow> string list \<Rightarrow> (string \<times> bool) list" where
  "interleave sched [] es = map (\<lambda>l. (l, True)) es"
| "interleave sched (l # ls) [] = map (\<lambda>l. (l, False)) (l # ls)"
| "interleave [] (l # ls) (e # es) = (l, False) # interleave [] ls (e # es)"
| "interleave (b # bs) (l # ls) (e # es) =
     (if b then (e, True) # interleave bs (l # ls) es else (l, False) # interleave bs ls (e # es))"

definition errChunk :: "JobDispatch \<Rightarrow> int \<Rightarrow> string \<Rightarrow> pb_LogChunk" where
  "errChunk job now msg =
     \<lparr>pl_JobId = jd_JobId job, pl_RunId = jd_RunId job, pl_Timestamp = now,
      pl_Line = ''brazier: '' @ msg, pl_Stderr = True\<rparr>"

definition line_chunk :: "JobDispatch \<Rightarrow> int \<Rightarrow> string \<times> bool \<Rightarrow> pb_LogChunk" where
  "line_chunk job now = (\<lambda>(line, stderr).
     \<lparr>pl_JobId = jd_JobId job, pl_RunId = jd_RunId job, pl_Timestamp = now,
      pl_Line = line, pl_Stderr = stderr\<rparr>)"

text \<open>\<open>runCommand\<close>: the sink is a function on a state \<open>'k\<close>.\<close>

definition runCommand ::
  "cmd_outcome \<Rightarrow> JobDispatch \<Rightarrow> (pb_LogChunk \<Rightarrow> 'k \<Rightarrow> 'k) \<Rightarrow> 'k \<Rightarrow> (bool \<times> int) \<times> 'k" where
  "runCommand outcome job sink k =
     (case outcome of
        Stdout_pipe_error m now \<Rightarrow> ((False, 1), sink (errChunk job now (''stdout pipe: '' @ m)) k)
      | Stderr_pipe_error m now \<Rightarrow> ((False, 1), sink (errChunk job now (''stderr pipe: '' @ m)) k)
      | Start_error m now \<Rightarrow> ((False, 1), sink (errChunk job now (''start: '' @ m)) k)
      | Cmd_ran out err sched clock ending \<Rightarrow>
          (let lines = interleave sched (scan_lines out) (scan_lines err);
               k1 = fold (\<lambda>(i, l). sink (line_chunk job (clock i) l)) (enumerate 0 lines) k in
           (case ending of
              Cmd_exit_ok \<Rightarrow> (True, 0)
            | Cmd_exit_error code \<Rightarrow> (False, code)
            | Cmd_wait_error \<Rightarrow> (False, 1), k1)))"

section \<open>A job\<close>

text \<open>The struct \<open>Executor\<close> is the timeout of its jobs, in nanoseconds; the operating system applies it.\<close>

record job_Executor =
  ex_timeout :: int

definition executor_New :: "int \<Rightarrow> job_Executor" where
  "executor_New timeout = \<lparr>ex_timeout = timeout\<rparr>"

fun run_commands ::
  "os \<Rightarrow> JobDispatch \<Rightarrow> string list \<Rightarrow> (pb_LogChunk \<Rightarrow> 'k \<Rightarrow> 'k) \<Rightarrow> nat \<Rightarrow> string list \<Rightarrow> 'k \<Rightarrow>
   (bool \<times> int) \<times> 'k" where
  "run_commands sys job env sink i [] k = ((True, 0), k)"
| "run_commands sys job env sink i (command # commands) k =
     (case runCommand (os_exec sys i command (cmd_environ sys env)) job sink k of
        ((ok, code), k1) \<Rightarrow>
          if \<not> ok then ((False, code), k1) else run_commands sys job env sink (Suc i) commands k1)"

text \<open>
  \<open>Run\<close> reads \<open>job.Spec.Commands\<close>; with no spec this is the panic of a nil pointer, here \<open>None\<close>.
\<close>

definition Executor_Run ::
  "os \<Rightarrow> JobDispatch \<Rightarrow> (pb_LogChunk \<Rightarrow> 'k \<Rightarrow> 'k) \<Rightarrow> 'k \<Rightarrow> ((bool \<times> int) \<times> 'k) option" where
  "Executor_Run sys job sink k =
     (let env = buildEnv job in
      case jd_Spec job of
        None \<Rightarrow> None
      | Some spec \<Rightarrow> Some (run_commands sys job env sink 0 (js_Commands spec) k))"

definition SplitCommand :: "string \<Rightarrow> string list" where
  "SplitCommand s = Fields s"

section \<open>Lines\<close>

lemma scan_lines_Nil [simp]: "scan_lines [] = []"
  by (simp add: scan_lines.simps)

lemma scan_lines_line:
  assumes "CHR 0x0A \<notin> set l" and "length l < max_token"
  shows "scan_lines (l @ CHR 0x0A # s) = dropCR l # scan_lines s"
proof -
  have "takeWhile (\<lambda>c. c \<noteq> CHR 0x0A) (l @ CHR 0x0A # s) = l"
    using assms(1) by (subst takeWhile_append2) auto
  moreover have "dropWhile (\<lambda>c. c \<noteq> CHR 0x0A) (l @ CHR 0x0A # s) = CHR 0x0A # s"
    using assms(1) by (subst dropWhile_append2) auto
  ultimately show ?thesis
    using assms(2) by (subst scan_lines.simps) (simp add: Let_def)
qed

text \<open>
  What a command writes line by line arrives line by line. For lines without newlines,
  without a carriage return at the end and below the limit of the scanner, each ended by a newline,
  the reader delivers exactly these lines, in order, empty ones included.
\<close>

lemma scan_lines_roundtrip:
  assumes "\<And>l. l \<in> set ls \<Longrightarrow> CHR 0x0A \<notin> set l \<and> length l < max_token \<and> (l \<noteq> [] \<longrightarrow> last l \<noteq> CHR 0x0D)"
  shows "scan_lines (concat (map (\<lambda>l. l @ [CHR 0x0A]) ls)) = ls"
  using assms
proof (induction ls)
  case (Cons l ls)
  then have "dropCR l = l" by (auto simp: dropCR_def)
  with Cons show ?case by (simp add: scan_lines_line)
qed simp

lemma scan_lines_roundtrip_witness:
  "scan_lines (concat (map (\<lambda>l. l @ [CHR 0x0A]) [''a'', '''', ''bc''])) = [''a'', '''', ''bc'']"
  by (rule scan_lines_roundtrip) (auto simp: max_token_def)

lemma interleave_streams:
  "map fst (filter (\<lambda>x. \<not> snd x) (interleave sched ls es)) = ls
   \<and> map fst (filter snd (interleave sched ls es)) = es"
  by (induction sched ls es rule: interleave.induct) (simp_all add: comp_def)

section \<open>The environment\<close>

lemma spec_env_entries:
  "\<exists>es. spec_env seen vars = map env_string es \<and> subseq es vars \<and> distinct (map ev_Key es)
     \<and> set (map ev_Key es) = set (map ev_Key vars) - seen
     \<and> (\<forall>e \<in> set es. find (\<lambda>x. ev_Key x = ev_Key e) vars = Some e)"
proof (induction vars arbitrary: seen)
  case (Cons v vars)
  show ?case
  proof (cases "ev_Key v \<in> seen")
    case True
    obtain es where es: "spec_env seen vars = map env_string es" "subseq es vars"
      "distinct (map ev_Key es)" "set (map ev_Key es) = set (map ev_Key vars) - seen"
      "\<forall>e \<in> set es. find (\<lambda>x. ev_Key x = ev_Key e) vars = Some e"
      using Cons.IH by blast
    have "ev_Key e \<noteq> ev_Key v" if "e \<in> set es" for e
    proof
      assume "ev_Key e = ev_Key v"
      moreover have "ev_Key e \<in> set (map ev_Key es)" using that by simp
      ultimately show False using es(4) True by simp
    qed
    then show ?thesis using es True
      by (intro exI [of _ es]) (auto simp: list_emb_Cons)
  next
    case False
    obtain es where es: "spec_env (insert (ev_Key v) seen) vars = map env_string es" "subseq es vars"
      "distinct (map ev_Key es)" "set (map ev_Key es) = set (map ev_Key vars) - insert (ev_Key v) seen"
      "\<forall>e \<in> set es. find (\<lambda>x. ev_Key x = ev_Key e) vars = Some e"
      using Cons.IH by blast
    have "ev_Key e \<noteq> ev_Key v" if "e \<in> set es" for e
    proof
      assume "ev_Key e = ev_Key v"
      moreover have "ev_Key e \<in> set (map ev_Key es)" using that by simp
      ultimately show False using es(4) by simp
    qed
    then show ?thesis using es False
      by (intro exI [of _ "v # es"]) auto
  qed
qed simp

text \<open>
  The environment of a job is its own variables in order, followed by variables of its
  spec: one for each key that the job itself does not set, namely the first that the spec has for
  it, each once and in the order of the spec. Nothing else is in it: with at least one variable the
  process environment, which the comment says it is merged into, does not reach the commands, and with
  none it is all that they get (\<open>cmd_environ\<close>).
\<close>

lemma buildEnv_precedence:
  "\<exists>es. buildEnv job = map env_string (jd_Env job @ es)
     \<and> subseq es (case jd_Spec job of None \<Rightarrow> [] | Some spec \<Rightarrow> js_Env spec)
     \<and> distinct (map ev_Key es)
     \<and> set (map ev_Key es) =
         (case jd_Spec job of None \<Rightarrow> {} | Some spec \<Rightarrow> set (map ev_Key (js_Env spec)))
           - set (map ev_Key (jd_Env job))
     \<and> (\<forall>e \<in> set es. find (\<lambda>x. ev_Key x = ev_Key e)
           (case jd_Spec job of None \<Rightarrow> [] | Some spec \<Rightarrow> js_Env spec) = Some e)"
proof (cases "jd_Spec job")
  case None
  then show ?thesis by (intro exI [of _ "[]"]) (simp add: buildEnv_def)
next
  case (Some spec)
  with spec_env_entries [of "set (map ev_Key (jd_Env job))" "js_Env spec"] show ?thesis
    by (auto simp: buildEnv_def Let_def)
qed

text \<open>A variable of a bounded quantifier over these entries: an override and a default.\<close>

definition env_job :: JobDispatch where
  "env_job =
     \<lparr>jd_JobId = ''j'', jd_RunId = ''r'',
      jd_Spec = Some \<lparr>js_Commands = [''make'', ''false'', ''echo''],
        js_Env = [\<lparr>ev_Key = ''A'', ev_Value = ''1''\<rparr>, \<lparr>ev_Key = ''B'', ev_Value = ''2''\<rparr>],
        js_Secrets = [], js_ArtifactPaths = []\<rparr>,
      jd_Env = [\<lparr>ev_Key = ''A'', ev_Value = ''9''\<rparr>]\<rparr>"

lemma buildEnv_precedence_witness:
  "buildEnv env_job = [''A=9'', ''B=2''] \<and>
   (\<exists>es. buildEnv env_job = map env_string (jd_Env env_job @ es) \<and> distinct (map ev_Key es))"
proof -
  have "buildEnv env_job = [''A=9'', ''B=2'']" by code_simp
  then show ?thesis using buildEnv_precedence [of env_job] by blast
qed

section \<open>The course of a job\<close>

text \<open>The result of a command, without its output.\<close>

definition cmd_result :: "cmd_outcome \<Rightarrow> bool \<times> int" where
  "cmd_result outcome =
     (case outcome of
        Cmd_ran out err sched clock Cmd_exit_ok \<Rightarrow> (True, 0)
      | Cmd_ran out err sched clock (Cmd_exit_error code) \<Rightarrow> (False, code)
      | _ \<Rightarrow> (False, 1))"

lemma runCommand_result: "fst (runCommand outcome job sink k) = cmd_result outcome"
  by (simp add: runCommand_def cmd_result_def Let_def split: cmd_outcome.split cmd_end.split)

text \<open>The chunks of a command, as a list.\<close>

definition cmd_chunks :: "cmd_outcome \<Rightarrow> JobDispatch \<Rightarrow> pb_LogChunk list" where
  "cmd_chunks outcome job = snd (runCommand outcome job (\<lambda>c k. k @ [c]) [])"

lemma fold_collect: "fold (\<lambda>(i, l) k. k @ [g i l]) xs k = k @ map (\<lambda>(i, l). g i l) xs"
  by (induction xs arbitrary: k) auto

lemma runCommand_sink:
  "snd (runCommand outcome job sink k) = fold sink (cmd_chunks outcome job) k"
proof -
  have f: "fold sink (map (\<lambda>(i, l). g i l) xs) k = fold (\<lambda>(i, l). sink (g i l)) xs k" for g :: "nat \<Rightarrow> _" and xs
    by (induction xs arbitrary: k) auto
  show ?thesis
    by (simp add: runCommand_def cmd_chunks_def Let_def fold_collect f split: cmd_outcome.split)
qed

lemma run_commands_result:
  defines "results sys env i cmds \<equiv> map (\<lambda>(n, c). os_exec sys n c (cmd_environ sys env)) (enumerate i cmds)"
  shows "run_commands sys job env sink i cmds k =
    (let done = takeWhile (\<lambda>out. fst (cmd_result out)) (results sys env i cmds) in
     case drop (length done) (results sys env i cmds) of
       [] \<Rightarrow> ((True, 0), fold sink (concat (map (\<lambda>out. cmd_chunks out job) done)) k)
     | out # _ \<Rightarrow> ((False, snd (cmd_result out)),
                  fold sink (concat (map (\<lambda>out. cmd_chunks out job) (done @ [out]))) k))"
  unfolding results_def
proof (induction cmds arbitrary: i k)
  case (Cons c cmds)
  obtain ok code k1 where r: "runCommand (os_exec sys i c (cmd_environ sys env)) job sink k = ((ok, code), k1)"
    by (cases "runCommand (os_exec sys i c (cmd_environ sys env)) job sink k") auto
  have res: "cmd_result (os_exec sys i c (cmd_environ sys env)) = (ok, code)" using runCommand_result [of "os_exec sys i c (cmd_environ sys env)" job sink k] r by simp
  have k1: "k1 = fold sink (cmd_chunks (os_exec sys i c (cmd_environ sys env)) job) k"
    using runCommand_sink [of "os_exec sys i c (cmd_environ sys env)" job sink k] r by simp
  show ?case
  proof (cases ok)
    case True
    then show ?thesis using r res k1 Cons.IH [of "Suc i" k1]
      by (simp add: Let_def split: list.split)
  next
    case False
    then show ?thesis using r res k1 by (simp add: Let_def)
  qed
qed simp

text \<open>
  Property C27: \<open>Run\<close> on a job with a spec. The commands run one after the other up to and including the
  first that fails, and none after it; the job succeeds, with code 0, exactly when none fails, and
  otherwise has the exit code of that one (1 when it could not be started or waited for); each runs in the
  environment that \<open>buildEnv\<close> gives, or in that of the agent when it gives no variable; the sink gets the chunks of the commands that ran, in their order, and no others. Without a spec there
  is no result: the executor panics.
\<close>

theorem Executor_Run_first_failure:
  "Executor_Run sys job sink k =
    (case jd_Spec job of
       None \<Rightarrow> None
     | Some spec \<Rightarrow>
         (let outs = map (\<lambda>(n, c). os_exec sys n c (cmd_environ sys (buildEnv job))) (enumerate 0 (js_Commands spec));
              good = takeWhile (\<lambda>out. fst (cmd_result out)) outs in
          Some (case drop (length good) outs of
              [] \<Rightarrow> ((True, 0), fold sink (concat (map (\<lambda>out. cmd_chunks out job) good)) k)
            | bad # _ \<Rightarrow> ((False, snd (cmd_result bad)),
                fold sink (concat (map (\<lambda>out. cmd_chunks out job) (good @ [bad]))) k))))"
  by (simp add: Executor_Run_def run_commands_result Let_def split: option.split)

text \<open>
  A command that ran delivers all lines of each of its two streams, in the order of the
  stream and under the IDs of the job and its run, whatever the order in which the two readers took
  turns; a command that could not be started delivers one line on stderr that starts with
  \<open>brazier: \<close>.
\<close>

lemma cmd_chunks_streams:
  "(\<forall>c \<in> set (cmd_chunks outcome job). pl_JobId c = jd_JobId job \<and> pl_RunId c = jd_RunId job)
   \<and> (case outcome of
        Cmd_ran out err sched clock ending \<Rightarrow>
          map pl_Line (filter (\<lambda>c. \<not> pl_Stderr c) (cmd_chunks outcome job)) = scan_lines out
          \<and> map pl_Line (filter pl_Stderr (cmd_chunks outcome job)) = scan_lines err
      | _ \<Rightarrow> \<exists>c. cmd_chunks outcome job = [c] \<and> pl_Stderr c \<and> HasPrefix (pl_Line c) ''brazier: '')"
proof (cases outcome)
  case (Cmd_ran out err sched clock ending)
  let ?ls = "interleave sched (scan_lines out) (scan_lines err)"
  have c: "cmd_chunks outcome job = map (\<lambda>(i, l). line_chunk job (clock i) l) (enumerate 0 ?ls)"
    by (simp add: cmd_chunks_def runCommand_def Cmd_ran Let_def fold_collect)
  have lines: "map (\<lambda>c. (pl_Line c, pl_Stderr c)) (cmd_chunks outcome job) = ?ls"
  proof -
    have "map (\<lambda>c. (pl_Line c, pl_Stderr c)) (cmd_chunks outcome job) = map snd (enumerate 0 ?ls)"
      unfolding c map_map by (rule map_cong) (auto simp: line_chunk_def)
    then show ?thesis by simp
  qed
  have ids: "\<forall>c \<in> set (cmd_chunks outcome job). pl_JobId c = jd_JobId job \<and> pl_RunId c = jd_RunId job"
    unfolding c by (auto simp: line_chunk_def)
  have f: "map fst (filter p (map (\<lambda>c. (pl_Line c, pl_Stderr c)) cs)) =
      map pl_Line (filter (\<lambda>c. p (pl_Line c, pl_Stderr c)) cs)" for p cs
    by (simp add: filter_map comp_def)
  show ?thesis
    using ids interleave_streams [of sched "scan_lines out" "scan_lines err"]
      f [of "\<lambda>x. \<not> snd x" "cmd_chunks outcome job"] f [of snd "cmd_chunks outcome job"]
    unfolding lines by (simp add: Cmd_ran)
qed (simp_all add: cmd_chunks_def runCommand_def errChunk_def HasPrefix_def)

text \<open>Two commands of three run: the second fails with code 2.\<close>

definition demo_os :: os where
  "demo_os = \<lparr>os_environ = [''HOME=/root''], os_exec = (\<lambda>i c env.
     if c = ''false'' then Cmd_ran [] (''no'' @ [CHR 0x0A]) [] (\<lambda>_. 7) (Cmd_exit_error 2)
     else Cmd_ran (c @ [CHR 0x0A]) [] [] (\<lambda>_. 7) Cmd_exit_ok)\<rparr>"

lemma cmd_chunks_streams_witness:
  "map pl_Line (filter pl_Stderr (cmd_chunks (os_exec demo_os 1 ''false'' []) env_job)) = [''no'']"
proof -
  have "scan_lines (''no'' @ [CHR 0x0A]) = [''no'']"
    using scan_lines_line [of "''no''" "[]"] by (simp add: max_token_def dropCR_def)
  then show ?thesis
    using cmd_chunks_streams [of "os_exec demo_os 1 ''false'' []" env_job] by (simp add: demo_os_def)
qed

end
