(* ===== verification/Sdk_Go.thy ===== *)
theory Sdk_Go
  imports Conditions Proto_Msgs
begin

text \<open>
  \<open>sdk/go/brazier.go\<close> and \<open>sdk/go/workflow.go\<close>: the builders of pipelines and workflows. A builder
  holds a pointer to its message and returns itself; the chains the SDK is made for use each value
  once, so a builder is the message it has built so far. The Go map \<open>Env\<close> is the list of its entries
  in the order in which this call iterates over them.
\<close>

section \<open>Conditions\<close>

type_synonym Condition = string

definition OnBranch :: "string \<Rightarrow> Condition" where "OnBranch name = ''branch == '' @ name"
definition OnTag :: "string \<Rightarrow> Condition" where "OnTag pattern = ''tag == '' @ pattern"
definition OnEvent :: "string \<Rightarrow> Condition" where "OnEvent event = ''event == '' @ event"

section \<open>Nodes\<close>

record sdk_JobSpec =
  sdk_Commands :: "string list"
  sdk_Env :: "(string \<times> string) list"
  sdk_Secrets :: "string list"
  sdk_ArtifactPaths :: "string list"

text \<open>The three builder structs, each around a node.\<close>

datatype JobNode = JobNode (jn_node: Node)
datatype StageNode = StageNode (sn_node: Node)
datatype WorkflowNode = WorkflowNode (wn_node: Node)

text \<open>The assignments \<open>node.DependsOn = append(...)\<close> and \<open>node.Conditions = append(...)\<close>.\<close>

definition add_deps :: "string list \<Rightarrow> Node \<Rightarrow> Node" where
  "add_deps ids n = Node (nd_Id n) (nd_DependsOn n @ ids) (nd_Conditions n) (nd_Kind n)"

definition add_conds :: "Condition list \<Rightarrow> Node \<Rightarrow> Node" where
  "add_conds cs n = Node (nd_Id n) (nd_DependsOn n) (nd_Conditions n @ cs) (nd_Kind n)"

definition sdk_Job :: "string \<Rightarrow> sdk_JobSpec \<Rightarrow> JobNode" where
  "sdk_Job i spec =
     JobNode (Node i [] [] (Some (Node_Job
       \<lparr>js_Commands = sdk_Commands spec,
        js_Env = map (\<lambda>(k, v). \<lparr>ev_Key = k, ev_Value = v\<rparr>) (sdk_Env spec),
        js_Secrets = sdk_Secrets spec, js_ArtifactPaths = sdk_ArtifactPaths spec\<rparr>)))"

definition JobNode_DependsOn :: "JobNode \<Rightarrow> string list \<Rightarrow> JobNode" where
  "JobNode_DependsOn j ids = JobNode (add_deps ids (jn_node j))"

definition JobNode_When :: "JobNode \<Rightarrow> Condition list \<Rightarrow> JobNode" where
  "JobNode_When j cs = JobNode (add_conds cs (jn_node j))"

definition sdk_Stage :: "string \<Rightarrow> JobNode list \<Rightarrow> StageNode" where
  "sdk_Stage i jobs = StageNode (Node i [] [] (Some (Node_Stage (StageSpec (map jn_node jobs)))))"

definition StageNode_DependsOn :: "StageNode \<Rightarrow> string list \<Rightarrow> StageNode" where
  "StageNode_DependsOn s ids = StageNode (add_deps ids (sn_node s))"

definition StageNode_When :: "StageNode \<Rightarrow> Condition list \<Rightarrow> StageNode" where
  "StageNode_When s cs = StageNode (add_conds cs (sn_node s))"

section \<open>Pipelines\<close>

type_synonym Pipeline = PipelineSpec
type_synonym PipelineOption = "Pipeline \<Rightarrow> Pipeline"

definition JobNode_option :: "JobNode \<Rightarrow> PipelineOption" where
  "JobNode_option j = (\<lambda>p. p\<lparr>ps_Nodes := ps_Nodes p @ [jn_node j]\<rparr>)"

definition StageNode_option :: "StageNode \<Rightarrow> PipelineOption" where
  "StageNode_option s = (\<lambda>p. p\<lparr>ps_Nodes := ps_Nodes p @ [sn_node s]\<rparr>)"

text \<open>The interface \<open>Nodeable\<close> has two implementations.\<close>

datatype Nodeable = Nodeable_Job JobNode | Nodeable_Stage StageNode

fun Nodeable_option :: "Nodeable \<Rightarrow> PipelineOption" where
  "Nodeable_option (Nodeable_Job j) = JobNode_option j"
| "Nodeable_option (Nodeable_Stage s) = StageNode_option s"

fun Nodeable_node :: "Nodeable \<Rightarrow> Node" where
  "Nodeable_node (Nodeable_Job j) = jn_node j"
| "Nodeable_node (Nodeable_Stage s) = sn_node s"

definition sdk_Nodes :: "Nodeable list \<Rightarrow> PipelineOption list" where
  "sdk_Nodes ns = map Nodeable_option ns"

definition UseWorkflow :: "string \<Rightarrow> string \<Rightarrow> PipelineOption" where
  "UseWorkflow name version = (\<lambda>p. p\<lparr>ps_Workflow := Some \<lparr>wr_Name = name, wr_Version = version\<rparr>\<rparr>)"

definition NewPipeline :: "PipelineOption list \<Rightarrow> Pipeline" where
  "NewPipeline opts = fold (\<lambda>opt p. opt p) opts \<lparr>ps_Workflow = None, ps_Nodes = []\<rparr>"

text \<open>The pipeline is its message; the protobuf encoder is a parameter.\<close>

definition Pipeline_Spec :: "Pipeline \<Rightarrow> PipelineSpec" where
  "Pipeline_Spec p = p"

definition Pipeline_Marshal :: "(PipelineSpec \<Rightarrow> string result) \<Rightarrow> Pipeline \<Rightarrow> string result" where
  "Pipeline_Marshal marshal p = marshal p"

section \<open>Workflows\<close>

type_synonym Workflow = WorkflowDAG
type_synonym WorkflowOption = "Workflow \<Rightarrow> Workflow"

definition Workflow_DAG :: "Workflow \<Rightarrow> WorkflowDAG" where
  "Workflow_DAG w = w"

definition sdk_Node :: "string \<Rightarrow> WorkflowNode" where
  "sdk_Node i = WorkflowNode (Node i [] [] None)"

definition WorkflowNode_DependsOn :: "WorkflowNode \<Rightarrow> string list \<Rightarrow> WorkflowNode" where
  "WorkflowNode_DependsOn n ids = WorkflowNode (add_deps ids (wn_node n))"

definition WorkflowNode_When :: "WorkflowNode \<Rightarrow> Condition list \<Rightarrow> WorkflowNode" where
  "WorkflowNode_When n cs = WorkflowNode (add_conds cs (wn_node n))"

definition WorkflowNodes :: "WorkflowNode list \<Rightarrow> WorkflowOption" where
  "WorkflowNodes ns = (\<lambda>w. fold (\<lambda>n w. w\<lparr>wd_Nodes := wd_Nodes w @ [wn_node n]\<rparr>) ns w)"

definition NewWorkflow :: "string \<Rightarrow> string \<Rightarrow> WorkflowOption list \<Rightarrow> Workflow" where
  "NewWorkflow name version opts =
     fold (\<lambda>opt w. opt w) opts \<lparr>wd_Name = name, wd_Version = version, wd_Nodes = []\<rparr>"

section \<open>What the builders build\<close>

lemma fold_options:
  "fold (\<lambda>opt p. opt p) (sdk_Nodes ns) p = p\<lparr>ps_Nodes := ps_Nodes p @ map Nodeable_node ns\<rparr>"
proof (induction ns arbitrary: p)
  case (Cons n ns)
  then show ?case
    by (cases n) (simp_all add: sdk_Nodes_def JobNode_option_def StageNode_option_def)
qed (simp add: sdk_Nodes_def)

text \<open>
  A pipeline built with \<open>UseWorkflow\<close> and \<open>Nodes\<close> has exactly the given nodes in the given
  order, and the workflow reference that was named last; the order of the two kinds of options does
  not matter.
\<close>

lemma NewPipeline_spec:
  "NewPipeline (UseWorkflow n v # sdk_Nodes ns) = \<lparr>ps_Workflow = Some \<lparr>wr_Name = n, wr_Version = v\<rparr>,
       ps_Nodes = map Nodeable_node ns\<rparr>
   \<and> NewPipeline (sdk_Nodes ns @ [UseWorkflow m w, UseWorkflow n v])
     = NewPipeline (UseWorkflow n v # sdk_Nodes ns)"
  by (simp add: NewPipeline_def fold_options UseWorkflow_def)

text \<open>
  Property C14: conditions survive the way from the SDK to the scheduler. Take a pipeline built by
  \<open>NewPipeline\<close> of a workflow and any nodes, among them a job with \<open>When\<close> on a branch, a tag pattern and an
  event, none of which begins or ends with white space. At its place in the message stands a node with the
  ID of the job, and it passes the scheduler's \<open>evalConditions\<close> exactly when the run has this branch and this
  event, and its tag matches the pattern: is any string that continues the part before a star at the end of
  the pattern, else any that ends with the part after a star at its begin, else the pattern itself. This
  holds for values that contain the separator themselves, too. A run without a tag has the empty one, so
  that a push of a branch passes \<open>OnTag("*")\<close>, which its comment excludes.
\<close>

theorem conditions_roundtrip:
  assumes "TrimSpace branch = branch" and "TrimSpace pattern = pattern" and "TrimSpace event = event"
    and "p = NewPipeline (UseWorkflow name version # sdk_Nodes (before @
           [Nodeable_Job (JobNode_When (sdk_Job i spec) [OnBranch branch, OnTag pattern, OnEvent event])] @ behind))"
  shows "let n = ps_Nodes (Pipeline_Spec p) ! length before in
    length (ps_Nodes (Pipeline_Spec p)) = length before + 1 + length behind \<and> nd_Id n = i
    \<and> (evalConditions (nd_Conditions n) rc \<longleftrightarrow>
         rc_Branch rc = branch \<and> rc_Event rc = event
         \<and> (if pattern \<noteq> [] \<and> last pattern = CHR ''*'' then \<exists>t. rc_Tag rc = butlast pattern @ t
            else if pattern \<noteq> [] \<and> hd pattern = CHR ''*'' then \<exists>t. rc_Tag rc = t @ tl pattern
            else rc_Tag rc = pattern))"
proof -
  let ?n = "add_conds [OnBranch branch, OnTag pattern, OnEvent event] (jn_node (sdk_Job i spec))"
  have nodes: "ps_Nodes (Pipeline_Spec p) = map Nodeable_node before @ ?n # map Nodeable_node behind"
    using NewPipeline_spec [of name version] by (simp add: assms(4) Pipeline_Spec_def JobNode_When_def)
  have "evalConditions [OnBranch branch, OnTag pattern, OnEvent event] rc
      \<longleftrightarrow> rc_Branch rc = TrimSpace branch \<and> matchGlob (TrimSpace pattern) (rc_Tag rc) \<and> rc_Event rc = TrimSpace event"
    unfolding OnBranch_def OnTag_def OnEvent_def
    by (simp only: evalConditions.simps evalCondition_branch evalCondition_tag evalCondition_event) simp
  moreover have "nd_Conditions ?n = [OnBranch branch, OnTag pattern, OnEvent event]" "nd_Id ?n = i"
    by (simp_all add: add_conds_def sdk_Job_def)
  moreover have "ps_Nodes (Pipeline_Spec p) ! length before = ?n"
    unfolding nodes by (metis length_map nth_append_length)
  ultimately show ?thesis
    unfolding Let_def assms(1-3) matchGlob_spec by (auto simp: nodes)
qed

definition sdk_rc :: RunContext where
  "sdk_rc = \<lparr>rc_Branch = ''main == x'', rc_Tag = ''v1'', rc_Event = ''push''\<rparr>"

definition sdk_empty :: sdk_JobSpec where
  "sdk_empty = \<lparr>sdk_Commands = [], sdk_Env = [], sdk_Secrets = [], sdk_ArtifactPaths = []\<rparr>"

definition sdk_deploy :: Nodeable where
  "sdk_deploy = Nodeable_Job (JobNode_When (sdk_Job ''deploy'' sdk_empty)
     [OnBranch ''main == x'', OnTag ''v*'', OnEvent ''push''])"

definition sdk_pipeline :: Pipeline where
  "sdk_pipeline = NewPipeline (UseWorkflow ''w'' ''1'' # sdk_Nodes
     ([Nodeable_Job (sdk_Job ''lint'' sdk_empty)] @ [sdk_deploy] @ []))"

theorem conditions_roundtrip_witness:
  "nd_Id (ps_Nodes (Pipeline_Spec sdk_pipeline) ! 1) = ''deploy''
   \<and> evalConditions (nd_Conditions (ps_Nodes (Pipeline_Spec sdk_pipeline) ! 1)) sdk_rc
   \<and> \<not> evalConditions (nd_Conditions (ps_Nodes (Pipeline_Spec sdk_pipeline) ! 1)) (sdk_rc\<lparr>rc_Tag := []\<rparr>)"
proof -
  have "TrimSpace ''main == x'' = ''main == x''" "TrimSpace ''v*'' = ''v*''" "TrimSpace ''push'' = ''push''"
    by (rule TrimSpace_id; simp add: lead_word_None space_encodings_def HasPrefix_def)+
  from conditions_roundtrip [OF this sdk_pipeline_def [unfolded sdk_deploy_def]] show ?thesis
    by (simp add: sdk_rc_def Let_def)
qed

text \<open>
  \<open>OnTag\<close> is said to be true when the triggering ref is a tag that matches. A push of a
  branch has no tag, and still passes \<open>OnTag("*")\<close>; it fails every pattern that needs a character.
\<close>

lemma OnTag_star_without_tag:
  "evalCondition (OnTag ''*'') \<lparr>rc_Branch = ''main'', rc_Tag = [], rc_Event = ''push''\<rparr>
   \<and> \<not> evalCondition (OnTag ''v*'') \<lparr>rc_Branch = ''main'', rc_Tag = [], rc_Event = ''push''\<rparr>"
proof -
  have t: "TrimSpace ''*'' = ''*''" "TrimSpace ''v*'' = ''v*''"
    by (rule TrimSpace_id; simp add: lead_word_None space_encodings_def HasPrefix_def)+
  show ?thesis
    unfolding OnTag_def evalCondition_tag t
    by (simp add: matchGlob_def HasSuffix_def HasPrefix_def TrimSuffix_def)
qed

text \<open>The depends-on edges and conditions that a chain of calls adds up to.\<close>

lemma builder_chain:
  "jn_node (JobNode_When (JobNode_DependsOn (JobNode_DependsOn (sdk_Job i spec) as) bs) cs)
   = Node i (as @ bs) cs (nd_Kind (jn_node (sdk_Job i spec)))"
  by (simp add: JobNode_When_def JobNode_DependsOn_def add_conds_def add_deps_def sdk_Job_def)

lemma NewWorkflow_nodes:
  "wd_Nodes (NewWorkflow name version [WorkflowNodes ns, WorkflowNodes ms])
   = map wn_node ns @ map wn_node ms"
proof -
  have "wd_Nodes (fold (\<lambda>n w. w\<lparr>wd_Nodes := wd_Nodes w @ [wn_node n]\<rparr>) ns w) = wd_Nodes w @ map wn_node ns"
    for ns and w :: WorkflowDAG by (induction ns arbitrary: w) simp_all
  then show ?thesis by (simp add: NewWorkflow_def WorkflowNodes_def)
qed

end
