(* ===== verification/Config.thy ===== *)
theory Config
  imports Go_Prelude
begin

text \<open>
  \<open>internal/config/config.go\<close>: the configuration of the master service. The YAML decoder is a
  parameter: what it does to the configuration it is given, or its error. Files are a map from paths
  to what \<open>os.Stat\<close> and \<open>os.ReadFile\<close> say of them.
\<close>

section \<open>The configuration\<close>

record ServerConfig =
  sc_GRPCPort :: string
  sc_HTTPPort :: string

record DBConfig =
  dc_Backend :: string
  dc_SQLitePath :: string

record AWSSSMConfig = ac_Prefix :: string
record GCPConfig = gc_ProjectID :: string

record VaultConfig =
  vc_Addr :: string
  vc_Mount :: string
  vc_Prefix :: string

record SecretsConfig =
  sec_Backend :: string
  sec_AWSSSM :: AWSSSMConfig
  sec_GCP :: GCPConfig
  sec_Vault :: VaultConfig

record S3Config =
  s3_Bucket :: string
  s3_Prefix :: string
  s3_Endpoint :: string

record GCSConfig =
  gs_Bucket :: string
  gs_Prefix :: string

record ArtifactoryConfig = af_BaseURL :: string

record ArtifactsConfig =
  art_Backend :: string
  art_LocalPath :: string
  art_S3 :: S3Config
  art_GCS :: GCSConfig
  art_Artifactory :: ArtifactoryConfig

record NomadConfig = no_Addr :: string

record K8sConfig =
  k8_Namespace :: string
  k8_Image :: string

record RunnerConfig =
  ru_Type :: string
  ru_Nomad :: NomadConfig
  ru_K8s :: K8sConfig

record WorkflowsConfig =
  wf_RepoURL :: string
  wf_CacheDir :: string

record Config =
  cfg_Server :: ServerConfig
  cfg_DB :: DBConfig
  cfg_Secrets :: SecretsConfig
  cfg_Artifacts :: ArtifactsConfig
  cfg_Runner :: RunnerConfig
  cfg_Workflows :: WorkflowsConfig

text \<open>Fields that the literal of \<open>Default\<close> leaves out have the zero value.\<close>

definition Default_Config :: Config where
  "Default_Config =
     \<lparr>cfg_Server = \<lparr>sc_GRPCPort = ''9000'', sc_HTTPPort = ''8080''\<rparr>,
      cfg_DB = \<lparr>dc_Backend = ''sqlite'', dc_SQLitePath = ''brazier.db''\<rparr>,
      cfg_Secrets =
        \<lparr>sec_Backend = ''db'', sec_AWSSSM = \<lparr>ac_Prefix = []\<rparr>, sec_GCP = \<lparr>gc_ProjectID = []\<rparr>,
         sec_Vault = \<lparr>vc_Addr = [], vc_Mount = [], vc_Prefix = []\<rparr>\<rparr>,
      cfg_Artifacts =
        \<lparr>art_Backend = ''local'', art_LocalPath = ''./artifacts'',
         art_S3 = \<lparr>s3_Bucket = [], s3_Prefix = [], s3_Endpoint = []\<rparr>,
         art_GCS = \<lparr>gs_Bucket = [], gs_Prefix = []\<rparr>, art_Artifactory = \<lparr>af_BaseURL = []\<rparr>\<rparr>,
      cfg_Runner =
        \<lparr>ru_Type = ''agent'', ru_Nomad = \<lparr>no_Addr = []\<rparr>, ru_K8s = \<lparr>k8_Namespace = [], k8_Image = []\<rparr>\<rparr>,
      cfg_Workflows = \<lparr>wf_RepoURL = [], wf_CacheDir = []\<rparr>\<rparr>"

section \<open>Loading\<close>

datatype file_status = File_missing | File_stat_error string | File_exists "string result"

type_synonym yaml_decoder = "string \<Rightarrow> Config \<Rightarrow> Config result"

text \<open>\<open>os.ReadFile\<close> of a path, and \<open>os.IsNotExist\<close> of the error of \<open>os.Stat\<close>.\<close>

definition ReadFile :: "(string \<Rightarrow> file_status) \<Rightarrow> string \<Rightarrow> string result" where
  "ReadFile fs path =
     (case fs path of
        File_missing \<Rightarrow> Inl (DriverErr ''no such file or directory'')
      | File_stat_error m \<Rightarrow> Inl (DriverErr m)
      | File_exists r \<Rightarrow> r)"

definition Load_Config :: "yaml_decoder \<Rightarrow> (string \<Rightarrow> file_status) \<Rightarrow> string \<Rightarrow> Config result" where
  "Load_Config yaml fs path =
     (let cfg = Default_Config in
      case ReadFile fs path of
        Inl e \<Rightarrow> Inl (Wrapf ''read config %q'' [path] e)
      | Inr data \<Rightarrow>
          (case yaml data cfg of
             Inl e \<Rightarrow> Inl (Wrapf ''parse config %q'' [path] e)
           | Inr cfg \<Rightarrow> Inr cfg))"

definition LoadOptional ::
  "yaml_decoder \<Rightarrow> (string \<Rightarrow> file_status) \<Rightarrow> string \<Rightarrow> Config result" where
  "LoadOptional yaml fs path =
     (if fs path = File_missing then Inr Default_Config else Load_Config yaml fs path)"

text \<open>The start of \<open>run\<close> in \<open>cmd/master/main.go\<close>, with the variable \<open>BRAZIER_CONFIG\<close>.\<close>

definition run_config ::
  "yaml_decoder \<Rightarrow> (string \<Rightarrow> file_status) \<Rightarrow> string \<Rightarrow> Config result" where
  "run_config yaml fs configVar =
     (let configPath = (if configVar = [] then ''brazier.yaml'' else configVar) in
      case LoadOptional yaml fs configPath of
        Inl e \<Rightarrow> Inl (Wrapf ''load config'' [] e)
      | Inr cfg \<Rightarrow> Inr cfg)"

text \<open>
  The master starts without an error from its configuration exactly when the file is
  missing, or can be read and decodes onto the defaults; it then runs on the defaults, or on what the
  decoder made of them. A file that exists but cannot be read is an error, not the defaults.
\<close>

lemma run_config_outcome:
  "run_config yaml fs var =
    (let path = (if var = [] then ''brazier.yaml'' else var) in
     case fs path of
       File_missing \<Rightarrow> Inr Default_Config
     | File_stat_error m \<Rightarrow> Inl (Wrapf ''load config'' [] (Wrapf ''read config %q'' [path] (DriverErr m)))
     | File_exists (Inl e) \<Rightarrow> Inl (Wrapf ''load config'' [] (Wrapf ''read config %q'' [path] e))
     | File_exists (Inr data) \<Rightarrow>
         (case yaml data Default_Config of
            Inl e \<Rightarrow> Inl (Wrapf ''load config'' [] (Wrapf ''parse config %q'' [path] e))
          | Inr cfg \<Rightarrow> Inr cfg))"
  by (simp add: run_config_def LoadOptional_def Load_Config_def ReadFile_def Let_def
      split: file_status.split sum.split)

end
