(* ===== verification/Auth.thy ===== *)
theory Auth
  imports Sql_Tables
begin

text \<open>
  \<open>internal/auth\<close>: API keys (\<open>apikey.go\<close>), sessions (\<open>session.go\<close>) and the HTTP and gRPC middleware
  (\<open>middleware.go\<close>). bcrypt is a parameter; random bytes and the time of a call are arguments or come
  from the engine; both tables are in one \<open>*sql.DB\<close>.
\<close>

section \<open>The tables\<close>

record api_key_row =
  kr_id :: string
  kr_name :: string
  kr_hash :: string
  kr_created_at :: int

record session_row =
  sr_token :: string
  sr_user_id :: string
  sr_login :: string
  sr_expires_at :: int

record auth_db = sql_store +
  au_keys :: "api_key_row list"
  au_sessions :: "session_row list"

text \<open>
  The order in which the rows of \<open>api_keys\<close> come back, and after how many of them an iteration fails,
  if it does (\<open>rows.Next\<close> returns false and \<open>rows.Err\<close> the error).
\<close>

record auth_env = sql_env +
  ae_key_rank :: "nat \<Rightarrow> api_key_row \<Rightarrow> int"
  ae_cut :: "nat \<Rightarrow> nat option"

definition env_of :: "auth_env \<Rightarrow> sql_env" where "env_of env = sql_env.truncate env"

record APIKey =
  ak_ID :: string
  ak_Name :: string
  ak_Hash :: string
  ak_CreatedAt :: time

record Session =
  se_Token :: string
  se_UserID :: string
  se_Login :: string
  se_ExpiresAt :: time

section \<open>API keys\<close>

text \<open>
  bcrypt: \<open>bc_generate salt password\<close> is \<open>GenerateFromPassword\<close> with the salt it draws, and
  \<open>bc_compare hash password\<close> says whether \<open>CompareHashAndPassword\<close> returns nil.
\<close>

record bcrypt =
  bc_generate :: "string \<Rightarrow> string \<Rightarrow> string result"
  bc_compare :: "string \<Rightarrow> string \<Rightarrow> bool"

text \<open>How many random bytes \<open>Generate\<close> and \<open>Create\<close> ask for.\<close>

definition apiKeyRawLen :: nat where "apiKeyRawLen = 32"

definition sessionTokenLen :: nat where "sessionTokenLen = 32"

definition apiKeyPrefix :: string where "apiKeyPrefix = ''bz_''"

text \<open>\<open>NewAPIKeyStore\<close>: the table is there, empty, before the statement creates it.\<close>

definition NewAPIKeyStore :: "auth_env \<Rightarrow> auth_db \<Rightarrow> unit result \<times> auth_db" where
  "NewAPIKeyStore env db =
     (case sql_exec (env_of env) (\<lambda>_ db. (Inr (), db)) db of
        (Inl e, db1) \<Rightarrow> (Inl (Wrapf ''migrate api_keys'' [] e), db1)
      | (Inr u, db1) \<Rightarrow> (Inr u, db1))"

text \<open>
  \<open>Generate\<close>: \<open>buf\<close> is what \<open>rand.Read\<close> gives, or its error, and \<open>idbuf\<close> the bytes of \<open>newID\<close>.
\<close>

definition newID :: "string \<Rightarrow> string" where "newID idbuf = hex_EncodeToString idbuf"

definition Generate ::
  "bcrypt \<Rightarrow> auth_env \<Rightarrow> string result \<Rightarrow> string \<Rightarrow> string \<Rightarrow> string \<Rightarrow> auth_db \<Rightarrow> string result \<times> auth_db" where
  "Generate bc env buf salt idbuf name db =
     (case buf of
        Inl e \<Rightarrow> (Inl (Wrapf ''generate key'' [] e), db)
      | Inr bytes \<Rightarrow>
          (let raw = apiKeyPrefix @ hex_EncodeToString bytes in
           case bc_generate bc salt raw of
             Inl e \<Rightarrow> (Inl (Wrapf ''hash key'' [] e), db)
           | Inr hash \<Rightarrow>
               (case sql_exec (env_of env) (\<lambda>n db.
                      let row = \<lparr>kr_id = newID idbuf, kr_name = name, kr_hash = hash,
                                 kr_created_at = UnixMilli (env_now env n)\<rparr> in
                      case insert_pk kr_id row (au_keys db) of
                        None \<Rightarrow> (Inl ErrConstraint, db)
                      | Some rows \<Rightarrow> (Inr (), db\<lparr>au_keys := rows\<rparr>)) db of
                  (Inl e, db1) \<Rightarrow> (Inl (Wrapf ''store key'' [] e), db1)
                | (Inr _, db1) \<Rightarrow> (Inr raw, db1))))"

definition APIKey_of_row :: "api_key_row \<Rightarrow> APIKey" where
  "APIKey_of_row r =
     \<lparr>ak_ID = kr_id r, ak_Name = kr_name r, ak_Hash = kr_hash r,
      ak_CreatedAt = time_UnixMilli (kr_created_at r)\<rparr>"

text \<open>The rows that the iteration delivers, and whether it ended by an error.\<close>

definition key_rows :: "auth_env \<Rightarrow> nat \<Rightarrow> api_key_row list \<Rightarrow> api_key_row list" where
  "key_rows env n rows = (case ae_cut env n of None \<Rightarrow> rows | Some k \<Rightarrow> take k rows)"

fun find_key :: "bcrypt \<Rightarrow> string \<Rightarrow> api_key_row list \<Rightarrow> APIKey result" where
  "find_key bc raw [] = Inl (Errorf ''invalid api key'' [])"
| "find_key bc raw (r # rows) =
     (let k = APIKey_of_row r in
      if bc_compare bc (ak_Hash k) raw then Inr k else find_key bc raw rows)"

definition APIKey_Validate ::
  "bcrypt \<Rightarrow> auth_env \<Rightarrow> string \<Rightarrow> auth_db \<Rightarrow> APIKey result \<times> auth_db" where
  "APIKey_Validate bc env raw =
     sql_exec (env_of env) (\<lambda>n db.
       (find_key bc raw (key_rows env n (sort_key (ae_key_rank env n) (au_keys db))), db))"

definition APIKey_Delete :: "auth_env \<Rightarrow> string \<Rightarrow> auth_db \<Rightarrow> unit result \<times> auth_db" where
  "APIKey_Delete env i =
     sql_exec (env_of env) (\<lambda>_ db. (Inr (), db\<lparr>au_keys := delete_where (\<lambda>r. kr_id r = i) (au_keys db)\<rparr>))"

definition APIKey_List :: "auth_env \<Rightarrow> auth_db \<Rightarrow> APIKey list result \<times> auth_db" where
  "APIKey_List env =
     sql_exec (env_of env) (\<lambda>n db.
       let rows = sort_key kr_created_at (sort_key (ae_key_rank env n) (au_keys db));
           keys = map (\<lambda>r. (APIKey_of_row r)\<lparr>ak_Hash := []\<rparr>) (key_rows env n rows) in
       (case ae_cut env n of None \<Rightarrow> Inr keys | Some _ \<Rightarrow> Inl (DriverErr ''rows''), db))"

section \<open>Sessions\<close>

definition sessionTTL :: int where "sessionTTL = 24 * 3600 * 1000000000"

definition NewSessionStore :: "auth_env \<Rightarrow> auth_db \<Rightarrow> unit result \<times> auth_db" where
  "NewSessionStore env db =
     (case sql_exec (env_of env) (\<lambda>_ db. (Inr (), db)) db of
        (Inl e, db1) \<Rightarrow> (Inl (Wrapf ''migrate sessions'' [] e), db1)
      | (Inr u, db1) \<Rightarrow> (Inr u, db1))"

definition Session_Create ::
  "auth_env \<Rightarrow> string result \<Rightarrow> time \<Rightarrow> string \<Rightarrow> string \<Rightarrow> auth_db \<Rightarrow> Session result \<times> auth_db" where
  "Session_Create env buf now userID login db =
     (case buf of
        Inl e \<Rightarrow> (Inl (Wrapf ''generate token'' [] e), db)
      | Inr bytes \<Rightarrow>
          (let token = hex_EncodeToString bytes; expiresAt = now + sessionTTL in
           case sql_exec (env_of env) (\<lambda>_ db.
                  let row = \<lparr>sr_token = token, sr_user_id = userID, sr_login = login,
                             sr_expires_at = UnixMilli expiresAt\<rparr> in
                  case insert_pk sr_token row (au_sessions db) of
                    None \<Rightarrow> (Inl ErrConstraint, db)
                  | Some rows \<Rightarrow> (Inr (), db\<lparr>au_sessions := rows\<rparr>)) db of
             (Inl e, db1) \<Rightarrow> (Inl (Wrapf ''store session'' [] e), db1)
           | (Inr _, db1) \<Rightarrow>
               (Inr \<lparr>se_Token = token, se_UserID = userID, se_Login = login, se_ExpiresAt = expiresAt\<rparr>,
                db1)))"

definition Session_Delete :: "auth_env \<Rightarrow> string \<Rightarrow> auth_db \<Rightarrow> unit result \<times> auth_db" where
  "Session_Delete env token =
     sql_exec (env_of env)
       (\<lambda>_ db. (Inr (), db\<lparr>au_sessions := delete_where (\<lambda>r. sr_token r = token) (au_sessions db)\<rparr>))"

definition Session_Validate ::
  "auth_env \<Rightarrow> time \<Rightarrow> string \<Rightarrow> auth_db \<Rightarrow> Session result \<times> auth_db" where
  "Session_Validate env now token db =
     (case sql_exec (env_of env) (\<lambda>_ db.
             case select_pk sr_token token (au_sessions db) of
               None \<Rightarrow> (Inl ErrNoRows, db)
             | Some r \<Rightarrow> (Inr r, db)) db of
        (Inl e, db1) \<Rightarrow>
          (if errors_Is e ErrNoRows then (Inl (Errorf ''session not found'' []), db1) else (Inl e, db1))
      | (Inr r, db1) \<Rightarrow>
          (let sess = \<lparr>se_Token = sr_token r, se_UserID = sr_user_id r, se_Login = sr_login r,
                       se_ExpiresAt = time_UnixMilli (sr_expires_at r)\<rparr> in
           if now > se_ExpiresAt sess
           then (Inl (Errorf ''session expired'' []), snd (Session_Delete env token db1))
           else (Inr sess, db1)))"

definition DeleteExpired :: "auth_env \<Rightarrow> time \<Rightarrow> auth_db \<Rightarrow> unit result \<times> auth_db" where
  "DeleteExpired env now =
     sql_exec (env_of env)
       (\<lambda>_ db. (Inr (), db\<lparr>au_sessions := delete_where (\<lambda>r. sr_expires_at r < UnixMilli now) (au_sessions db)\<rparr>))"

section \<open>The middleware\<close>

definition extractBearer :: "string \<Rightarrow> string" where
  "extractBearer header =
     (if HasPrefix header ''Bearer '' then TrimSpace (TrimPrefix header ''Bearer '') else [])"

text \<open>What is put into the context of the request that is handed on.\<close>

datatype principal = No_principal | Key_principal APIKey | Session_principal Session

datatype http_verdict = Unauthorized_401 | Serve_next principal

definition HTTPMiddleware ::
  "bool \<Rightarrow> bcrypt \<Rightarrow> auth_env \<Rightarrow> time \<Rightarrow> string \<Rightarrow> auth_db \<Rightarrow> http_verdict \<times> auth_db" where
  "HTTPMiddleware AuthEnabled bc env now header db =
     (if \<not> AuthEnabled then (Serve_next No_principal, db)
      else
        (let token = extractBearer header in
         if token = [] then (Unauthorized_401, db)
         else if HasPrefix token apiKeyPrefix then
           (case APIKey_Validate bc env token db of
              (Inl e, db1) \<Rightarrow> (Unauthorized_401, db1)
            | (Inr key, db1) \<Rightarrow> (Serve_next (Key_principal key), db1))
         else
           (case Session_Validate env now token db of
              (Inl e, db1) \<Rightarrow> (Unauthorized_401, db1)
            | (Inr sess, db1) \<Rightarrow> (Serve_next (Session_principal sess), db1))))"

text \<open>
  \<open>metadata.FromIncomingContext\<close> and \<open>md.Get("authorization")\<close>: no metadata, or the list of values.
  The result is the message of the status \<open>Unauthenticated\<close>, or none.
\<close>

definition validateGRPC ::
  "bcrypt \<Rightarrow> auth_env \<Rightarrow> time \<Rightarrow> string list option \<Rightarrow> auth_db \<Rightarrow> string option \<times> auth_db" where
  "validateGRPC bc env now md db =
     (case md of
        None \<Rightarrow> (Some ''missing metadata'', db)
      | Some [] \<Rightarrow> (Some ''missing authorization'', db)
      | Some (v # vals) \<Rightarrow>
          (let token = extractBearer v in
           if token = [] then (Some ''invalid authorization header'', db)
           else if HasPrefix token apiKeyPrefix then
             (case APIKey_Validate bc env token db of
                (Inl e, db1) \<Rightarrow> (Some ''invalid api key'', db1)
              | (Inr key, db1) \<Rightarrow> (None, db1))
           else
             (case Session_Validate env now token db of
                (Inl e, db1) \<Rightarrow> (Some ''invalid session'', db1)
              | (Inr sess, db1) \<Rightarrow> (None, db1))))"

text \<open>The two interceptors: \<open>handler\<close> is the RPC on a state \<open>'k\<close>.\<close>

definition GRPCInterceptor ::
  "bool \<Rightarrow> bcrypt \<Rightarrow> auth_env \<Rightarrow> time \<Rightarrow> ('k \<Rightarrow> 'a \<times> 'k) \<Rightarrow> string list option \<Rightarrow> auth_db \<times> 'k \<Rightarrow>
   (string + 'a) \<times> auth_db \<times> 'k" where
  "GRPCInterceptor AuthEnabled bc env now handler md = (\<lambda>(db, k).
     (if \<not> AuthEnabled then (case handler k of (a, k1) \<Rightarrow> (Inr a, db, k1))
      else case validateGRPC bc env now md db of
        (Some m, db1) \<Rightarrow> (Inl m, db1, k)
      | (None, db1) \<Rightarrow> (case handler k of (a, k1) \<Rightarrow> (Inr a, db1, k1))))"

end
