(* ===== verification/Auth_Props.thy ===== *)
theory Auth_Props
  imports Auth
begin

text \<open>
  The properties of package \<open>auth\<close>: keys and sessions are accepted exactly while they should be, and
  the two middlewares decide alike.
\<close>

lemma env_of_sel [simp]: "env_fault (env_of env) = env_fault env" "env_now (env_of env) = env_now env"
  by (cases env; simp add: env_of_def sql_env.defs)+

section \<open>API keys\<close>

lemma find_key_cases:
  "case find_key bc raw rows of
     Inl e \<Rightarrow> e = Errorf ''invalid api key'' [] \<and> (\<forall>r \<in> set rows. \<not> bc_compare bc (kr_hash r) raw)
   | Inr k \<Rightarrow> \<exists>r \<in> set rows. k = APIKey_of_row r \<and> bc_compare bc (kr_hash r) raw"
  by (induction rows) (auto simp: Let_def APIKey_of_row_def split: sum.splits)

lemma set_key_rows: "set (key_rows env n rows) \<subseteq> set rows"
  by (auto simp: key_rows_def dest: in_set_takeD split: option.splits)

text \<open>
  \<open>Validate\<close> accepts a key exactly when a stored hash matches it. A key that it returns is
  one that is stored and whose hash matches the raw key, so with no such row nothing is accepted; and
  when the engine does not fail and some stored hash matches, a key is returned. It changes no row.
\<close>

lemma APIKey_Validate_exact:
  assumes "APIKey_Validate bc env raw db = (q, db')"
  shows "au_keys db' = au_keys db
    \<and> (\<forall>k. q = Inr k \<longrightarrow> (\<exists>r \<in> set (au_keys db). k = APIKey_of_row r \<and> bc_compare bc (kr_hash r) raw))
    \<and> (env_fault env (st_stmts db) = None \<and> ae_cut env (st_stmts db) = None \<longrightarrow>
        ((\<exists>k. q = Inr k) \<longleftrightarrow> (\<exists>r \<in> set (au_keys db). bc_compare bc (kr_hash r) raw)))"
proof (cases "env_fault env (st_stmts db)")
  case (Some m)
  with assms show ?thesis by (auto simp: APIKey_Validate_def sql_exec_def Let_def)
next
  case None
  let ?rows = "key_rows env (st_stmts db) (sort_key (ae_key_rank env (st_stmts db)) (au_keys db))"
  have q: "q = find_key bc raw ?rows" "au_keys db' = au_keys db"
    using assms None by (auto simp: APIKey_Validate_def sql_exec_def Let_def)
  have sub: "set ?rows \<subseteq> set (au_keys db)" using set_key_rows [of env _ "sort_key _ (au_keys db)"] by simp
  have all: "set ?rows = set (au_keys db)" if "ae_cut env (st_stmts db) = None"
    using that by (simp add: key_rows_def)
  note fk = find_key_cases [of ?rows bc raw, folded q(1)]
  show ?thesis
  proof (cases q)
    case (Inl e)
    then have "\<forall>r \<in> set ?rows. \<not> bc_compare bc (kr_hash r) raw" using fk by simp
    with Inl q(2) all show ?thesis by simp
  next
    case (Inr k)
    then obtain r where r: "r \<in> set ?rows" "k = APIKey_of_row r" "bc_compare bc (kr_hash r) raw"
      using fk by auto
    then have "r \<in> set (au_keys db)" using sub by blast
    with r(2,3) Inr q(2) show ?thesis by blast
  qed
qed

text \<open>The key that \<open>Generate\<close> returns and the row that it stores.\<close>

lemma Generate_row:
  assumes "Generate bc env (Inr bytes) salt idbuf name db = (Inr raw, db1)"
  shows "raw = ''bz_'' @ hex_EncodeToString bytes
    \<and> (\<exists>hash. bc_generate bc salt raw = Inr hash
        \<and> au_keys db1 = au_keys db @ [\<lparr>kr_id = newID idbuf, kr_name = name, kr_hash = hash,
             kr_created_at = UnixMilli (env_now env (st_stmts db))\<rparr>])"
proof -
  have raw: "raw = ''bz_'' @ hex_EncodeToString bytes"
    using assms by (auto simp: Generate_def apiKeyPrefix_def Let_def split: sum.splits prod.splits)
  obtain hash where hash: "bc_generate bc salt raw = Inr hash"
    using assms by (auto simp: Generate_def raw apiKeyPrefix_def Let_def split: sum.splits prod.splits)
  then show ?thesis using assms raw
    by (auto simp: Generate_def apiKeyPrefix_def Let_def sql_exec_def insert_pk_def split: if_splits option.splits)
qed

text \<open>A raw key is 67 characters long, within the 72 bytes of a password that bcrypt takes.\<close>

lemma Generate_length:
  assumes "Generate bc env (Inr bytes) salt idbuf name db = (Inr raw, db1)" and "length bytes = apiKeyRawLen"
  shows "length raw = 67"
  using Generate_row [OF assms(1)] assms(2) by (simp add: length_hex_EncodeToString apiKeyRawLen_def)

text \<open>
  A new key works. After \<open>Generate\<close> returned a raw key that matches none of the hashes
  stored before, \<open>Validate\<close> of it, when the engine does not fail, returns the key of the new row,
  with its name and ID; the raw key starts with \<open>bz_\<close> and goes on with two hex digits for each random
  byte. The hypothesis on bcrypt is that a hash matches the password it was made from.
\<close>

lemma APIKey_roundtrip:
  assumes "Generate bc env (Inr bytes) salt idbuf name db = (Inr raw, db1)"
    and "\<forall>s p h. bc_generate bc s p = Inr h \<longrightarrow> bc_compare bc h p"
    and "\<forall>r \<in> set (au_keys db). \<not> bc_compare bc (kr_hash r) raw"
    and "env_fault env (st_stmts db1) = None" and "ae_cut env (st_stmts db1) = None"
  shows "raw = ''bz_'' @ hex_EncodeToString bytes
    \<and> (\<exists>k. fst (APIKey_Validate bc env raw db1) = Inr k \<and> ak_Name k = name \<and> ak_ID k = newID idbuf)"
proof -
  have raw: "raw = ''bz_'' @ hex_EncodeToString bytes" using Generate_row [OF assms(1)] by simp
  obtain hash where hash: "bc_generate bc salt raw = Inr hash"
    and keys: "au_keys db1 = au_keys db @ [\<lparr>kr_id = newID idbuf, kr_name = name, kr_hash = hash,
      kr_created_at = UnixMilli (env_now env (st_stmts db))\<rparr>]"
    using Generate_row [OF assms(1)] by blast
  let ?row = "\<lparr>kr_id = newID idbuf, kr_name = name, kr_hash = hash,
    kr_created_at = UnixMilli (env_now env (st_stmts db))\<rparr>"
  have rows: "set (au_keys db1) = insert ?row (set (au_keys db))" using keys by simp
  have match: "bc_compare bc hash raw" using assms(2) hash by blast
  obtain q db2 where v: "APIKey_Validate bc env raw db1 = (q, db2)" by (cases "APIKey_Validate bc env raw db1")
  let ?n = "st_stmts db1"
  have q: "q = find_key bc raw (sort_key (ae_key_rank env ?n) (au_keys db1))"
    using v assms(4,5) by (auto simp: APIKey_Validate_def sql_exec_def Let_def key_rows_def)
  have "\<exists>r \<in> set (au_keys db1). q = Inr (APIKey_of_row r) \<and> bc_compare bc (kr_hash r) raw"
    using find_key_cases [of "sort_key (ae_key_rank env ?n) (au_keys db1)" bc raw] match rows
    by (cases q) (auto simp: q)
  then have "q = Inr (APIKey_of_row ?row)" using rows assms(3) by auto
  then have f: "fst (APIKey_Validate bc env raw db1) = Inr (APIKey_of_row ?row)" using v by simp
  show ?thesis unfolding f using raw by (simp add: APIKey_of_row_def)
qed

text \<open>Stand-ins: a bcrypt that keeps the password, and an engine that never fails.\<close>

definition toy_bcrypt :: bcrypt where
  "toy_bcrypt = \<lparr>bc_generate = (\<lambda>s p. Inr (''h:'' @ p)), bc_compare = (\<lambda>h p. h = ''h:'' @ p)\<rparr>"

definition toy_env :: auth_env where
  "toy_env =
     \<lparr>env_fault = (\<lambda>_. None), env_now = (\<lambda>n. int n * 1000000), env_run_rank = (\<lambda>_ _. 0),
      env_node_rank = (\<lambda>_ _. 0), env_text = (\<lambda>_. True), ae_key_rank = (\<lambda>_ _. 0), ae_cut = (\<lambda>_. None)\<rparr>"

definition auth_new :: auth_db where
  "auth_new =
     \<lparr>st_runs = [], st_nodes = [], st_stmts = 0, st_next_log = 1, au_keys = [], au_sessions = []\<rparr>"

definition toy_key :: "string result \<times> auth_db" where
  "toy_key = Generate toy_bcrypt toy_env (Inr ''ab'') [] ''i'' ''ci'' auth_new"

lemma toy_key_ok: "fst toy_key = Inr ''bz_6162''"
  by code_simp

lemma toy_key_eq:
  "Generate toy_bcrypt toy_env (Inr ''ab'') [] ''i'' ''ci'' auth_new = (Inr ''bz_6162'', snd toy_key)"
  using toy_key_ok by (simp add: toy_key_def prod_eq_iff)

lemma APIKey_roundtrip_witness:
  "\<exists>k. fst (APIKey_Validate toy_bcrypt toy_env ''bz_6162'' (snd toy_key)) = Inr k \<and> ak_Name k = ''ci''"
proof -
  have law: "\<forall>s p h. bc_generate toy_bcrypt s p = Inr h \<longrightarrow> bc_compare toy_bcrypt h p"
    by (auto simp: toy_bcrypt_def)
  have fresh: "\<forall>r \<in> set (au_keys auth_new). \<not> bc_compare toy_bcrypt (kr_hash r) ''bz_6162''"
    by (simp add: auth_new_def)
  have up: "env_fault toy_env n = None" "ae_cut toy_env n = None" for n by (simp_all add: toy_env_def)
  show ?thesis using APIKey_roundtrip [OF toy_key_eq law fresh up] by blast
qed

lemma APIKey_Validate_exact_witness:
  "\<not> (\<exists>k. fst (APIKey_Validate toy_bcrypt toy_env ''bz_x'' (snd toy_key)) = Inr k)"
proof -
  have "\<not> (\<exists>r \<in> set (au_keys (snd toy_key)). bc_compare toy_bcrypt (kr_hash r) ''bz_x'')" by code_simp
  moreover have "env_fault toy_env n = None" "ae_cut toy_env n = None" for n by (simp_all add: toy_env_def)
  ultimately show ?thesis
    using APIKey_Validate_exact [OF prod.collapse [symmetric], of toy_bcrypt toy_env "''bz_x''" "snd toy_key"]
    by blast
qed

section \<open>Sessions\<close>

lemma Session_Validate_row:
  assumes "env_fault env (st_stmts db) = None" and "select_pk sr_token token (au_sessions db) = Some r"
  shows "Session_Validate env now token db =
    (if now > time_UnixMilli (sr_expires_at r)
     then (Inl (Errorf ''session expired'' []),
           snd (Session_Delete env token (db\<lparr>st_stmts := Suc (st_stmts db)\<rparr>)))
     else (Inr \<lparr>se_Token = sr_token r, se_UserID = sr_user_id r, se_Login = sr_login r,
                se_ExpiresAt = time_UnixMilli (sr_expires_at r)\<rparr>, db\<lparr>st_stmts := Suc (st_stmts db)\<rparr>))"
  using assms by (simp add: Session_Validate_def sql_exec_def Let_def)

lemma select_pk_inserted:
  "insert_pk key row tbl = Some tbl' \<Longrightarrow> select_pk key (key row) tbl' = Some row"
proof -
  have "key row \<notin> key ` set tbl \<Longrightarrow> find (\<lambda>r. key r = key row) (tbl @ [row]) = Some row"
    by (induction tbl) auto
  then show "insert_pk key row tbl = Some tbl' \<Longrightarrow> select_pk key (key row) tbl' = Some row"
    by (auto simp: insert_pk_def select_pk_def split: if_splits)
qed

text \<open>
  Property C28: the life of a session. After \<open>Create\<close> at time \<open>t0\<close>, \<open>Validate\<close> of its token at time \<open>t\<close>
  (when the engine does not fail) returns the session with its user and login up to and including the
  instant 24 hours after \<open>t0\<close> cut to whole milliseconds; after that it reports that the session is
  expired and, when the delete succeeds, the row is gone.
\<close>

theorem Session_lifetime:
  assumes "Session_Create env (Inr bytes) t0 user login db = (Inr s, db1)"
    and "env_fault env (st_stmts db1) = None"
  shows "se_Token s = hex_EncodeToString bytes \<and>
    (if t \<le> time_UnixMilli (UnixMilli (t0 + sessionTTL))
     then fst (Session_Validate env t (se_Token s) db1)
          = Inr (s\<lparr>se_ExpiresAt := time_UnixMilli (UnixMilli (t0 + sessionTTL))\<rparr>)
     else fst (Session_Validate env t (se_Token s) db1) = Inl (Errorf ''session expired'' [])
          \<and> (env_fault env (Suc (st_stmts db1)) = None \<longrightarrow>
              select_pk sr_token (se_Token s) (au_sessions (snd (Session_Validate env t (se_Token s) db1))) = None))"
proof -
  let ?row = "\<lparr>sr_token = hex_EncodeToString bytes, sr_user_id = user, sr_login = login,
    sr_expires_at = UnixMilli (t0 + sessionTTL)\<rparr>"
  have s: "s = \<lparr>se_Token = hex_EncodeToString bytes, se_UserID = user, se_Login = login,
      se_ExpiresAt = t0 + sessionTTL\<rparr>"
    using assms(1) by (auto simp: Session_Create_def Let_def split: sum.splits prod.splits)
  have "insert_pk sr_token ?row (au_sessions db) = Some (au_sessions db1)"
    using assms(1) by (auto simp: Session_Create_def Let_def sql_exec_def split: option.splits)
  then have row: "select_pk sr_token (se_Token s) (au_sessions db1) = Some ?row"
    using select_pk_inserted by (fastforce simp: s)
  have gone: "select_pk sr_token k (delete_where (\<lambda>r. sr_token r = k) rows) = None" for k and rows :: "session_row list"
    by (induction rows) (auto simp: select_pk_def delete_where_def)
  note v = Session_Validate_row [OF assms(2) row, of t]
  show ?thesis
  proof (cases "t \<le> time_UnixMilli (UnixMilli (t0 + sessionTTL))")
    case True
    with v s show ?thesis by simp
  next
    case False
    with v s gone show ?thesis by (simp add: Session_Delete_def sql_exec_def Let_def)
  qed
qed

definition toy_session :: "Session result \<times> auth_db" where
  "toy_session = Session_Create toy_env (Inr ''ab'') 1500000 ''u'' ''octocat'' auth_new"

lemma toy_session_eq:
  "Session_Create toy_env (Inr ''ab'') 1500000 ''u'' ''octocat'' auth_new =
     (Inr \<lparr>se_Token = ''6162'', se_UserID = ''u'', se_Login = ''octocat'', se_ExpiresAt = 86400001500000\<rparr>,
      snd toy_session)"
proof -
  have "fst toy_session = Inr \<lparr>se_Token = ''6162'', se_UserID = ''u'', se_Login = ''octocat'',
      se_ExpiresAt = 86400001500000\<rparr>" by code_simp
  then show ?thesis by (simp add: toy_session_def prod_eq_iff)
qed

theorem Session_lifetime_witness:
  "fst (Session_Validate toy_env 86400001000000 ''6162'' (snd toy_session))
     = Inr \<lparr>se_Token = ''6162'', se_UserID = ''u'', se_Login = ''octocat'', se_ExpiresAt = 86400001000000\<rparr>
   \<and> fst (Session_Validate toy_env 86400001000001 ''6162'' (snd toy_session)) = Inl (Errorf ''session expired'' [])"
proof -
  have e: "env_fault toy_env (st_stmts (snd toy_session)) = None" by (simp add: toy_env_def)
  have h: "hex_digit 6 = CHR ''6''" "hex_digit (Suc 0) = CHR ''1''" "hex_digit 2 = CHR ''2''"
    by code_simp+
  show ?thesis
    using Session_lifetime [OF toy_session_eq e, of 86400001000000]
      Session_lifetime [OF toy_session_eq e, of 86400001000001]
    by (simp add: UnixMilli_def time_UnixMilli_def sessionTTL_def h)
qed

text \<open>
  \<open>DeleteExpired\<close> at a time removes only sessions that \<open>Validate\<close> refuses from then on: a
  token that \<open>Validate\<close> accepts at this time or later, it still accepts after the clean-up, with the
  same session.
\<close>

lemma DeleteExpired_keeps_valid:
  assumes "distinct (map sr_token (au_sessions db))" and "env_fault env = (\<lambda>_. None)"
    and "fst (Session_Validate env t token db) = Inr s" and "now \<le> t"
  shows "fst (Session_Validate env t token (snd (DeleteExpired env now db))) = Inr s"
proof -
  have f: "env_fault env n = None" for n using assms(2) by simp
  obtain r where r: "select_pk sr_token token (au_sessions db) = Some r"
    using assms(3) f
    by (cases "select_pk sr_token token (au_sessions db)")
      (simp_all add: Session_Validate_def sql_exec_def Let_def)
  have live: "t \<le> time_UnixMilli (sr_expires_at r)" and s: "s = \<lparr>se_Token = sr_token r,
      se_UserID = sr_user_id r, se_Login = sr_login r, se_ExpiresAt = time_UnixMilli (sr_expires_at r)\<rparr>"
    using assms(3) Session_Validate_row [OF f r] by (auto split: if_splits)
  have "UnixMilli now \<le> sr_expires_at r"
  proof -
    have "now \<le> sr_expires_at r * 1000000" using live assms(4) by (simp add: time_UnixMilli_def)
    then have "now div 1000000 \<le> (sr_expires_at r * 1000000) div 1000000" by (intro zdiv_mono1) simp_all
    then show ?thesis by (simp add: UnixMilli_def)
  qed
  then have keep: "\<not> sr_expires_at r < UnixMilli now" by simp
  have mem: "r \<in> set (au_sessions db)" "sr_token r = token" using select_pk_Some [OF r] by simp_all
  have "select_pk sr_token token (delete_where (\<lambda>r. sr_expires_at r < UnixMilli now) rows) = Some r"
    if "distinct (map sr_token rows)" "r \<in> set rows" for rows
    using that
  proof (induction rows)
    case (Cons x rows)
    then show ?case using keep mem(2) by (auto simp: select_pk_def delete_where_def image_iff)
  qed simp
  then have "select_pk sr_token token (au_sessions (snd (DeleteExpired env now db))) = Some r"
    using assms(1) mem f by (simp add: DeleteExpired_def sql_exec_def Let_def)
  from Session_Validate_row [OF f this] live s show ?thesis by simp
qed

lemma DeleteExpired_keeps_valid_witness:
  "fst (Session_Validate toy_env 5 ''6162'' (snd (DeleteExpired toy_env 5 (snd toy_session))))
   = Inr \<lparr>se_Token = ''6162'', se_UserID = ''u'', se_Login = ''octocat'', se_ExpiresAt = 86400001000000\<rparr>"
proof -
  have "distinct (map sr_token (au_sessions (snd toy_session)))" by code_simp
  moreover have "env_fault toy_env = (\<lambda>_. None)" by (simp add: toy_env_def)
  moreover have "fst (Session_Validate toy_env 5 ''6162'' (snd toy_session))
      = Inr \<lparr>se_Token = ''6162'', se_UserID = ''u'', se_Login = ''octocat'', se_ExpiresAt = 86400001000000\<rparr>"
    by code_simp
  ultimately show ?thesis using order_refl by (rule DeleteExpired_keeps_valid)
qed

section \<open>The middleware\<close>

text \<open>
  The HTTP and the gRPC middleware decide alike. For the same \<open>Authorization\<close> value, on the
  same database and at the same time, the one hands the request on exactly when the other returns no
  error, and both leave the same database.
\<close>

lemma middlewares_agree:
  "(fst (HTTPMiddleware True bc env now header db) \<noteq> Unauthorized_401
      \<longleftrightarrow> fst (validateGRPC bc env now (Some (header # others)) db) = None)
   \<and> snd (HTTPMiddleware True bc env now header db)
      = snd (validateGRPC bc env now (Some (header # others)) db)"
  by (simp add: HTTPMiddleware_def validateGRPC_def Let_def split: prod.split sum.split)

text \<open>
  Property C13: with authentication on, a request is handed on only with a credential that is stored:
  its header is \<open>Bearer\<close> and a token, and either the token starts with \<open>bz_\<close> and matches the hash of
  the stored key that is put into the context, or it is the token of the stored session that is put
  there and has not expired. No request passes without a principal.
\<close>

theorem HTTPMiddleware_authentic:
  assumes "fst (HTTPMiddleware True bc env now header db) = Serve_next p"
  shows "HasPrefix header ''Bearer '' \<and> extractBearer header \<noteq> []
    \<and> (case p of
        No_principal \<Rightarrow> False
      | Key_principal k \<Rightarrow> HasPrefix (extractBearer header) apiKeyPrefix
          \<and> (\<exists>r \<in> set (au_keys db). k = APIKey_of_row r \<and> bc_compare bc (kr_hash r) (extractBearer header))
      | Session_principal s \<Rightarrow> \<not> HasPrefix (extractBearer header) apiKeyPrefix
          \<and> se_Token s = extractBearer header \<and> now \<le> se_ExpiresAt s
          \<and> (\<exists>r \<in> set (au_sessions db). sr_token r = se_Token s \<and> sr_user_id r = se_UserID s
               \<and> sr_login r = se_Login s \<and> time_UnixMilli (sr_expires_at r) = se_ExpiresAt s))"
proof -
  let ?t = "extractBearer header"
  have t: "?t \<noteq> []" using assms by (auto simp: HTTPMiddleware_def Let_def split: if_splits)
  then have h: "HasPrefix header ''Bearer ''" by (auto simp: extractBearer_def split: if_splits)
  show ?thesis
  proof (cases "HasPrefix ?t apiKeyPrefix")
    case True
    obtain q db1 where v: "APIKey_Validate bc env ?t db = (q, db1)" by (cases "APIKey_Validate bc env ?t db")
    with assms t True obtain k where k: "q = Inr k" "p = Key_principal k"
      by (cases q) (auto simp: HTTPMiddleware_def Let_def)
    obtain rows where "k = k" "set rows \<subseteq> set (au_keys db)" "find_key bc ?t rows = Inr k"
    proof -
      let ?rows = "key_rows env (st_stmts db) (sort_key (ae_key_rank env (st_stmts db)) (au_keys db))"
      have "set ?rows \<subseteq> set (au_keys db)" using set_key_rows [of env _ "sort_key _ (au_keys db)"] by simp
      moreover have "find_key bc ?t ?rows = Inr k"
        using v k(1) by (auto simp: APIKey_Validate_def sql_exec_def Let_def split: option.splits)
      ultimately show thesis using that by blast
    qed
    with find_key_cases [of rows bc ?t] h t True k show ?thesis by auto
  next
    case False
    obtain q db1 where v: "Session_Validate env now ?t db = (q, db1)" by (cases "Session_Validate env now ?t db")
    with assms t False obtain s where s: "q = Inr s" "p = Session_principal s"
      by (cases q) (auto simp: HTTPMiddleware_def Let_def)
    have f: "env_fault env (st_stmts db) = None"
      using v s by (auto simp: Session_Validate_def sql_exec_def Let_def split: option.splits if_splits)
    obtain r where r: "select_pk sr_token ?t (au_sessions db) = Some r"
      using v s f by (cases "select_pk sr_token ?t (au_sessions db)")
        (auto simp: Session_Validate_def sql_exec_def Let_def split: if_splits)
    with Session_Validate_row [OF f r, of now] v s select_pk_Some [OF r] h t False show ?thesis
      by (auto split: if_splits)
  qed
qed

theorem HTTPMiddleware_authentic_witness:
  "fst (HTTPMiddleware True toy_bcrypt toy_env 0 ''Bearer bz_6162'' (snd toy_key))
     = Serve_next (Key_principal \<lparr>ak_ID = ''69'', ak_Name = ''ci'', ak_Hash = ''h:bz_6162'', ak_CreatedAt = 0\<rparr>)
   \<and> (\<exists>r \<in> set (au_keys (snd toy_key)). bc_compare toy_bcrypt (kr_hash r) ''bz_6162'')"
proof -
  have "TrimSpace ''bz_6162'' = ''bz_6162''"
    by (rule TrimSpace_id; simp add: lead_word_None space_encodings_def HasPrefix_def)
  then have t: "extractBearer ''Bearer bz_6162'' = ''bz_6162''"
    by (simp add: extractBearer_def HasPrefix_def TrimPrefix_def)
  have v: "fst (APIKey_Validate toy_bcrypt toy_env ''bz_6162'' (snd toy_key)) =
      Inr \<lparr>ak_ID = ''69'', ak_Name = ''ci'', ak_Hash = ''h:bz_6162'', ak_CreatedAt = 0\<rparr>"
    by code_simp
  have s: "fst (HTTPMiddleware True toy_bcrypt toy_env 0 ''Bearer bz_6162'' (snd toy_key))
     = Serve_next (Key_principal \<lparr>ak_ID = ''69'', ak_Name = ''ci'', ak_Hash = ''h:bz_6162'', ak_CreatedAt = 0\<rparr>)"
    using v by (auto simp: HTTPMiddleware_def t apiKeyPrefix_def HasPrefix_def split: prod.splits)
  from HTTPMiddleware_authentic [OF this] s show ?thesis by (auto simp: t)
qed

end
