(* ===== verification/Base64.thy ===== *)
theory Base64
  imports Go_Prelude
begin

text \<open>
  \<open>base64.StdEncoding\<close> of the Go standard library, as \<open>internal/secrets/db.go\<close> uses it: three bytes are
  four characters of the alphabet, the last group is padded. The decoder passes over carriage returns
  and newlines and does not look at the bits that padding leaves over.
\<close>

definition b64_char :: "nat \<Rightarrow> char" where
  "b64_char n =
     (if n < 26 then char_of (65 + n)
      else if n < 52 then char_of (71 + n)
      else if n < 62 then char_of (n - 4)
      else if n = 62 then CHR ''+'' else CHR ''/'')"

definition b64_value :: "char \<Rightarrow> nat option" where
  "b64_value c =
     (let n = of_char c in
      if 65 \<le> n \<and> n \<le> 90 then Some (n - 65)
      else if 97 \<le> n \<and> n \<le> 122 then Some (n - 71)
      else if 48 \<le> n \<and> n \<le> 57 then Some (n + 4)
      else if c = CHR ''+'' then Some 62
      else if c = CHR ''/'' then Some 63
      else None)"

fun b64_EncodeToString :: "string \<Rightarrow> string" where
  "b64_EncodeToString [] = []"
| "b64_EncodeToString [a] =
     (let n = of_char a in
      [b64_char (n div 4), b64_char (n mod 4 * 16), CHR ''='', CHR ''=''])"
| "b64_EncodeToString [a, b] =
     (let n = of_char a * 256 + of_char b in
      [b64_char (n div 1024), b64_char (n div 16 mod 64), b64_char (n mod 16 * 4), CHR ''=''])"
| "b64_EncodeToString (a # b # c # cs) =
     (let n = of_char a * 65536 + of_char b * 256 + of_char c in
      b64_char (n div 262144) # b64_char (n div 4096 mod 64) # b64_char (n div 64 mod 64)
        # b64_char (n mod 64) # b64_EncodeToString cs)"

text \<open>The groups of four of a string without line breaks; \<open>None\<close> is a \<open>CorruptInputError\<close>.\<close>

fun b64_groups :: "string \<Rightarrow> string option" where
  "b64_groups [] = Some []"
| "b64_groups (a # b # c # d # cs) =
     (case (b64_value a, b64_value b) of
        (Some w, Some x) \<Rightarrow>
          if c = CHR ''='' then
            (if d = CHR ''='' \<and> cs = [] then Some [char_of (w * 4 + x div 16)] else None)
          else (case b64_value c of
            None \<Rightarrow> None
          | Some y \<Rightarrow>
              if d = CHR ''='' then
                (if cs = [] then
                   Some [char_of (w * 4 + x div 16), char_of (x mod 16 * 16 + y div 4)]
                 else None)
              else (case b64_value d of
                None \<Rightarrow> None
              | Some z \<Rightarrow>
                  map_option (\<lambda>r. char_of (w * 4 + x div 16) # char_of (x mod 16 * 16 + y div 4)
                      # char_of (y mod 4 * 64 + z) # r) (b64_groups cs)))
      | _ \<Rightarrow> None)"
| "b64_groups cs = None"

definition b64_DecodeString :: "string \<Rightarrow> string option" where
  "b64_DecodeString s = b64_groups (filter (\<lambda>c. c \<noteq> CHR 0x0A \<and> c \<noteq> CHR 0x0D) s)"

section \<open>The round trip\<close>

lemma b64_value_char [simp]: "n < 64 \<Longrightarrow> b64_value (b64_char n) = Some n"
  by (auto simp: b64_value_def b64_char_def Let_def)

lemma b64_value_None:
  "b64_value (CHR ''='') = None" "b64_value (CHR 0x0A) = None" "b64_value (CHR 0x0D) = None"
  by code_simp+

lemma b64_char_plain [simp]:
  assumes "n < 64"
  shows "b64_char n \<noteq> CHR ''=''" "b64_char n \<noteq> CHR 0x0A" "b64_char n \<noteq> CHR 0x0D"
  using b64_value_char [OF assms] b64_value_None by auto

lemma b64_no_breaks:
  "filter (\<lambda>c. c \<noteq> CHR 0x0A \<and> c \<noteq> CHR 0x0D) (b64_EncodeToString s) = b64_EncodeToString s"
proof (induction s rule: b64_EncodeToString.induct)
  case (2 a)
  have "(of_char a :: nat) < 256" by simp
  then have "(of_char a :: nat) div 4 < 64" "(of_char a :: nat) mod 4 * 16 < 64" by linarith+
  then show ?case by (simp add: Let_def)
next
  case (3 a b)
  have "(of_char a :: nat) < 256" "(of_char b :: nat) < 256" by simp_all
  then have "((of_char a :: nat) * 256 + of_char b) div 1024 < 64" by linarith
  then show ?case by (simp add: Let_def)
next
  case (4 a b c cs)
  have "(of_char a :: nat) < 256" "(of_char b :: nat) < 256" "(of_char c :: nat) < 256" by simp_all
  then have "((of_char a :: nat) * 65536 + of_char b * 256 + of_char c) div 262144 < 64" by linarith
  then show ?case using 4 by (simp add: Let_def)
qed simp

lemma b64_split:
  fixes a d :: nat
  assumes "0 < d"
  obtains p q where "a = p * d + q" "q < d"
  using assms div_mult_mod_eq [of a d] mod_less_divisor by metis

lemma mod_tail: "y < m \<Longrightarrow> (x * m + y) mod m = (y :: nat)"
  by simp

lemma b64_three:
  fixes a b c :: nat
  assumes "a < 256" "b < 256" "c < 256"
  defines "n \<equiv> a * 65536 + b * 256 + c"
  shows "n div 262144 < 64"
    and "n div 262144 * 4 + n div 4096 mod 64 div 16 = a"
    and "n div 4096 mod 64 mod 16 * 16 + n div 64 mod 64 div 4 = b"
    and "n div 64 mod 64 mod 4 * 64 + n mod 64 = c"
proof -
  obtain p q where a: "a = p * 4 + q" "q < 4" by (rule b64_split [of 4]) simp
  obtain r s where b: "b = r * 16 + s" "s < 16" by (rule b64_split [of 16]) simp
  obtain t u where c: "c = t * 64 + u" "u < 64" by (rule b64_split [of 64]) simp
  have less: "p < 64" "r < 16" "t < 4" using a b c assms(1-3) by linarith+
  have "n div 262144 = p"
    using a b c less by (intro div_nat_eqI) (simp_all add: n_def)
  moreover have "n div 4096 = p * 64 + (q * 16 + r)"
    using a b c less by (intro div_nat_eqI) (simp_all add: n_def)
  moreover have "n div 64 = (p * 64 + q * 16 + r) * 64 + (s * 4 + t)"
    using a b c less by (intro div_nat_eqI) (simp_all add: n_def)
  moreover have "n = ((p * 64 + q * 16 + r) * 64 + (s * 4 + t)) * 64 + u"
    using a b c by (simp add: n_def)
  moreover have "q * 16 + r < 64" "s * 4 + t < 64" using a(2) b(2) less by linarith+
  ultimately have d: "n div 262144 = p" "n div 4096 mod 64 = q * 16 + r"
    "n div 64 mod 64 = s * 4 + t" "n mod 64 = u"
    using c(2) by (simp_all only: mod_tail)
  show "n div 262144 < 64"
    and "n div 262144 * 4 + n div 4096 mod 64 div 16 = a"
    and "n div 4096 mod 64 mod 16 * 16 + n div 64 mod 64 div 4 = b"
    and "n div 64 mod 64 mod 4 * 64 + n mod 64 = c"
    unfolding d using a b c less by simp_all
qed

lemma b64_two:
  fixes a b :: nat
  assumes "a < 256" "b < 256"
  defines "n \<equiv> a * 256 + b"
  shows "n div 1024 < 64" "n mod 16 * 4 < 64"
    and "n div 1024 * 4 + n div 16 mod 64 div 16 = a"
    and "n div 16 mod 64 mod 16 * 16 + n mod 16 = b"
proof -
  obtain p q where a: "a = p * 4 + q" "q < 4" by (rule b64_split [of 4]) simp
  obtain r s where b: "b = r * 16 + s" "s < 16" by (rule b64_split [of 16]) simp
  have less: "p < 64" "r < 16" using a b assms(1,2) by linarith+
  have "n div 1024 = p"
    using a b less by (intro div_nat_eqI) (simp_all add: n_def)
  moreover have "n div 16 = p * 64 + (q * 16 + r)"
    using a b less by (intro div_nat_eqI) (simp_all add: n_def)
  moreover have "n = (p * 64 + q * 16 + r) * 16 + s"
    using a b by (simp add: n_def)
  moreover have "q * 16 + r < 64" using a(2) less by linarith
  ultimately have d: "n div 1024 = p" "n div 16 mod 64 = q * 16 + r" "n mod 16 = s"
    using b(2) by (simp_all only: mod_tail)
  show "n div 1024 < 64" "n mod 16 * 4 < 64"
    and "n div 1024 * 4 + n div 16 mod 64 div 16 = a"
    and "n div 16 mod 64 mod 16 * 16 + n mod 16 = b"
    unfolding d using a b less by simp_all
qed

lemma b64_groups_encode: "b64_groups (b64_EncodeToString s) = Some s"
proof (induction s rule: b64_EncodeToString.induct)
  case (2 a)
  define x where "x = (of_char a :: nat)"
  have x: "x < 256" "char_of x = a" by (simp_all add: x_def)
  have "x div 4 < 64" "x mod 4 * 16 < 64" using x(1) by linarith+
  moreover have "x div 4 * 4 + x mod 4 * 16 div 16 = x" by simp
  ultimately show ?case by (simp add: Let_def x_def [symmetric] x(2))
next
  case (3 a b)
  define x where "x = (of_char a :: nat)"
  define y where "y = (of_char b :: nat)"
  have x: "x < 256" "y < 256" "char_of x = a" "char_of y = b" by (simp_all add: x_def y_def)
  note t = b64_two [OF x(1,2)]
  show ?case by (simp add: Let_def x_def [symmetric] y_def [symmetric] t x(3,4))
next
  case (4 a b c cs)
  define x where "x = (of_char a :: nat)"
  define y where "y = (of_char b :: nat)"
  define z where "z = (of_char c :: nat)"
  have x: "x < 256" "y < 256" "z < 256" "char_of x = a" "char_of y = b" "char_of z = c"
    by (simp_all add: x_def y_def z_def)
  note t = b64_three [OF x(1-3)]
  show ?case
    by (simp add: Let_def x_def [symmetric] y_def [symmetric] z_def [symmetric] t 4 x(4-6))
qed simp

lemma b64_roundtrip [simp]: "b64_DecodeString (b64_EncodeToString s) = Some s"
  by (simp add: b64_DecodeString_def b64_no_breaks b64_groups_encode)

end
