(* ===== verification/Secrets.thy ===== *)
theory Secrets
  imports Sql_Tables Base64 Executor
begin

text \<open>
  \<open>internal/secrets\<close>: the interface \<open>SecretBackend\<close> (\<open>backend.go\<close>), the encrypted table (\<open>db.go\<close>) and
  \<open>InjectSecrets\<close> (\<open>inject.go\<close>). AES-GCM is a parameter: an AEAD with its nonce size, \<open>Seal\<close> and \<open>Open\<close>.
\<close>

section \<open>The interface\<close>

record 's SecretBackend =
  sb_Get :: "string \<Rightarrow> 's \<Rightarrow> string result \<times> 's"
  sb_Set :: "string \<Rightarrow> string \<Rightarrow> 's \<Rightarrow> unit result \<times> 's"
  sb_Delete :: "string \<Rightarrow> 's \<Rightarrow> unit result \<times> 's"

text \<open>The body of the loop of \<open>InjectSecrets\<close>, which changes the dispatch it is given.\<close>

definition inject_one ::
  "'s SecretBackend \<Rightarrow> string \<Rightarrow> JobDispatch \<times> 's \<Rightarrow> unit result \<times> JobDispatch \<times> 's" where
  "inject_one B name = (\<lambda>(d, s).
     (case sb_Get B name s of
        (Inl e, s1) \<Rightarrow> (Inl (Wrapf ''resolve secret %q'' [name] e), d, s1)
      | (Inr val, s1) \<Rightarrow>
          (Inr (), d\<lparr>jd_Env := jd_Env d @ [\<lparr>ev_Key = name, ev_Value = val\<rparr>]\<rparr>, s1)))"

definition InjectSecrets ::
  "'s SecretBackend \<Rightarrow> JobDispatch \<Rightarrow> 's \<Rightarrow> unit result \<times> JobDispatch \<times> 's" where
  "InjectSecrets B d s =
     (case jd_Spec d of
        None \<Rightarrow> (Inr (), d, s)
      | Some spec \<Rightarrow> for_err (inject_one B) (js_Secrets spec) (d, s))"

section \<open>The encrypted table\<close>

record secret_row =
  sw_name :: string
  sw_ciphertext :: string

text \<open>\<open>sd_draws\<close> counts the reads of the random source, and \<open>sv_random n\<close> is what the \<open>n\<close>-th gives.\<close>

record secret_db = sql_store +
  sd_secrets :: "secret_row list"
  sd_draws :: nat

record secret_env = sql_env +
  sv_random :: "nat \<Rightarrow> (nat \<Rightarrow> char) result"

record gcm =
  gcm_NonceSize :: nat
  gcm_Seal :: "string \<Rightarrow> string \<Rightarrow> string"
  gcm_Open :: "string \<Rightarrow> string \<Rightarrow> string result"

definition secret_exec ::
  "secret_env \<Rightarrow> (secret_db \<Rightarrow> 'a result \<times> secret_db) \<Rightarrow> secret_db \<Rightarrow> 'a result \<times> secret_db" where
  "secret_exec env body = sql_exec (sql_env.truncate env) (\<lambda>_. body)"

text \<open>\<open>io.ReadFull\<close> fills the nonce; \<open>Seal\<close> appends the ciphertext to it.\<close>

definition encrypt :: "gcm \<Rightarrow> (nat \<Rightarrow> char) result \<Rightarrow> string \<Rightarrow> string result" where
  "encrypt g random plaintext =
     (case random of
        Inl e \<Rightarrow> Inl e
      | Inr f \<Rightarrow>
          (let nonce = map f [0..<gcm_NonceSize g]; ct = nonce @ gcm_Seal g nonce plaintext in
           Inr (b64_EncodeToString ct)))"

definition decrypt :: "gcm \<Rightarrow> string \<Rightarrow> string result" where
  "decrypt g encoded =
     (case b64_DecodeString encoded of
        None \<Rightarrow> Inl (Wrapf ''base64 decode'' [] (DriverErr ''illegal base64 data''))
      | Some data \<Rightarrow>
          (let ns = gcm_NonceSize g in
           if length data < ns then Inl (Errorf ''ciphertext too short'' [])
           else
             (let nonce = take ns data; ct = drop ns data in
              case gcm_Open g nonce ct of
                Inl e \<Rightarrow> Inl (Wrapf ''decrypt'' [] e)
              | Inr plain \<Rightarrow> Inr plain)))"

definition DBSecret_migrate :: "secret_env \<Rightarrow> secret_db \<Rightarrow> unit result \<times> secret_db" where
  "DBSecret_migrate env = secret_exec env (\<lambda>db. (Inr (), db))"

text \<open>
  \<open>NewDBSecretBackend\<close>, with \<open>aes.NewCipher\<close> and \<open>cipher.NewGCM\<close>. The table is there, empty, before
  the first migration creates it.
\<close>

definition NewDBSecretBackend ::
  "(string \<Rightarrow> 'b result) \<Rightarrow> ('b \<Rightarrow> gcm result) \<Rightarrow> secret_env \<Rightarrow> string \<Rightarrow> secret_db \<Rightarrow> gcm result \<times> secret_db"
where
  "NewDBSecretBackend newCipher newGCM env key db =
     (if length key \<noteq> 32
      then (Inl (Errorf ''secret key must be 32 bytes, got %d'' [decimal (length key)]), db)
      else case newCipher key of
        Inl e \<Rightarrow> (Inl (Wrapf ''aes cipher'' [] e), db)
      | Inr block \<Rightarrow>
          (case newGCM block of
             Inl e \<Rightarrow> (Inl (Wrapf ''gcm'' [] e), db)
           | Inr g \<Rightarrow>
               (case DBSecret_migrate env db of
                  (Inl e, db1) \<Rightarrow> (Inl e, db1)
                | (Inr _, db1) \<Rightarrow> (Inr g, db1))))"

definition DBSecret_Get :: "gcm \<Rightarrow> secret_env \<Rightarrow> string \<Rightarrow> secret_db \<Rightarrow> string result \<times> secret_db" where
  "DBSecret_Get g env name db =
     (case secret_exec env (\<lambda>db.
             case select_pk sw_name name (sd_secrets db) of
               None \<Rightarrow> (Inl ErrNoRows, db)
             | Some r \<Rightarrow> (Inr (sw_ciphertext r), db)) db of
        (Inl e, db1) \<Rightarrow>
          (if errors_Is e ErrNoRows then (Inl (Errorf ''secret %q not found'' [name]), db1)
           else (Inl e, db1))
      | (Inr enc, db1) \<Rightarrow> (decrypt g enc, db1))"

definition DBSecret_Set ::
  "gcm \<Rightarrow> secret_env \<Rightarrow> string \<Rightarrow> string \<Rightarrow> secret_db \<Rightarrow> unit result \<times> secret_db" where
  "DBSecret_Set g env name val db =
     (let db0 = db\<lparr>sd_draws := Suc (sd_draws db)\<rparr> in
      case encrypt g (sv_random env (sd_draws db)) val of
        Inl e \<Rightarrow> (Inl e, db0)
      | Inr enc \<Rightarrow>
          secret_exec env (\<lambda>db.
            (Inr (), db\<lparr>sd_secrets :=
               upsert_pk sw_name \<lparr>sw_name = name, sw_ciphertext = enc\<rparr> (sd_secrets db)\<rparr>)) db0)"

definition DBSecret_Delete :: "secret_env \<Rightarrow> string \<Rightarrow> secret_db \<Rightarrow> unit result \<times> secret_db" where
  "DBSecret_Delete env name =
     secret_exec env (\<lambda>db.
       (Inr (), db\<lparr>sd_secrets := delete_where (\<lambda>r. sw_name r = name) (sd_secrets db)\<rparr>))"

definition DBSecret :: "gcm \<Rightarrow> secret_env \<Rightarrow> secret_db SecretBackend" where
  "DBSecret g env =
     \<lparr>sb_Get = DBSecret_Get g env, sb_Set = DBSecret_Set g env, sb_Delete = DBSecret_Delete env\<rparr>"

section \<open>The contract of a backend\<close>

text \<open>The secrets a job asks for, and the variables they become under a map from names to values.\<close>

definition wanted :: "JobDispatch \<Rightarrow> string list" where
  "wanted d = (case jd_Spec d of None \<Rightarrow> [] | Some spec \<Rightarrow> js_Secrets spec)"

definition resolved :: "(string \<Rightarrow> string option) \<Rightarrow> string list \<Rightarrow> EnvVar list" where
  "resolved m names = map (\<lambda>n. \<lparr>ev_Key = n, ev_Value = the (m n)\<rparr>) names"

lemma inject_one_apply:
  "inject_one B name (d, s) =
     (case sb_Get B name s of
        (Inl e, s1) \<Rightarrow> (Inl (Wrapf ''resolve secret %q'' [name] e), d, s1)
      | (Inr val, s1) \<Rightarrow>
          (Inr (), d\<lparr>jd_Env := jd_Env d @ [\<lparr>ev_Key = name, ev_Value = val\<rparr>]\<rparr>, s1))"
  by (simp add: inject_one_def)

text \<open>
  A backend is a map from names to values: what the clients of the interface rely on, for the names and
  values that it takes as they are. A read shows the map when the backend is \<open>settled\<close>: a service may take a
  while until its reads show the last write. A change that fails may have been made or not, and touches no
  other name.
\<close>

locale secret_contract =
  fixes B :: "'s SecretBackend"
    and valid :: "'s \<Rightarrow> bool"
    and settled :: "'s \<Rightarrow> bool"
    and okn :: "string \<Rightarrow> bool"
    and okv :: "string \<Rightarrow> bool"
    and view :: "'s \<Rightarrow> string \<Rightarrow> string option"
  assumes get_keeps:
      "valid s \<Longrightarrow> okn n \<Longrightarrow> sb_Get B n s = (r, s') \<Longrightarrow>
         valid s' \<and> view s' = view s \<and> (settled s \<longrightarrow> settled s')"
    and get_ok:
      "valid s \<Longrightarrow> settled s \<Longrightarrow> okn n \<Longrightarrow> sb_Get B n s = (Inr v, s') \<Longrightarrow> view s n = Some v"
    and set_ok:
      "valid s \<Longrightarrow> okn n \<Longrightarrow> okv v \<Longrightarrow> sb_Set B n v s = (Inr u, s') \<Longrightarrow>
         valid s' \<and> view s' = (view s)(n \<mapsto> v)"
    and set_err:
      "valid s \<Longrightarrow> okn n \<Longrightarrow> okv v \<Longrightarrow> sb_Set B n v s = (Inl e, s') \<Longrightarrow>
         valid s' \<and> (view s' = view s \<or> view s' = (view s)(n \<mapsto> v))"
    and delete_ok:
      "valid s \<Longrightarrow> okn n \<Longrightarrow> sb_Delete B n s = (Inr u, s') \<Longrightarrow>
         valid s' \<and> view s' = (view s)(n := None)"
    and delete_err:
      "valid s \<Longrightarrow> okn n \<Longrightarrow> sb_Delete B n s = (Inl e, s') \<Longrightarrow>
         valid s' \<and> (view s' = view s \<or> view s' = (view s)(n := None))"
begin

lemma inject_loop_ok:
  assumes "for_err (inject_one B) names (d, s) = (Inr u, d', s')" and "valid s" and "settled s"
    and "\<forall>n \<in> set names. okn n"
  shows "d' = d\<lparr>jd_Env := jd_Env d @ resolved (view s) names\<rparr> \<and> valid s' \<and> view s' = view s
    \<and> (\<forall>n \<in> set names. view s n \<noteq> None)"
  using assms
proof (induction names arbitrary: d s)
  case (Cons n names)
  obtain q t where q: "sb_Get B n s = (q, t)" by (cases "sb_Get B n s")
  with Cons.prems(1) obtain v where v: "q = Inr v"
    by (cases q) (simp_all add: inject_one_apply)
  have t: "view s n = Some v" "valid t" "view t = view s" "settled t"
    using get_ok [OF Cons.prems(2,3) _ q [unfolded v]] get_keeps [OF Cons.prems(2) _ q] Cons.prems(3,4)
    by simp_all
  have "for_err (inject_one B) names (d\<lparr>jd_Env := jd_Env d @ [\<lparr>ev_Key = n, ev_Value = v\<rparr>]\<rparr>, t)
      = (Inr u, d', s')"
    using Cons.prems(1) q v by (simp add: inject_one_apply)
  from Cons.IH [OF this t(2,4)] show ?case
    using t Cons.prems(4) by (simp add: resolved_def)
qed (simp add: resolved_def)

lemma inject_loop_err:
  assumes "for_err (inject_one B) names (d, s) = (Inl e, d', s')" and "valid s" and "settled s"
    and "\<forall>n \<in> set names. okn n"
  shows "\<exists>pre n post e'. names = pre @ n # post \<and> e = Wrapf ''resolve secret %q'' [n] e'
    \<and> d' = d\<lparr>jd_Env := jd_Env d @ resolved (view s) pre\<rparr> \<and> valid s' \<and> view s' = view s"
  using assms
proof (induction names arbitrary: d s)
  case (Cons n names)
  obtain q t where q: "sb_Get B n s = (q, t)" by (cases "sb_Get B n s")
  show ?case
  proof (cases q)
    case (Inl e1)
    then have "e = Wrapf ''resolve secret %q'' [n] e1" "d' = d" "s' = t"
      using Cons.prems(1) q by (simp_all add: inject_one_apply)
    moreover have "valid t \<and> view t = view s"
      using get_keeps [OF Cons.prems(2) _ q] Cons.prems(4) by simp
    ultimately show ?thesis
      by (intro exI [of _ "[]"] exI [of _ n] exI [of _ names] exI [of _ e1]) (simp add: resolved_def)
  next
    case (Inr v)
    have t: "view s n = Some v" "valid t" "view t = view s" "settled t"
      using get_ok [OF Cons.prems(2,3) _ q [unfolded Inr]] get_keeps [OF Cons.prems(2) _ q] Cons.prems(3,4)
      by simp_all
    have "for_err (inject_one B) names (d\<lparr>jd_Env := jd_Env d @ [\<lparr>ev_Key = n, ev_Value = v\<rparr>]\<rparr>, t)
        = (Inl e, d', s')"
      using Cons.prems(1) q Inr by (simp add: inject_one_apply)
    from Cons.IH [OF this t(2,4)] Cons.prems(4) obtain pre m post e1 where
      "names = pre @ m # post" "e = Wrapf ''resolve secret %q'' [m] e1" "valid s'" "view s' = view t"
      "d' = d\<lparr>jd_Env := (jd_Env d @ [\<lparr>ev_Key = n, ev_Value = v\<rparr>]) @ resolved (view t) pre\<rparr>"
      by auto
    then show ?thesis
      using t
      by (intro exI [of _ "n # pre"] exI [of _ m] exI [of _ post] exI [of _ e1])
        (simp add: resolved_def)
  qed
qed simp

lemma InjectSecrets_ok:
  assumes "InjectSecrets B d s = (Inr u, d', s')" and "valid s" and "settled s"
    and "\<forall>n \<in> set (wanted d). okn n"
  shows "d' = d\<lparr>jd_Env := jd_Env d @ resolved (view s) (wanted d)\<rparr> \<and> valid s' \<and> view s' = view s
    \<and> (\<forall>n \<in> set (wanted d). view s n \<noteq> None)"
  using assms inject_loop_ok
  by (cases "jd_Spec d") (simp_all add: InjectSecrets_def wanted_def resolved_def)

lemma InjectSecrets_err:
  assumes "InjectSecrets B d s = (Inl e, d', s')" and "valid s" and "settled s"
    and "\<forall>n \<in> set (wanted d). okn n"
  shows "\<exists>pre n post e'. wanted d = pre @ n # post \<and> e = Wrapf ''resolve secret %q'' [n] e'
    \<and> d' = d\<lparr>jd_Env := jd_Env d @ resolved (view s) pre\<rparr> \<and> valid s' \<and> view s' = view s"
  using assms inject_loop_err
  by (cases "jd_Spec d") (simp_all add: InjectSecrets_def wanted_def)

end

text \<open>A backend that answers: a name that is there is found.\<close>

locale secret_up_contract = secret_contract +
  assumes get_up: "valid s \<Longrightarrow> settled s \<Longrightarrow> okn n \<Longrightarrow> view s n = Some v \<Longrightarrow> fst (sb_Get B n s) = Inr v"
begin

lemma inject_loop_up:
  "valid s \<Longrightarrow> settled s \<Longrightarrow> \<forall>n \<in> set names. okn n \<Longrightarrow> \<forall>n \<in> set names. view s n \<noteq> None \<Longrightarrow>
     fst (for_err (inject_one B) names (d, s)) = Inr ()"
proof (induction names arbitrary: d s)
  case (Cons n names)
  obtain v where v: "view s n = Some v" using Cons.prems(4) by auto
  obtain t where t: "sb_Get B n s = (Inr v, t)"
    using get_up [OF Cons.prems(1,2) _ v] Cons.prems(3) by (metis list.set_intros(1) prod.collapse)
  then show ?case
    using Cons get_keeps [OF Cons.prems(1) _ t] by (simp add: inject_one_apply)
qed simp

lemma InjectSecrets_up:
  assumes "valid s" and "settled s" and "\<forall>n \<in> set (wanted d). okn n"
  shows "fst (InjectSecrets B d s) = Inr () \<longleftrightarrow> (\<forall>n \<in> set (wanted d). view s n \<noteq> None)"
proof
  assume "fst (InjectSecrets B d s) = Inr ()"
  then obtain d' s' where "InjectSecrets B d s = (Inr (), d', s')" by (metis prod.collapse)
  then show "\<forall>n \<in> set (wanted d). view s n \<noteq> None" using InjectSecrets_ok assms by blast
next
  assume "\<forall>n \<in> set (wanted d). view s n \<noteq> None"
  then show "fst (InjectSecrets B d s) = Inr ()"
    using inject_loop_up [OF assms(1,2)] assms(3)
    by (cases "jd_Spec d") (simp_all add: InjectSecrets_def wanted_def)
qed

end

end
