(* ===== verification/Secret_Props.thy ===== *)
theory Secret_Props
  imports Secrets
begin

text \<open>
  The encrypted table provides the contract of a secret backend, when the AEAD opens what it sealed.
  Properties of secrets, from the store to the environment of a command.
\<close>

section \<open>The encrypted table provides the contract\<close>

text \<open>What \<open>Open\<close> documents: under the same nonce it gives back what \<open>Seal\<close> was given.\<close>

definition gcm_ok :: "gcm \<Rightarrow> bool" where
  "gcm_ok g \<longleftrightarrow>
     (\<forall>nonce p. length nonce = gcm_NonceSize g \<longrightarrow> gcm_Open g nonce (gcm_Seal g nonce p) = Inr p)"

definition DBSecret_valid :: "gcm \<Rightarrow> secret_db \<Rightarrow> bool" where
  "DBSecret_valid g db \<longleftrightarrow> gcm_ok g \<and> distinct (map sw_name (sd_secrets db))"

definition DBSecret_view :: "gcm \<Rightarrow> secret_db \<Rightarrow> string \<Rightarrow> string option" where
  "DBSecret_view g db n =
     (case pk_view sw_name (\<lambda>r. decrypt g (sw_ciphertext r)) (sd_secrets db) n of
        Some (Inr v) \<Rightarrow> Some v
      | _ \<Rightarrow> None)"

lemma decrypt_encrypt:
  assumes "gcm_ok g" and "encrypt g random p = Inr enc"
  shows "decrypt g enc = Inr p"
proof -
  obtain f where "random = Inr f" using assms(2) by (auto simp: encrypt_def split: sum.splits)
  then have enc: "enc = b64_EncodeToString (map f [0..<gcm_NonceSize g] @ gcm_Seal g (map f [0..<gcm_NonceSize g]) p)"
    using assms(2) by (simp add: encrypt_def Let_def)
  have "gcm_Open g (map f [0..<gcm_NonceSize g]) (gcm_Seal g (map f [0..<gcm_NonceSize g]) p) = Inr p"
    using assms(1) by (simp add: gcm_ok_def)
  then show ?thesis by (simp add: enc decrypt_def Let_def)
qed

lemma DBSecret_view_stmts [simp]:
  "DBSecret_view g (db\<lparr>st_stmts := n\<rparr>) = DBSecret_view g db"
  "DBSecret_view g (db\<lparr>sd_draws := k\<rparr>) = DBSecret_view g db"
  "DBSecret_valid g (db\<lparr>st_stmts := n\<rparr>) = DBSecret_valid g db"
  "DBSecret_valid g (db\<lparr>sd_draws := k\<rparr>) = DBSecret_valid g db"
  by (simp_all add: DBSecret_view_def DBSecret_valid_def fun_eq_iff)

lemma DBSecret_view_set:
  "gcm_ok g \<Longrightarrow> encrypt g random v = Inr enc \<Longrightarrow>
     DBSecret_view g (db\<lparr>sd_secrets := upsert_pk sw_name \<lparr>sw_name = n, sw_ciphertext = enc\<rparr> (sd_secrets db)\<rparr>)
       = (DBSecret_view g db)(n \<mapsto> v)"
  by (auto simp: DBSecret_view_def fun_eq_iff pk_view_upsert decrypt_encrypt)

lemma DBSecret_view_delete:
  "DBSecret_view g (db\<lparr>sd_secrets := delete_where (\<lambda>r. sw_name r = n) (sd_secrets db)\<rparr>)
     = (DBSecret_view g db)(n := None)"
  by (auto simp: DBSecret_view_def fun_eq_iff pk_view_delete)

lemma distinct_delete_where: "distinct (map key tbl) \<Longrightarrow> distinct (map key (delete_where p tbl))"
  unfolding delete_where_def by (simp add: distinct_map_filter)

text \<open>One statement of this table.\<close>

lemma secret_exec_eq:
  "secret_exec env body db =
     (case env_fault env (st_stmts db) of
        Some m \<Rightarrow> (Inl (DriverErr m), db\<lparr>st_stmts := Suc (st_stmts db)\<rparr>)
      | None \<Rightarrow> body (db\<lparr>st_stmts := Suc (st_stmts db)\<rparr>))"
  by (simp add: secret_exec_def sql_exec_def Let_def sql_env.defs)

lemma DBSecret_Get_effect:
  "DBSecret_Get g env n db = (q, db') \<Longrightarrow>
     db' = db\<lparr>st_stmts := Suc (st_stmts db)\<rparr> \<and> (\<forall>v. q = Inr v \<longrightarrow> DBSecret_view g db n = Some v)"
  by (auto simp: DBSecret_Get_def secret_exec_eq DBSecret_view_def pk_view_select
      split: option.splits sum.splits)

lemma DBSecret_Get_found:
  "DBSecret_view g db n = Some v \<Longrightarrow> env_fault env (st_stmts db) = None \<Longrightarrow>
     fst (DBSecret_Get g env n db) = Inr v"
  by (auto simp: DBSecret_Get_def secret_exec_eq DBSecret_view_def pk_view_select
      split: option.splits sum.splits)

lemma DBSecret_Get_missing:
  "select_pk sw_name n (sd_secrets db) = None \<Longrightarrow> env_fault env (st_stmts db) = None \<Longrightarrow>
     fst (DBSecret_Get g env n db) = Inl (Errorf ''secret %q not found'' [n])"
  by (simp add: DBSecret_Get_def secret_exec_eq)

lemma DBSecret_Set_effect:
  assumes "DBSecret_Set g env n v db = (q, db')" and "DBSecret_valid g db"
  shows "DBSecret_valid g db'
    \<and> DBSecret_view g db' = (case q of Inl e \<Rightarrow> DBSecret_view g db | Inr _ \<Rightarrow> (DBSecret_view g db)(n \<mapsto> v))"
proof (cases "encrypt g (sv_random env (sd_draws db)) v")
  case (Inl e)
  then show ?thesis using assms by (auto simp: DBSecret_Set_def Let_def)
next
  case (Inr enc)
  have ok: "gcm_ok g" using assms(2) by (simp add: DBSecret_valid_def)
  define db0 where "db0 = db\<lparr>sd_draws := Suc (sd_draws db), st_stmts := Suc (st_stmts db)\<rparr>"
  have "DBSecret_view g db0 = DBSecret_view g db" "DBSecret_valid g db0"
    using assms(2) by (simp_all add: db0_def)
  moreover have "q = Inl e \<Longrightarrow> db' = db0" for e
    using assms(1) Inr by (auto simp: DBSecret_Set_def Let_def secret_exec_eq db0_def split: option.splits)
  moreover have "q = Inr u \<Longrightarrow> db' = db0\<lparr>sd_secrets :=
      upsert_pk sw_name \<lparr>sw_name = n, sw_ciphertext = enc\<rparr> (sd_secrets db0)\<rparr>" for u
    using assms(1) Inr by (auto simp: DBSecret_Set_def Let_def secret_exec_eq db0_def split: option.splits)
  ultimately show ?thesis
    using DBSecret_view_set [OF ok Inr, where db = db0 and n = n]
    by (cases q) (auto simp: DBSecret_valid_def distinct_upsert_pk)
qed

lemma DBSecret_Delete_effect:
  "DBSecret_Delete env n db = (q, db') \<Longrightarrow> DBSecret_valid g db \<Longrightarrow>
     DBSecret_valid g db'
     \<and> DBSecret_view g db' = (case q of Inl e \<Rightarrow> DBSecret_view g db | Inr _ \<Rightarrow> (DBSecret_view g db)(n := None))"
  using DBSecret_view_delete [where g = g and db = "db\<lparr>st_stmts := Suc (st_stmts db)\<rparr>" and n = n]
  by (auto simp: DBSecret_Delete_def secret_exec_eq DBSecret_valid_def distinct_delete_where
      split: option.splits)

lemma DBSecret_sel [simp]:
  "sb_Get (DBSecret g env) = DBSecret_Get g env" "sb_Set (DBSecret g env) = DBSecret_Set g env"
  "sb_Delete (DBSecret g env) = DBSecret_Delete env"
  by (simp_all add: DBSecret_def)

interpretation dbsecret: secret_contract "DBSecret g env" "DBSecret_valid g" "\<lambda>_. True" "\<lambda>_. True" "\<lambda>_. True"
  "DBSecret_view g"
  for g env
proof unfold_locales
  fix s s' n v e u and r :: "string result"
  show "DBSecret_valid g s \<Longrightarrow> sb_Get (DBSecret g env) n s = (r, s') \<Longrightarrow>
      DBSecret_valid g s' \<and> DBSecret_view g s' = DBSecret_view g s \<and> (True \<longrightarrow> True)"
    by (drule DBSecret_Get_effect [where env = env, unfolded DBSecret_sel [symmetric]]) simp
  show "DBSecret_valid g s \<Longrightarrow> sb_Get (DBSecret g env) n s = (Inr v, s') \<Longrightarrow> DBSecret_view g s n = Some v"
    by (drule DBSecret_Get_effect [where env = env, unfolded DBSecret_sel [symmetric]]) simp
  show "DBSecret_valid g s \<Longrightarrow> sb_Set (DBSecret g env) n v s = (Inr u, s') \<Longrightarrow>
      DBSecret_valid g s' \<and> DBSecret_view g s' = (DBSecret_view g s)(n \<mapsto> v)"
    using DBSecret_Set_effect by fastforce
  show "DBSecret_valid g s \<Longrightarrow> sb_Set (DBSecret g env) n v s = (Inl e, s') \<Longrightarrow>
      DBSecret_valid g s' \<and> (DBSecret_view g s' = DBSecret_view g s \<or>
        DBSecret_view g s' = (DBSecret_view g s)(n \<mapsto> v))"
    using DBSecret_Set_effect by fastforce
  show "DBSecret_valid g s \<Longrightarrow> sb_Delete (DBSecret g env) n s = (Inr u, s') \<Longrightarrow>
      DBSecret_valid g s' \<and> DBSecret_view g s' = (DBSecret_view g s)(n := None)"
    using DBSecret_Delete_effect by fastforce
  show "DBSecret_valid g s \<Longrightarrow> sb_Delete (DBSecret g env) n s = (Inl e, s') \<Longrightarrow>
      DBSecret_valid g s' \<and> (DBSecret_view g s' = DBSecret_view g s \<or>
        DBSecret_view g s' = (DBSecret_view g s)(n := None))"
    using DBSecret_Delete_effect by fastforce
qed

text \<open>The engine whose statements do not fail.\<close>

definition calm :: "secret_env \<Rightarrow> secret_env" where
  "calm env = env\<lparr>env_fault := \<lambda>_. None\<rparr>"

lemma env_fault_calm [simp]: "env_fault (calm env) n = None"
  by (simp add: calm_def)

interpretation dbsecret_up: secret_up_contract "DBSecret g (calm env)" "DBSecret_valid g" "\<lambda>_. True" "\<lambda>_. True"
  "\<lambda>_. True" "DBSecret_view g"
  for g env
  by unfold_locales (simp add: DBSecret_Get_found)

section \<open>Properties\<close>

text \<open>Later calls of the backend, and what they leave.\<close>

datatype secret_op = Op_Get string | Op_Set string string | Op_Delete string

definition secret_do :: "gcm \<Rightarrow> secret_env \<Rightarrow> secret_op \<Rightarrow> secret_db \<Rightarrow> unit result \<times> secret_db" where
  "secret_do g env op db =
     (case op of
        Op_Get n \<Rightarrow> map_prod (map_sum id (\<lambda>_. ())) id (DBSecret_Get g env n db)
      | Op_Set n v \<Rightarrow> DBSecret_Set g env n v db
      | Op_Delete n \<Rightarrow> DBSecret_Delete env n db)"

fun secret_after :: "gcm \<Rightarrow> secret_env \<Rightarrow> secret_op list \<Rightarrow> secret_db \<Rightarrow> secret_db" where
  "secret_after g env [] db = db"
| "secret_after g env (op # ops) db = secret_after g env ops (snd (secret_do g env op db))"

text \<open>No call among these sets or deletes the name and reports no error.\<close>

fun secret_kept :: "gcm \<Rightarrow> secret_env \<Rightarrow> string \<Rightarrow> secret_op list \<Rightarrow> secret_db \<Rightarrow> bool" where
  "secret_kept g env name [] db = True"
| "secret_kept g env name (op # ops) db =
     (((case op of Op_Get n \<Rightarrow> True | Op_Set n _ \<Rightarrow> n \<noteq> name | Op_Delete n \<Rightarrow> n \<noteq> name)
        \<or> isl (fst (secret_do g env op db)))
      \<and> secret_kept g env name ops (snd (secret_do g env op db)))"

lemma secret_do_error_rows:
  "fst (secret_do g env op db) = Inl e \<Longrightarrow> sd_secrets (snd (secret_do g env op db)) = sd_secrets db"
  by (cases op)
    (auto simp: secret_do_def DBSecret_Get_def DBSecret_Set_def DBSecret_Delete_def secret_exec_eq Let_def
      split: option.splits sum.splits)

lemma DBSecret_Get_rows: "sd_secrets (snd (DBSecret_Get g env n db)) = sd_secrets db"
  using DBSecret_Get_effect [of g env n db, OF prod.collapse [symmetric]] by simp

lemma secret_do_view:
  assumes "DBSecret_valid g db"
    and "(case op of Op_Get n \<Rightarrow> True | Op_Set n _ \<Rightarrow> n \<noteq> name | Op_Delete n \<Rightarrow> n \<noteq> name)
        \<or> isl (fst (secret_do g env op db))"
  shows "DBSecret_valid g (snd (secret_do g env op db))
    \<and> DBSecret_view g (snd (secret_do g env op db)) name = DBSecret_view g db name"
proof (cases op)
  case (Op_Get n)
  then show ?thesis
    using assms(1) DBSecret_Get_effect [of g env n db, OF prod.collapse [symmetric]]
    by (simp add: secret_do_def)
next
  case (Op_Set n v)
  then show ?thesis
    using assms DBSecret_Set_effect [of g env n v db, OF prod.collapse [symmetric]]
    by (auto simp: secret_do_def split: sum.splits)
next
  case (Op_Delete n)
  then show ?thesis
    using assms DBSecret_Delete_effect [of env n db _ _ g, OF prod.collapse [symmetric]]
    by (auto simp: secret_do_def split: sum.splits)
qed

lemma secret_after_view:
  "DBSecret_valid g db \<Longrightarrow> secret_kept g env name ops db \<Longrightarrow>
     DBSecret_view g (secret_after g env ops db) name = DBSecret_view g db name"
  by (induction ops arbitrary: db) (auto dest: secret_do_view [where name = name and env = env])

text \<open>
  Property C31: a secret survives encryption, the table and decryption, when the AEAD opens what it sealed.
  When \<open>Set\<close> reports no error, then after every sequence of calls in which no \<open>Set\<close> or \<open>Delete\<close> of that name
  succeeds, a \<open>Get\<close> of the name whose statement does not fail returns the value. The \<open>Set\<close> changes no other
  name; a \<open>Get\<close>, and a \<open>Set\<close> or \<open>Delete\<close> that reports an error, of whatever name, leaves the rows of
  the table as they are; and after a \<open>Delete\<close> that reports no error the name is not found, while the
  other names keep what they had.
\<close>

theorem DBSecret_roundtrip:
  assumes "gcm_ok g" and "distinct (map sw_name (sd_secrets db))"
    and "DBSecret_Set g env name val db = (Inr (), db1)"
  shows "(\<forall>ops db2. db2 = secret_after g env' ops db1 \<and> secret_kept g env' name ops db1
        \<and> env_fault env' (st_stmts db2) = None \<longrightarrow> fst (DBSecret_Get g env' name db2) = Inr val)
    \<and> (\<forall>n. n \<noteq> name \<longrightarrow> DBSecret_view g db1 n = DBSecret_view g db n)
    \<and> (\<forall>n. sd_secrets (snd (DBSecret_Get g env' n db1)) = sd_secrets db1)
    \<and> (\<forall>n v e db2. DBSecret_Set g env' n v db1 = (Inl e, db2) \<longrightarrow> sd_secrets db2 = sd_secrets db1)
    \<and> (\<forall>n e db2. DBSecret_Delete env' n db1 = (Inl e, db2) \<longrightarrow> sd_secrets db2 = sd_secrets db1)
    \<and> (\<forall>db2. DBSecret_Delete env' name db1 = (Inr (), db2) \<longrightarrow>
         (env_fault env' (st_stmts db2) = None \<longrightarrow>
            fst (DBSecret_Get g env' name db2) = Inl (Errorf ''secret %q not found'' [name]))
         \<and> (\<forall>n. n \<noteq> name \<longrightarrow> DBSecret_view g db2 n = DBSecret_view g db1 n))"
proof (intro conjI allI impI)
  have v: "DBSecret_valid g db" using assms by (simp add: DBSecret_valid_def)
  have s: "DBSecret_valid g db1" "DBSecret_view g db1 = (DBSecret_view g db)(name \<mapsto> val)"
    using dbsecret.set_ok [of g db env] v assms(3) by simp_all
  show "fst (DBSecret_Get g env' name db2) = Inr val"
    if "db2 = secret_after g env' ops db1 \<and> secret_kept g env' name ops db1
      \<and> env_fault env' (st_stmts db2) = None" for ops db2
    using that secret_after_view [OF s(1), of env' name ops] by (auto simp: s(2) intro!: DBSecret_Get_found)
  show "DBSecret_view g db1 n = DBSecret_view g db n" if "n \<noteq> name" for n using that by (simp add: s(2))
  show "sd_secrets (snd (DBSecret_Get g env' n db1)) = sd_secrets db1" for n by (rule DBSecret_Get_rows)
  show "sd_secrets db2 = sd_secrets db1"
    if "DBSecret_Set g env' n w db1 = (Inl e, db2)" for n w e db2
    using secret_do_error_rows [of g env' "Op_Set n w" db1 e] that by (simp add: secret_do_def)
  show "sd_secrets db2 = sd_secrets db1"
    if "DBSecret_Delete env' n db1 = (Inl e, db2)" for n e db2
    using secret_do_error_rows [of g env' "Op_Delete n" db1 e] that by (simp add: secret_do_def)
  fix db2
  assume d: "DBSecret_Delete env' name db1 = (Inr (), db2)"
  have "select_pk sw_name name (sd_secrets db2) = None"
    using d by (auto simp: DBSecret_Delete_def secret_exec_eq select_pk_def delete_where_def find_None_iff
        split: option.splits)
  then show "fst (DBSecret_Get g env' name db2) = Inl (Errorf ''secret %q not found'' [name])"
    if "env_fault env' (st_stmts db2) = None" using that by (simp add: DBSecret_Get_missing)
  show "DBSecret_view g db2 n = DBSecret_view g db1 n" if "n \<noteq> name" for n
    using DBSecret_Delete_effect [OF d s(1)] that by simp
qed

text \<open>
  Property C32: secrets reach the commands of a job. When \<open>InjectSecrets\<close> on the encrypted table returns no
  error, the commands run with the variables the dispatch had, then \<open>NAME=value\<close> with the stored
  value for each secret of the spec in its order, then those variables of the spec whose name is not
  taken; so a secret wins over a variable of the spec. It returns no error exactly when each
  secret can be read (if no statement fails).
\<close>

theorem InjectSecrets_env:
  assumes "gcm_ok g" and "distinct (map sw_name (sd_secrets db))" and "jd_Spec d = Some spec"
  shows "(\<forall>d' db'. InjectSecrets (DBSecret g env) d db = (Inr (), d', db') \<longrightarrow>
      buildEnv d' = map env_string (jd_Env d)
        @ map (\<lambda>n. n @ ''='' @ the (DBSecret_view g db n)) (js_Secrets spec)
        @ spec_env (ev_Key ` set (jd_Env d) \<union> set (js_Secrets spec)) (js_Env spec))
    \<and> (fst (InjectSecrets (DBSecret g (calm env)) d db) = Inr ()
        \<longleftrightarrow> (\<forall>n \<in> set (js_Secrets spec). DBSecret_view g db n \<noteq> None))"
proof (intro conjI allI impI)
  have v: "DBSecret_valid g db" using assms by (simp add: DBSecret_valid_def)
  have w: "wanted d = js_Secrets spec" by (simp add: wanted_def assms(3))
  show "fst (InjectSecrets (DBSecret g (calm env)) d db) = Inr ()
      \<longleftrightarrow> (\<forall>n \<in> set (js_Secrets spec). DBSecret_view g db n \<noteq> None)"
    using dbsecret_up.InjectSecrets_up [OF v TrueI] by (simp add: w)
  fix d' db'
  assume i: "InjectSecrets (DBSecret g env) d db = (Inr (), d', db')"
  then have d': "d' = d\<lparr>jd_Env := jd_Env d @ resolved (DBSecret_view g db) (js_Secrets spec)\<rparr>"
    using dbsecret.InjectSecrets_ok [OF i v TrueI] by (simp add: w)
  show "buildEnv d' = map env_string (jd_Env d)
      @ map (\<lambda>n. n @ ''='' @ the (DBSecret_view g db n)) (js_Secrets spec)
      @ spec_env (ev_Key ` set (jd_Env d) \<union> set (js_Secrets spec)) (js_Env spec)"
    by (simp add: d' buildEnv_def assms(3) resolved_def env_string_def comp_def image_image)
qed

text \<open>A cipher that reverses the text and appends the nonce as its tag, and a database with one secret.\<close>

definition toy_gcm :: gcm where
  "toy_gcm = \<lparr>gcm_NonceSize = 2, gcm_Seal = (\<lambda>nonce p. rev p @ nonce),
     gcm_Open = (\<lambda>nonce ct.
       if HasSuffix ct nonce then Inr (rev (take (length ct - length nonce) ct)) else Inl (DriverErr ''auth''))\<rparr>"

definition toy_secret_env :: secret_env where
  "toy_secret_env = \<lparr>env_fault = (\<lambda>_. None), env_now = (\<lambda>_. 0), env_run_rank = (\<lambda>_ _. 0),
     env_node_rank = (\<lambda>_ _. 0), env_text = (\<lambda>_. True), sv_random = (\<lambda>n. Inr (\<lambda>i. char_of (65 + n + i)))\<rparr>"

definition toy_secret_db :: secret_db where
  "toy_secret_db = \<lparr>st_runs = [], st_nodes = [], st_stmts = 0, st_next_log = 1, sd_secrets = [], sd_draws = 0\<rparr>"

definition toy_stored :: secret_db where
  "toy_stored = snd (DBSecret_Set toy_gcm toy_secret_env ''KEY'' ''hunter2'' toy_secret_db)"

definition toy_job :: JobDispatch where
  "toy_job = \<lparr>jd_JobId = ''j'', jd_RunId = ''r'', jd_Spec = Some \<lparr>js_Commands = [''make''],
     js_Env = [\<lparr>ev_Key = ''KEY'', ev_Value = ''none''\<rparr>, \<lparr>ev_Key = ''A'', ev_Value = ''1''\<rparr>],
     js_Secrets = [''KEY''], js_ArtifactPaths = []\<rparr>, jd_Env = []\<rparr>"

lemma toy_gcm_ok: "gcm_ok toy_gcm"
  by (simp add: gcm_ok_def toy_gcm_def HasSuffix_def)

lemma toy_set: "DBSecret_Set toy_gcm toy_secret_env ''KEY'' ''hunter2'' toy_secret_db = (Inr (), toy_stored)"
  by (simp add: prod_eq_iff toy_stored_def DBSecret_Set_def encrypt_def toy_secret_env_def secret_exec_eq Let_def)

lemma toy_distinct: "distinct (map sw_name (sd_secrets toy_secret_db))"
  by (simp add: toy_secret_db_def)

lemma toy_view: "DBSecret_view toy_gcm toy_stored = [''KEY'' \<mapsto> ''hunter2'']"
  and toy_stored_distinct: "distinct (map sw_name (sd_secrets toy_stored))"
proof -
  have v: "DBSecret_valid toy_gcm toy_secret_db"
    by (simp add: DBSecret_valid_def toy_gcm_ok toy_distinct)
  note s = dbsecret.set_ok [of toy_gcm toy_secret_db toy_secret_env, unfolded DBSecret_sel, OF v TrueI TrueI toy_set]
  have "DBSecret_view toy_gcm toy_secret_db = Map.empty"
    by (simp add: DBSecret_view_def toy_secret_db_def fun_eq_iff)
  then show "DBSecret_view toy_gcm toy_stored = [''KEY'' \<mapsto> ''hunter2'']" using s by simp
  show "distinct (map sw_name (sd_secrets toy_stored))" using s by (simp add: DBSecret_valid_def)
qed

text \<open>A read, the deletion of another name and a change of another come between.\<close>

definition toy_calls :: "secret_op list" where
  "toy_calls = [Op_Get ''KEY'', Op_Delete ''B'', Op_Set ''B'' ''2'']"

theorem DBSecret_roundtrip_witness:
  "fst (DBSecret_Get toy_gcm toy_secret_env ''KEY'' (secret_after toy_gcm toy_secret_env toy_calls toy_stored))
     = Inr ''hunter2''"
proof -
  have "secret_kept toy_gcm toy_secret_env ''KEY'' toy_calls toy_stored" by (simp add: toy_calls_def)
  moreover have "env_fault toy_secret_env n = None" for n by (simp add: toy_secret_env_def)
  ultimately show ?thesis
    using DBSecret_roundtrip [OF toy_gcm_ok toy_distinct toy_set, THEN conjunct1, rule_format, OF conjI [OF refl conjI]]
    by simp
qed

theorem InjectSecrets_env_witness:
  "buildEnv (fst (snd (InjectSecrets (DBSecret toy_gcm toy_secret_env) toy_job toy_stored)))
     = [''KEY=hunter2'', ''A=1'']"
proof -
  define spec where "spec = the (jd_Spec toy_job)"
  have spec: "jd_Spec toy_job = Some spec" by (simp add: toy_job_def spec_def)
  have calm: "calm toy_secret_env = toy_secret_env" by (simp add: calm_def toy_secret_env_def)
  define r where "r = InjectSecrets (DBSecret toy_gcm toy_secret_env) toy_job toy_stored"
  note p = InjectSecrets_env [OF toy_gcm_ok toy_stored_distinct spec, of toy_secret_env]
  have "\<forall>n \<in> set (js_Secrets spec). DBSecret_view toy_gcm toy_stored n \<noteq> None"
    by (simp add: spec_def toy_job_def toy_view)
  then have "fst r = Inr ()" using p by (simp add: calm r_def)
  then have "InjectSecrets (DBSecret toy_gcm toy_secret_env) toy_job toy_stored = (Inr (), fst (snd r), snd (snd r))"
    by (simp add: r_def [symmetric] prod_eq_iff)
  with p have "buildEnv (fst (snd r)) = map env_string (jd_Env toy_job)
      @ map (\<lambda>n. n @ ''='' @ the (DBSecret_view toy_gcm toy_stored n)) (js_Secrets spec)
      @ spec_env (ev_Key ` set (jd_Env toy_job) \<union> set (js_Secrets spec)) (js_Env spec)"
    by blast
  also have "\<dots> = [''KEY=hunter2'', ''A=1'']"
    by (simp add: spec_def toy_job_def toy_view env_string_def)
  finally show ?thesis by (simp add: r_def)
qed

end
