(* ===== verification/Filepath.thy ===== *)
theory Filepath
  imports Go_Prelude
begin

text \<open>
  \<open>Clean\<close>, \<open>Join\<close> and \<open>Dir\<close> of the Go package \<open>path/filepath\<close> on Unix, which the artifact stores and the workflow
  loader use. A path is worked on as the list of its elements; what the functions return is a string
  again.
\<close>

fun split_slash :: "string \<Rightarrow> string list" where
  "split_slash [] = [[]]"
| "split_slash (c # cs) =
     (if c = CHR ''/'' then [] # split_slash cs
      else case split_slash cs of [] \<Rightarrow> [[c]] | x # xs \<Rightarrow> (c # x) # xs)"

fun join_slash :: "string list \<Rightarrow> string" where
  "join_slash [] = []"
| "join_slash [x] = x"
| "join_slash (x # y # ys) = x @ ''/'' @ join_slash (y # ys)"

definition rooted :: "string \<Rightarrow> bool" where
  "rooted p = HasPrefix p ''/''"

text \<open>The elements that count: empty ones (double slashes) and dots do not.\<close>

definition elements :: "string \<Rightarrow> string list" where
  "elements p = filter (\<lambda>e. e \<noteq> [] \<and> e \<noteq> ''.'') (split_slash p)"

text \<open>An element after those kept so far: \<open>..\<close> takes back a name, and is dropped at the root.\<close>

definition push :: "bool \<Rightarrow> string \<Rightarrow> string list \<Rightarrow> string list" where
  "push r e st =
     (if e = ''..'' then
        (if st \<noteq> [] \<and> last st \<noteq> ''..'' then butlast st else if r then st else st @ [e])
      else st @ [e])"

definition path_comps :: "string \<Rightarrow> string list" where
  "path_comps p = fold (push (rooted p)) (elements p) []"

definition Clean :: "string \<Rightarrow> string" where
  "Clean p =
     (let cs = path_comps p in
      if rooted p then ''/'' @ join_slash cs
      else if cs = [] then ''.'' else join_slash cs)"

definition Join :: "string list \<Rightarrow> string" where
  "Join es = (case dropWhile (\<lambda>e. e = []) es of [] \<Rightarrow> [] | e # es' \<Rightarrow> Clean (join_slash (e # es')))"

text \<open>\<open>filepath.Dir\<close>: what is before the last slash, cleaned.\<close>

definition Dir :: "string \<Rightarrow> string" where
  "Dir p = Clean (rev (dropWhile (\<lambda>c. c \<noteq> CHR ''/'') (rev p)))"

text \<open>What a path refers to, from the working directory when it is relative.\<close>

definition resolve :: "string list \<Rightarrow> string \<Rightarrow> string list" where
  "resolve cwd p = fold (push True) (elements p) (if rooted p then [] else cwd)"

section \<open>Splitting and joining\<close>

definition plain :: "string \<Rightarrow> bool" where
  "plain e \<longleftrightarrow> e \<noteq> [] \<and> e \<noteq> ''.'' \<and> CHR ''/'' \<notin> set e"

lemma split_slash_not_Nil [simp]: "split_slash s \<noteq> []"
  by (cases s) (auto split: list.splits)

lemma split_slash_elem: "e \<in> set (split_slash s) \<Longrightarrow> CHR ''/'' \<notin> set e"
proof (induction s arbitrary: e)
  case (Cons c cs)
  show ?case
  proof (cases "split_slash cs")
    case (Cons x xs)
    then show ?thesis using Cons.prems Cons.IH by (auto split: if_splits)
  qed simp
qed simp

lemma split_slash_append:
  "split_slash (a @ CHR ''/'' # b) = split_slash a @ split_slash b"
proof (induction a)
  case (Cons c cs)
  then show ?case by (cases "split_slash cs") auto
qed simp

lemma split_slash_plain: "CHR ''/'' \<notin> set e \<Longrightarrow> split_slash e = [e]"
  by (induction e) auto

lemma split_join: "es \<noteq> [] \<Longrightarrow> \<forall>e \<in> set es. CHR ''/'' \<notin> set e \<Longrightarrow> split_slash (join_slash es) = es"
  by (induction es rule: join_slash.induct) (simp_all add: split_slash_plain split_slash_append)

lemma elements_append: "elements (a @ CHR ''/'' # b) = elements a @ elements b"
  by (simp add: elements_def split_slash_append)

lemma elements_plain: "e \<in> set (elements p) \<Longrightarrow> plain e"
  using split_slash_elem by (auto simp: elements_def plain_def)

lemma elements_join: "\<forall>e \<in> set es. plain e \<Longrightarrow> elements (join_slash es) = es"
proof (cases "es = []")
  case False
  assume p: "\<forall>e \<in> set es. plain e"
  then have "split_slash (join_slash es) = es" using False by (intro split_join) (auto simp: plain_def)
  moreover have "filter (\<lambda>e. e \<noteq> [] \<and> e \<noteq> ''.'') es = es"
    using p by (intro filter_True) (auto simp: plain_def)
  ultimately show ?thesis by (simp add: elements_def)
qed (simp add: elements_def)

lemma elements_slash: "elements (CHR ''/'' # p) = elements p"
  using elements_append [of "[]" p] by (simp add: elements_def)

lemma elements_single: "plain e \<Longrightarrow> elements e = [e]"
  using elements_join [of "[e]"] by simp

section \<open>Cleaning\<close>

lemma push_plain: "\<forall>x \<in> set st. plain x \<Longrightarrow> plain e \<Longrightarrow> \<forall>x \<in> set (push r e st). plain x"
  by (auto simp: push_def dest: in_set_butlastD)

lemma fold_push_plain:
  "\<forall>x \<in> set st. plain x \<Longrightarrow> \<forall>e \<in> set es. plain e \<Longrightarrow> \<forall>x \<in> set (fold (push r) es st). plain x"
proof (induction es arbitrary: st)
  case (Cons e es)
  have "\<forall>x \<in> set (push r e st). plain x" by (rule push_plain) (use Cons.prems in simp_all)
  then have "\<forall>x \<in> set (fold (push r) es (push r e st)). plain x"
    by (rule Cons.IH) (use Cons.prems in simp)
  then show ?case by simp
qed simp

lemma path_comps_plain: "e \<in> set (path_comps p) \<Longrightarrow> plain e"
  using fold_push_plain [of "[]" "elements p" "rooted p"] elements_plain by (auto simp: path_comps_def)

lemma rooted_Cons: "rooted (c # cs) \<longleftrightarrow> c = CHR ''/''"
  by (simp add: rooted_def HasPrefix_def)

lemma rooted_Nil [simp]: "\<not> rooted []"
  by (simp add: rooted_def HasPrefix_def)

lemma rooted_append: "a \<noteq> [] \<Longrightarrow> rooted (a @ b) = rooted a"
  by (cases a) (simp_all add: rooted_Cons)

lemma rooted_join: "es \<noteq> [] \<Longrightarrow> hd es \<noteq> [] \<Longrightarrow> rooted (join_slash es) = rooted (hd es)"
  by (cases es rule: join_slash.cases) (simp_all add: rooted_append)

lemma not_rooted_plain: "plain e \<Longrightarrow> \<not> rooted e"
  by (cases e) (auto simp: plain_def rooted_Cons)

lemma elements_Clean: "elements (Clean p) = path_comps p"
proof -
  have j: "elements (join_slash (path_comps p)) = path_comps p"
    using path_comps_plain by (intro elements_join) blast
  show ?thesis
  proof (cases "rooted p \<or> path_comps p \<noteq> []")
    case True
    then show ?thesis using j by (auto simp: Clean_def Let_def elements_slash)
  next
    case False
    then show ?thesis by (simp add: Clean_def Let_def elements_def)
  qed
qed

lemma rooted_Clean: "rooted (Clean p) = rooted p"
proof (cases "rooted p")
  case False
  show ?thesis
  proof (cases "path_comps p = []")
    case True
    with False show ?thesis by (simp add: Clean_def Let_def rooted_Cons)
  next
    case ne: False
    then have "plain (hd (path_comps p))" using path_comps_plain [of "hd (path_comps p)" p] by simp
    then have "\<not> rooted (join_slash (path_comps p))"
      using ne not_rooted_plain by (simp add: rooted_join plain_def)
    then show ?thesis using False ne by (simp add: Clean_def Let_def)
  qed
qed (simp add: Clean_def Let_def rooted_Cons)

text \<open>Names that do not climb are kept as they are.\<close>

lemma fold_push_names: "''..'' \<notin> set es \<Longrightarrow> fold (push r) es st = st @ es"
  by (induction es arbitrary: st) (auto simp: push_def)

text \<open>What pushing keeps: at the root there is no \<open>..\<close>, elsewhere they are at the front.\<close>

lemma push_no_climb: "''..'' \<notin> set st \<Longrightarrow> ''..'' \<notin> set (push True e st)"
  by (auto simp: push_def dest: in_set_butlastD)

lemma fold_push_no_climb: "''..'' \<notin> set st \<Longrightarrow> ''..'' \<notin> set (fold (push True) es st)"
  by (induction es arbitrary: st) (auto dest: push_no_climb)

lemma rooted_no_climb: "rooted p \<Longrightarrow> ''..'' \<notin> set (path_comps p)"
  using fold_push_no_climb [of "[]"] by (simp add: path_comps_def)

definition climbs_first :: "string list \<Rightarrow> bool" where
  "climbs_first st \<longleftrightarrow> (\<exists>n names. st = replicate n ''..'' @ names \<and> ''..'' \<notin> set names)"

lemma climbs_first_names: "''..'' \<notin> set names \<Longrightarrow> climbs_first names"
  unfolding climbs_first_def by (rule exI [of _ 0]) simp

lemma push_climbs_first:
  assumes "climbs_first st"
  shows "climbs_first (push r e st)"
proof -
  obtain n names where st: "st = replicate n ''..'' @ names" "''..'' \<notin> set names"
    using assms by (auto simp: climbs_first_def)
  show ?thesis
  proof (cases "e = ''..''")
    case False
    then show ?thesis using st
      by (auto simp: push_def climbs_first_def intro!: exI [of _ n] exI [of _ "names @ [e]"])
  next
    case up: True
    show ?thesis
    proof (cases "names = []")
      case True
      have "replicate n ''..'' @ [''..''] = replicate (Suc n) ''..'' @ []"
        by (simp add: replicate_append_same)
      moreover have "climbs_first (replicate (Suc n) ''..'' @ [])"
        unfolding climbs_first_def by (intro exI [of _ "Suc n"] exI [of _ "[]"]) simp
      ultimately have "climbs_first (st @ [''..''])" using st True by simp
      then show ?thesis using st True up assms by (auto simp: push_def)
    next
      case False
      then have "last st \<in> set names" "st \<noteq> []" using st by simp_all
      moreover from this have "last st \<noteq> ''..''" using st by metis
      ultimately have "push r e st = replicate n ''..'' @ butlast names"
        using st up False by (auto simp: push_def butlast_append)
      then show ?thesis
        using st unfolding climbs_first_def by (auto dest: in_set_butlastD)
    qed
  qed
qed

lemma path_comps_climbs_first: "climbs_first (path_comps p)"
proof -
  have "climbs_first (fold (push r) es st)" if "climbs_first st" for r es st
    using that by (induction es arbitrary: st) (simp_all add: push_climbs_first)
  then show ?thesis unfolding path_comps_def using climbs_first_names [of "[]"] by simp
qed

lemma fold_push_climbs: "fold (push False) (replicate n ''..'') (replicate m ''..'') = replicate (m + n) ''..''"
proof (induction n arbitrary: m)
  case (Suc n)
  have "push False ''..'' (replicate m ''..'') = replicate (Suc m) ''..''"
    by (auto simp: push_def replicate_append_same)
  then show ?case using Suc [of "Suc m"] by simp
qed simp

lemma fold_push_id:
  assumes "climbs_first st" and "r \<longrightarrow> ''..'' \<notin> set st"
  shows "fold (push r) st [] = st"
proof (cases r)
  case True
  then show ?thesis using assms(2) by (simp add: fold_push_names)
next
  case False
  obtain n names where st: "st = replicate n ''..'' @ names" "''..'' \<notin> set names"
    using assms(1) by (auto simp: climbs_first_def)
  then show ?thesis using False fold_push_climbs [of n 0] by (simp add: fold_push_names)
qed

lemma path_comps_Clean: "path_comps (Clean p) = path_comps p"
  using fold_push_id [OF path_comps_climbs_first] rooted_no_climb
  by (simp add: path_comps_def [of "Clean p"] rooted_Clean elements_Clean)

lemma Clean_idem: "Clean (Clean p) = Clean p"
  by (simp add: Clean_def [of "Clean p"] path_comps_Clean rooted_Clean) (simp add: Clean_def Let_def)

section \<open>The directory of a path\<close>

lemma climbs_first_butlast: "climbs_first (ys @ [e]) \<Longrightarrow> e \<noteq> ''..'' \<Longrightarrow> climbs_first ys"
proof -
  assume c: "climbs_first (ys @ [e])" and e: "e \<noteq> ''..''"
  obtain n names where st: "ys @ [e] = replicate n ''..'' @ names" "''..'' \<notin> set names"
    using c by (auto simp: climbs_first_def)
  have "names \<noteq> []"
  proof
    assume "names = []"
    then have "e \<in> set (replicate n ''..'')" using st(1) by (metis append_Nil2 in_set_conv_decomp)
    then show False using e by simp
  qed
  then have "ys = replicate n ''..'' @ butlast names" using st(1) by (metis butlast_append butlast_snoc)
  moreover have "''..'' \<notin> set (butlast names)" using st(2) by (auto dest: in_set_butlastD)
  ultimately show "climbs_first ys" unfolding climbs_first_def by blast
qed

lemma join_slash_snoc: "join_slash (ys @ [e]) = (if ys = [] then e else join_slash ys @ CHR ''/'' # e)"
proof (induction ys rule: join_slash.induct)
  case (3 x y ys)
  then show ?case by (cases "ys @ [e]") simp_all
qed simp_all

lemma drop_last_element:
  "CHR ''/'' \<notin> set e \<Longrightarrow> pre = [] \<or> last pre = CHR ''/'' \<Longrightarrow>
     rev (dropWhile (\<lambda>c. c \<noteq> CHR ''/'') (rev (pre @ e))) = pre"
  by (cases pre rule: rev_cases) (auto simp: dropWhile_append)

text \<open>What is left of a clean path is the path without its last element.\<close>

lemma Dir_Clean:
  assumes x: "path_comps x = ys @ [e]" and e: "e \<noteq> ''..''"
  shows "elements (Dir (Clean x)) = ys" and "rooted (Dir (Clean x)) = rooted x"
proof -
  have plain: "\<forall>y \<in> set (ys @ [e]). plain y" using path_comps_plain [of _ x] x by simp
  then have p: "plain e" "CHR ''/'' \<notin> set e" by (simp_all add: plain_def)
  have ys: "elements (join_slash ys) = ys" using plain by (intro elements_join) simp
  define pre where "pre = (if rooted x then ''/'' else []) @ (if ys = [] then [] else join_slash ys @ ''/'')"
  have "Clean x = pre @ e"
    using p(1) by (cases "ys = []") (simp_all add: Clean_def Let_def x pre_def join_slash_snoc)
  moreover have "pre = [] \<or> last pre = CHR ''/''" by (simp add: pre_def)
  ultimately have d: "Dir (Clean x) = Clean pre" using drop_last_element [OF p(2)] by (simp add: Dir_def)
  have root: "rooted pre = rooted x"
  proof (cases "rooted x \<or> ys = []")
    case False
    then have h: "plain (hd ys)" using plain by simp
    then have "\<not> rooted (join_slash ys)"
      using False not_rooted_plain by (simp add: rooted_join plain_def)
    moreover have "join_slash ys \<noteq> []"
      using h False by (cases ys rule: join_slash.cases) (simp_all add: plain_def)
    ultimately show ?thesis using False by (simp add: pre_def rooted_append)
  qed (auto simp: pre_def rooted_Cons)
  have nil: "elements [] = []" by (simp add: elements_def)
  have el: "elements pre = ys"
    using elements_append [of "join_slash ys" "[]"]
    by (cases "ys = []") (simp_all add: pre_def elements_slash ys nil)
  have "climbs_first ys" using path_comps_climbs_first [of x] x e climbs_first_butlast by simp
  moreover have "rooted x \<longrightarrow> ''..'' \<notin> set ys" using rooted_no_climb [of x] x by simp
  ultimately have "path_comps pre = ys" using fold_push_id by (simp add: path_comps_def root el)
  then show "elements (Dir (Clean x)) = ys" "rooted (Dir (Clean x)) = rooted x"
    by (simp_all add: d elements_Clean rooted_Clean root)
qed

text \<open>A name in a directory.\<close>

lemma Join_name:
  assumes "plain e" and "e \<noteq> ''..''"
  shows "elements (Join [base, e]) = path_comps base @ [e]" and "rooted (Join [base, e]) = rooted base"
proof -
  have e: "e \<noteq> []" "elements e = [e]" "\<not> rooted e"
    using assms by (auto simp: plain_def elements_single not_rooted_plain)
  have l: "path_comps (join_slash [base, e]) = path_comps base @ [e]"
      "rooted (join_slash [base, e]) = rooted base" if "base \<noteq> []"
    using that e assms(2) by (simp_all add: path_comps_def [of "base @ _"] rooted_append elements_append
        path_comps_def [of base] push_def)
  have m: "path_comps (join_slash [e]) = [e]" "\<not> rooted (join_slash [e])"
    using e assms(2) by (simp_all add: path_comps_def push_def)
  have n: "path_comps [] = []" by (simp add: path_comps_def elements_def)
  show "elements (Join [base, e]) = path_comps base @ [e]" "rooted (Join [base, e]) = rooted base"
    using l m n e by (auto simp: Join_def elements_Clean rooted_Clean simp del: join_slash.simps)
qed

lemma resolve_name:
  "plain e \<Longrightarrow> e \<noteq> ''..'' \<Longrightarrow> resolve cwd (Join [base, e]) =
     fold (push True) (path_comps base) (if rooted base then [] else cwd) @ [e]"
  by (simp add: resolve_def Join_name push_def)

text \<open>Reducing a path before it is resolved changes nothing.\<close>

lemma push_reduce:
  assumes "r \<longrightarrow> ''..'' \<notin> set cs \<and> st = []"
  shows "fold (push True) (push r e cs) st = push True e (fold (push True) cs st)"
proof (cases "e = ''..'' \<and> cs \<noteq> [] \<and> last cs \<noteq> ''..''")
  case True
  then obtain ds d where cs: "cs = ds @ [d]" "d \<noteq> ''..''" by (metis append_butlast_last_id)
  then show ?thesis using True by (simp add: push_def)
next
  case False
  then have "push r e cs = cs @ [e] \<or> (push r e cs = cs \<and> r \<and> e = ''..'')" by (auto simp: push_def)
  moreover have "cs = []" if "r" "e = ''..''"
    using False that assms by (metis last_in_set)
  ultimately show ?thesis using assms by (auto simp: push_def)
qed

lemma fold_push_reduce:
  "r \<longrightarrow> ''..'' \<notin> set cs \<and> st = [] \<Longrightarrow>
     fold (push True) (fold (push r) es cs) st = fold (push True) es (fold (push True) cs st)"
proof (induction es arbitrary: cs)
  case (Cons e es)
  have "r \<longrightarrow> ''..'' \<notin> set (push r e cs)" using Cons.prems push_no_climb by (cases r) auto
  then show ?case using Cons.IH [of "push r e cs"] Cons.prems push_reduce [of r cs st e] by simp
qed simp

lemma resolve_comps: "resolve cwd p = fold (push True) (path_comps p) (if rooted p then [] else cwd)"
  using fold_push_reduce [of "rooted p" "[]" "if rooted p then [] else cwd" "elements p"]
  by (auto simp: resolve_def path_comps_def)

end
