(* ===== verification/Plain_Names.thy ===== *)
theory Plain_Names
  imports Filepath Utf8
begin

text \<open>
  Names and paths that mean the same to every service: of letters, digits, hyphens and underscores, and in
  paths also dots. The backends put names into URLs and keys as they are, so what a service documents
  about keys only speaks of these.
\<close>

definition name_char :: "char \<Rightarrow> bool" where
  "name_char c \<longleftrightarrow>
     (let n = of_char c :: nat in
      48 \<le> n \<and> n \<le> 57 \<or> 65 \<le> n \<and> n \<le> 90 \<or> 97 \<le> n \<and> n \<le> 122 \<or> c = CHR ''-'' \<or> c = CHR ''_'')"

definition plain_name :: "string \<Rightarrow> bool" where
  "plain_name s \<longleftrightarrow> s \<noteq> [] \<and> list_all name_char s"

definition plain_segment :: "string \<Rightarrow> bool" where
  "plain_segment s \<longleftrightarrow>
     s \<noteq> [] \<and> s \<noteq> ''.'' \<and> s \<noteq> ''..'' \<and> list_all (\<lambda>c. name_char c \<or> c = CHR ''.'') s"

definition plain_path :: "string \<Rightarrow> bool" where
  "plain_path p \<longleftrightarrow> list_all plain_segment (split_slash p)"

lemma not_name_char [simp]:
  "\<not> name_char CHR ''/''" "\<not> name_char CHR ''.''" "\<not> name_char CHR ''#''" "\<not> name_char CHR ''?''"
  by (simp_all add: name_char_def)

lemma plain_name_segment: "plain_name s \<Longrightarrow> plain_segment s"
  by (auto simp: plain_name_def plain_segment_def list_all_iff)

lemma plain_segment_slash: "plain_segment s \<Longrightarrow> CHR ''/'' \<notin> set s"
  by (auto simp: plain_segment_def list_all_iff)

lemma plain_segment_path: "plain_segment s \<Longrightarrow> plain_path s"
  by (simp add: plain_path_def split_slash_plain plain_segment_slash)

lemma plain_path_append: "plain_path (a @ CHR ''/'' # b) \<longleftrightarrow> plain_path a \<and> plain_path b"
  by (simp add: plain_path_def split_slash_append)

lemma plain_name_path: "plain_name s \<Longrightarrow> plain_path s"
  by (simp add: plain_segment_path plain_name_segment)

lemma plain_path_join: "plain_path a \<Longrightarrow> plain_name n \<Longrightarrow> plain_path (a @ CHR ''/'' # n)"
  by (simp add: plain_path_append plain_name_path)

text \<open>
  What \<open>net/http\<close> sends of a URL to the server: the fragment after a \<open>#\<close> is cut off, and after a \<open>?\<close> comes the query,
  which is not part of the path.
\<close>

definition request_path :: "string \<Rightarrow> string" where
  "request_path url = takeWhile (\<lambda>c. c \<noteq> CHR ''#'' \<and> c \<noteq> CHR ''?'') url"

lemma request_path_cut: "request_path (u @ CHR ''#'' # x) = request_path u"
  "request_path (u @ CHR ''?'' # x) = request_path u"
  by (induction u) (simp_all add: request_path_def)

definition plain_base :: "string \<Rightarrow> bool" where
  "plain_base s \<longleftrightarrow> CHR ''#'' \<notin> set s \<and> CHR ''?'' \<notin> set s"

end
