(* ===== verification/Secret_Services.thy ===== *)
theory Secret_Services
  imports Secrets Plain_Names
begin

text \<open>
  The secret backends on services: \<open>internal/secrets/awsssm.go\<close>, \<open>gcp.go\<close> and \<open>vault.go\<close>. The client
  libraries are parameters, as functions on a state of the service. They provide the contract of a backend
  for plain names, when the service does what it documents for these; the keys and paths they build are
  the reason that secrets do not get mixed up.
\<close>

section \<open>AWS Systems Manager\<close>

text \<open>\<open>GetParameter\<close> gives the value as a pointer, \<open>None\<close> when it is nil.\<close>

record 's ssm_client =
  ssm_GetParameter :: "string \<Rightarrow> 's \<Rightarrow> string option result \<times> 's"
  ssm_PutParameter :: "string \<Rightarrow> string \<Rightarrow> 's \<Rightarrow> unit result \<times> 's"
  ssm_DeleteParameter :: "string \<Rightarrow> 's \<Rightarrow> unit result \<times> 's"

text \<open>
  \<open>NewAWSSSMBackend\<close>: the client comes from the default configuration of the SDK.
\<close>

definition NewAWSSSMBackend ::
  "'cfg result \<Rightarrow> ('cfg \<Rightarrow> 's ssm_client) \<Rightarrow> string \<Rightarrow> ('s ssm_client \<times> string) result" where
  "NewAWSSSMBackend LoadDefaultConfig NewFromConfig pre =
     (case LoadDefaultConfig of
        Inl e \<Rightarrow> Inl (Wrapf ''load aws config'' [] e)
      | Inr cfg \<Rightarrow> Inr (NewFromConfig cfg, pre))"

definition paramName :: "string \<Rightarrow> string \<Rightarrow> string" where
  "paramName pre name = pre @ ''/'' @ name"

definition aws_ToString :: "string option \<Rightarrow> string" where
  "aws_ToString p = (case p of None \<Rightarrow> [] | Some s \<Rightarrow> s)"

definition AWSSSM_Get :: "'s ssm_client \<Rightarrow> string \<Rightarrow> string \<Rightarrow> 's \<Rightarrow> string result \<times> 's" where
  "AWSSSM_Get c pre name s =
     (case ssm_GetParameter c (paramName pre name) s of
        (Inl e, s1) \<Rightarrow> (Inl (Wrapf ''ssm get %s'' [name] e), s1)
      | (Inr out, s1) \<Rightarrow> (Inr (aws_ToString out), s1))"

definition AWSSSM_Set :: "'s ssm_client \<Rightarrow> string \<Rightarrow> string \<Rightarrow> string \<Rightarrow> 's \<Rightarrow> unit result \<times> 's" where
  "AWSSSM_Set c pre name val s =
     (case ssm_PutParameter c (paramName pre name) val s of
        (Inl e, s1) \<Rightarrow> (Inl (Wrapf ''ssm put %s'' [name] e), s1)
      | (Inr _, s1) \<Rightarrow> (Inr (), s1))"

definition AWSSSM_Delete :: "'s ssm_client \<Rightarrow> string \<Rightarrow> string \<Rightarrow> 's \<Rightarrow> unit result \<times> 's" where
  "AWSSSM_Delete c pre name s =
     (case ssm_DeleteParameter c (paramName pre name) s of
        (Inl e, s1) \<Rightarrow> (Inl (Wrapf ''ssm delete %s'' [name] e), s1)
      | (Inr _, s1) \<Rightarrow> (Inr (), s1))"

definition AWSSSM :: "'s ssm_client \<Rightarrow> string \<Rightarrow> 's SecretBackend" where
  "AWSSSM c pre =
     \<lparr>sb_Get = AWSSSM_Get c pre, sb_Set = AWSSSM_Set c pre, sb_Delete = AWSSSM_Delete c pre\<rparr>"

text \<open>
  What the parameter store documents, for names that are plain paths below the prefix (a colon would select a
  version or a label) and values that are valid UTF-8: it maps names to values, a call that fails may have
  changed what it names, and a read shows the map once the last change is seen (\<open>settled\<close>). No one else
  changes these parameters, and no call is still at work after it returned.
\<close>

definition ssm_ok ::
  "'s ssm_client \<Rightarrow> string \<Rightarrow> ('s \<Rightarrow> bool) \<Rightarrow> ('s \<Rightarrow> string \<Rightarrow> string option) \<Rightarrow> bool" where
  "ssm_ok c pre settled params \<longleftrightarrow>
     (\<forall>q s r s'. plain_path q \<and> ssm_GetParameter c (pre @ ''/'' @ q) s = (r, s') \<longrightarrow>
        params s' = params s \<and> (settled s \<longrightarrow> settled s'
          \<and> (\<forall>p. r = Inr p \<longrightarrow> p \<noteq> None \<and> params s (pre @ ''/'' @ q) = p)))
   \<and> (\<forall>q v s r s'. plain_path q \<and> utf8_valid v \<and> ssm_PutParameter c (pre @ ''/'' @ q) v s = (r, s') \<longrightarrow>
        params s' = (params s)(pre @ ''/'' @ q \<mapsto> v) \<or> (\<exists>e. r = Inl e) \<and> params s' = params s)
   \<and> (\<forall>q s r s'. plain_path q \<and> ssm_DeleteParameter c (pre @ ''/'' @ q) s = (r, s') \<longrightarrow>
        params s' = (params s)(pre @ ''/'' @ q := None) \<or> (\<exists>e. r = Inl e) \<and> params s' = params s)"

lemma inj_paramName: "paramName pre a = paramName pre b \<longleftrightarrow> a = b"
  by (simp add: paramName_def)

lemma AWSSSM_sel [simp]:
  "sb_Get (AWSSSM c pre) = AWSSSM_Get c pre" "sb_Set (AWSSSM c pre) = AWSSSM_Set c pre"
  "sb_Delete (AWSSSM c pre) = AWSSSM_Delete c pre"
  by (simp_all add: AWSSSM_def)

lemma ssm_get:
  "ssm_ok c pre settled params \<Longrightarrow> plain_path q \<Longrightarrow> ssm_GetParameter c (paramName pre q) s = (r, s') \<Longrightarrow>
     params s' = params s \<and> (settled s \<longrightarrow> settled s'
       \<and> (\<forall>p. r = Inr p \<longrightarrow> p \<noteq> None \<and> params s (paramName pre q) = p))"
  unfolding ssm_ok_def paramName_def by blast

lemma ssm_put:
  "ssm_ok c pre settled params \<Longrightarrow> plain_path q \<Longrightarrow> utf8_valid v \<Longrightarrow>
     ssm_PutParameter c (paramName pre q) v s = (r, s') \<Longrightarrow>
     params s' = (params s)(paramName pre q \<mapsto> v) \<or> (\<exists>e. r = Inl e) \<and> params s' = params s"
  unfolding ssm_ok_def paramName_def by blast

lemma ssm_delete:
  "ssm_ok c pre settled params \<Longrightarrow> plain_path q \<Longrightarrow> ssm_DeleteParameter c (paramName pre q) s = (r, s') \<Longrightarrow>
     params s' = (params s)(paramName pre q := None) \<or> (\<exists>e. r = Inl e) \<and> params s' = params s"
  unfolding ssm_ok_def paramName_def by blast

lemma AWSSSM_Get_effect:
  assumes "ssm_ok c pre settled params" and "plain_path n" and "AWSSSM_Get c pre n s = (q, s')"
  shows "params s' = params s \<and> (settled s \<longrightarrow> settled s'
    \<and> (\<forall>v. q = Inr v \<longrightarrow> params s (paramName pre n) = Some v))"
proof -
  obtain r t where r: "ssm_GetParameter c (paramName pre n) s = (r, t)"
    by (cases "ssm_GetParameter c (paramName pre n) s")
  show ?thesis
    using ssm_get [OF assms(1,2) r] assms(3)
    by (cases r) (auto simp: AWSSSM_Get_def r aws_ToString_def)
qed

lemma AWSSSM_Set_effect:
  assumes "ssm_ok c pre settled params" and "plain_path n" and "utf8_valid v" and "AWSSSM_Set c pre n v s = (q, s')"
  shows "params s' = (params s)(paramName pre n \<mapsto> v) \<or> (\<exists>e. q = Inl e) \<and> params s' = params s"
proof -
  obtain r t where r: "ssm_PutParameter c (paramName pre n) v s = (r, t)"
    by (cases "ssm_PutParameter c (paramName pre n) v s")
  show ?thesis
    using ssm_put [OF assms(1-3) r] assms(4) by (cases r) (auto simp: AWSSSM_Set_def r)
qed

lemma AWSSSM_Delete_effect:
  assumes "ssm_ok c pre settled params" and "plain_path n" and "AWSSSM_Delete c pre n s = (q, s')"
  shows "params s' = (params s)(paramName pre n := None) \<or> (\<exists>e. q = Inl e) \<and> params s' = params s"
proof -
  obtain r t where r: "ssm_DeleteParameter c (paramName pre n) s = (r, t)"
    by (cases "ssm_DeleteParameter c (paramName pre n) s")
  show ?thesis
    using ssm_delete [OF assms(1,2) r] assms(3) by (cases r) (auto simp: AWSSSM_Delete_def r)
qed

interpretation aws: secret_contract "AWSSSM c pre" "\<lambda>_. ssm_ok c pre settled params" settled plain_path utf8_valid
  "\<lambda>s n. params s (paramName pre n)"
  for c pre settled params
  apply unfold_locales
  subgoal for s n r s' using AWSSSM_Get_effect [of c pre settled params n s r s'] by auto
  subgoal for s n v s' using AWSSSM_Get_effect [of c pre settled params n s "Inr v" s'] by simp
  subgoal for s n v u s'
    using AWSSSM_Set_effect [of c pre settled params n v s "Inr u" s'] by (simp add: inj_paramName fun_eq_iff)
  subgoal for s n v e s'
    using AWSSSM_Set_effect [of c pre settled params n v s "Inl e" s'] by (auto simp: inj_paramName fun_eq_iff)
  subgoal for s n u s'
    using AWSSSM_Delete_effect [of c pre settled params n s "Inr u" s'] by (simp add: inj_paramName fun_eq_iff)
  subgoal for s n e s'
    using AWSSSM_Delete_effect [of c pre settled params n s "Inl e" s'] by (auto simp: inj_paramName fun_eq_iff)
  done

section \<open>GCP Secret Manager\<close>

text \<open>
  The calls of the client; \<open>CreateSecret\<close> returns the text of its error, as \<open>Set\<close> looks into it.
\<close>

record 's gcp_client =
  gc_AccessSecretVersion :: "string \<Rightarrow> 's \<Rightarrow> string result \<times> 's"
  gc_CreateSecret :: "string \<Rightarrow> string \<Rightarrow> 's \<Rightarrow> string option \<times> 's"
  gc_AddSecretVersion :: "string \<Rightarrow> string \<Rightarrow> 's \<Rightarrow> unit result \<times> 's"
  gc_DeleteSecret :: "string \<Rightarrow> 's \<Rightarrow> unit result \<times> 's"

definition NewGCPSecretBackend :: "'s gcp_client result \<Rightarrow> string \<Rightarrow> ('s gcp_client \<times> string) result" where
  "NewGCPSecretBackend NewClient projectID =
     (case NewClient of
        Inl e \<Rightarrow> Inl (Wrapf ''gcp secret manager client'' [] e)
      | Inr client \<Rightarrow> Inr (client, projectID))"

definition secretName :: "string \<Rightarrow> string \<Rightarrow> string" where
  "secretName projectID name = ''projects/'' @ projectID @ ''/secrets/'' @ name"

text \<open>\<open>strings.Contains\<close>.\<close>

definition Contains :: "string \<Rightarrow> string \<Rightarrow> bool" where
  "Contains s sub \<longleftrightarrow> cut sub s \<noteq> None"

definition GCP_Get :: "'s gcp_client \<Rightarrow> string \<Rightarrow> string \<Rightarrow> 's \<Rightarrow> string result \<times> 's" where
  "GCP_Get c projectID name s =
     (let versionName = secretName projectID name @ ''/versions/latest'' in
      case gc_AccessSecretVersion c versionName s of
        (Inl e, s1) \<Rightarrow> (Inl (Wrapf ''gcp get secret %s'' [name] e), s1)
      | (Inr data, s1) \<Rightarrow> (Inr data, s1))"

definition GCP_Set :: "'s gcp_client \<Rightarrow> string \<Rightarrow> string \<Rightarrow> string \<Rightarrow> 's \<Rightarrow> unit result \<times> 's" where
  "GCP_Set c projectID name val s =
     (let parent = ''projects/'' @ projectID in
      case gc_CreateSecret c parent name s of
        (err, s1) \<Rightarrow>
          (case err of
             Some m \<Rightarrow>
               if \<not> Contains m ''AlreadyExists''
               then (Inl (Wrapf ''gcp create secret %s'' [name] (DriverErr m)), s1)
               else (case gc_AddSecretVersion c (secretName projectID name) val s1 of
                 (Inl e, s2) \<Rightarrow> (Inl (Wrapf ''gcp add secret version %s'' [name] e), s2)
               | (Inr _, s2) \<Rightarrow> (Inr (), s2))
           | None \<Rightarrow>
               (case gc_AddSecretVersion c (secretName projectID name) val s1 of
                 (Inl e, s2) \<Rightarrow> (Inl (Wrapf ''gcp add secret version %s'' [name] e), s2)
               | (Inr _, s2) \<Rightarrow> (Inr (), s2))))"

definition GCP_Delete :: "'s gcp_client \<Rightarrow> string \<Rightarrow> string \<Rightarrow> 's \<Rightarrow> unit result \<times> 's" where
  "GCP_Delete c projectID name s =
     (case gc_DeleteSecret c (secretName projectID name) s of
        (Inl e, s1) \<Rightarrow> (Inl (Wrapf ''gcp delete secret %s'' [name] e), s1)
      | (Inr _, s1) \<Rightarrow> (Inr (), s1))"

definition GCPSecret :: "'s gcp_client \<Rightarrow> string \<Rightarrow> 's SecretBackend" where
  "GCPSecret c projectID =
     \<lparr>sb_Get = GCP_Get c projectID, sb_Set = GCP_Set c projectID, sb_Delete = GCP_Delete c projectID\<rparr>"

lemma GCPSecret_sel [simp]:
  "sb_Get (GCPSecret c p) = GCP_Get c p" "sb_Set (GCPSecret c p) = GCP_Set c p"
  "sb_Delete (GCPSecret c p) = GCP_Delete c p"
  by (simp_all add: GCPSecret_def)

text \<open>
  What the Secret Manager documents for the secrets of the project with plain names, with the payload of the
  latest version of each: a secret that was just created has none, the other calls act on the secret they
  name, and a call that fails may have been carried out. The alias \<open>latest\<close> is only consistent after a while
  (\<open>settled\<close>). No one else changes these secrets, and no call is still at work after it returned.
\<close>

definition gcp_ok ::
  "'s gcp_client \<Rightarrow> string \<Rightarrow> ('s \<Rightarrow> bool) \<Rightarrow> ('s \<Rightarrow> string \<Rightarrow> string option) \<Rightarrow> bool" where
  "gcp_ok c p settled latest \<longleftrightarrow>
     (\<forall>n s r s'. plain_name n \<and>
        gc_AccessSecretVersion c (''projects/'' @ p @ ''/secrets/'' @ n @ ''/versions/latest'') s = (r, s') \<longrightarrow>
        latest s' = latest s \<and> (settled s \<longrightarrow> settled s'
          \<and> (\<forall>v. r = Inr v \<longrightarrow> latest s (''projects/'' @ p @ ''/secrets/'' @ n) = Some v)))
   \<and> (\<forall>n s r s'. plain_name n \<and> gc_CreateSecret c (''projects/'' @ p) n s = (r, s') \<longrightarrow> latest s' = latest s)
   \<and> (\<forall>n v s r s'. plain_name n \<and> gc_AddSecretVersion c (''projects/'' @ p @ ''/secrets/'' @ n) v s = (r, s') \<longrightarrow>
        latest s' = (latest s)(''projects/'' @ p @ ''/secrets/'' @ n \<mapsto> v)
        \<or> (\<exists>e. r = Inl e) \<and> latest s' = latest s)
   \<and> (\<forall>n s r s'. plain_name n \<and> gc_DeleteSecret c (''projects/'' @ p @ ''/secrets/'' @ n) s = (r, s') \<longrightarrow>
        latest s' = (latest s)(''projects/'' @ p @ ''/secrets/'' @ n := None)
        \<or> (\<exists>e. r = Inl e) \<and> latest s' = latest s)"

lemma inj_secretName: "secretName p a = secretName p b \<longleftrightarrow> a = b"
  by (simp add: secretName_def)

lemma gcp_access:
  "gcp_ok c p settled latest \<Longrightarrow> plain_name n \<Longrightarrow>
     gc_AccessSecretVersion c (secretName p n @ ''/versions/latest'') s = (r, s') \<Longrightarrow>
     latest s' = latest s \<and> (settled s \<longrightarrow> settled s' \<and> (\<forall>v. r = Inr v \<longrightarrow> latest s (secretName p n) = Some v))"
  unfolding gcp_ok_def secretName_def append_assoc by blast

lemma gcp_create:
  "gcp_ok c p settled latest \<Longrightarrow> plain_name n \<Longrightarrow> gc_CreateSecret c (''projects/'' @ p) n s = (r, s') \<Longrightarrow>
     latest s' = latest s"
  unfolding gcp_ok_def by blast

lemma gcp_add:
  "gcp_ok c p settled latest \<Longrightarrow> plain_name n \<Longrightarrow> gc_AddSecretVersion c (secretName p n) v s = (r, s') \<Longrightarrow>
     latest s' = (latest s)(secretName p n \<mapsto> v) \<or> (\<exists>e. r = Inl e) \<and> latest s' = latest s"
  unfolding gcp_ok_def secretName_def by blast

lemma gcp_delete:
  "gcp_ok c p settled latest \<Longrightarrow> plain_name n \<Longrightarrow> gc_DeleteSecret c (secretName p n) s = (r, s') \<Longrightarrow>
     latest s' = (latest s)(secretName p n := None) \<or> (\<exists>e. r = Inl e) \<and> latest s' = latest s"
  unfolding gcp_ok_def secretName_def by blast

lemma GCP_Get_effect:
  assumes "gcp_ok c p settled latest" and "plain_name n" and "GCP_Get c p n s = (q, s')"
  shows "latest s' = latest s \<and> (settled s \<longrightarrow> settled s'
    \<and> (\<forall>v. q = Inr v \<longrightarrow> latest s (secretName p n) = Some v))"
proof -
  obtain r t where r: "gc_AccessSecretVersion c (secretName p n @ ''/versions/latest'') s = (r, t)"
    by (cases "gc_AccessSecretVersion c (secretName p n @ ''/versions/latest'') s")
  show ?thesis
    using gcp_access [OF assms(1,2) r] assms(3) by (cases r) (auto simp: GCP_Get_def r Let_def)
qed

lemma GCP_Set_effect:
  assumes "gcp_ok c p settled latest" and "plain_name n" and "GCP_Set c p n v s = (q, s')"
  shows "latest s' = (latest s)(secretName p n \<mapsto> v) \<or> (\<exists>e. q = Inl e) \<and> latest s' = latest s"
proof -
  obtain e t where e: "gc_CreateSecret c (''projects/'' @ p) n s = (e, t)"
    by (cases "gc_CreateSecret c (''projects/'' @ p) n s")
  obtain r u where r: "gc_AddSecretVersion c (secretName p n) v t = (r, u)"
    by (cases "gc_AddSecretVersion c (secretName p n) v t")
  have t: "latest t = latest s" by (rule gcp_create [OF assms(1,2) e])
  have u: "latest u = (latest s)(secretName p n \<mapsto> v) \<or> (\<exists>e. r = Inl e) \<and> latest u = latest s"
    using gcp_add [OF assms(1,2) r] t by simp
  show ?thesis
    using assms(3) t u by (cases e; cases r) (auto simp: GCP_Set_def Let_def e [simplified] r split: if_splits)
qed

lemma GCP_Delete_effect:
  assumes "gcp_ok c p settled latest" and "plain_name n" and "GCP_Delete c p n s = (q, s')"
  shows "latest s' = (latest s)(secretName p n := None) \<or> (\<exists>e. q = Inl e) \<and> latest s' = latest s"
proof -
  obtain r t where r: "gc_DeleteSecret c (secretName p n) s = (r, t)"
    by (cases "gc_DeleteSecret c (secretName p n) s")
  show ?thesis
    using gcp_delete [OF assms(1,2) r] assms(3) by (cases r) (auto simp: GCP_Delete_def r)
qed

interpretation gcp: secret_contract "GCPSecret c p" "\<lambda>_. gcp_ok c p settled latest" settled plain_name "\<lambda>_. True"
  "\<lambda>s n. latest s (secretName p n)"
  for c p settled latest
  apply unfold_locales
  subgoal for s n r s' using GCP_Get_effect [of c p settled latest n s r s'] by auto
  subgoal for s n v s' using GCP_Get_effect [of c p settled latest n s "Inr v" s'] by simp
  subgoal for s n v u s'
    using GCP_Set_effect [of c p settled latest n v s "Inr u" s'] by (simp add: inj_secretName fun_eq_iff)
  subgoal for s n v e s'
    using GCP_Set_effect [of c p settled latest n v s "Inl e" s'] by (auto simp: inj_secretName fun_eq_iff)
  subgoal for s n u s'
    using GCP_Delete_effect [of c p settled latest n s "Inr u" s'] by (simp add: inj_secretName fun_eq_iff)
  subgoal for s n e s'
    using GCP_Delete_effect [of c p settled latest n s "Inl e" s'] by (auto simp: inj_secretName fun_eq_iff)
  done

section \<open>HashiCorp Vault\<close>

text \<open>
  An HTTP request and the answer to it. \<open>vh_valid\<close> says whether \<open>http.NewRequest\<close> accepts a URL (its
  error otherwise), and \<open>vh_Do\<close> sends a request. A body that is read may break off with an error; \<open>Set\<close>
  ignores that.
\<close>

record vault_request =
  vq_Method :: string
  vq_URL :: string
  vq_Token :: string
  vq_Body :: "string option"

record vault_response =
  vr_StatusCode :: nat
  vr_Body :: string

record 's vault_http =
  vh_valid :: "string \<Rightarrow> go_error option"
  vh_Do :: "vault_request \<Rightarrow> 's \<Rightarrow> vault_response result \<times> 's"

text \<open>JSON: the object that is written, and the map \<open>data.data\<close> of what is read.\<close>

record vault_json =
  vj_Marshal :: "string \<Rightarrow> string"
  vj_Decode :: "string \<Rightarrow> (string \<Rightarrow> string option) result"

record VaultSecretBackend =
  vb_addr :: string
  vb_token :: string
  vb_mount :: string
  vb_prefix :: string

definition NewVaultSecretBackend :: "string \<Rightarrow> string \<Rightarrow> string \<Rightarrow> string \<Rightarrow> VaultSecretBackend" where
  "NewVaultSecretBackend addr token mount pre =
     \<lparr>vb_addr = TrimRight addr ''/'', vb_token = token, vb_mount = mount, vb_prefix = pre\<rparr>"

definition kvURL :: "VaultSecretBackend \<Rightarrow> string \<Rightarrow> string" where
  "kvURL b name =
     (let path = vb_prefix b @ ''/'' @ name in
      vb_addr b @ ''/v1/'' @ vb_mount b @ ''/data/'' @ path)"

definition Vault_Get ::
  "'s vault_http \<Rightarrow> vault_json \<Rightarrow> VaultSecretBackend \<Rightarrow> string \<Rightarrow> 's \<Rightarrow> string result \<times> 's" where
  "Vault_Get h j b name s =
     (case vh_valid h (kvURL b name) of
        Some e \<Rightarrow> (Inl e, s)
      | None \<Rightarrow>
          (case vh_Do h \<lparr>vq_Method = ''GET'', vq_URL = kvURL b name, vq_Token = vb_token b, vq_Body = None\<rparr> s of
             (Inl e, s1) \<Rightarrow> (Inl (Wrapf ''vault get %s'' [name] e), s1)
           | (Inr resp, s1) \<Rightarrow>
               ((if vr_StatusCode resp = 404 then Inl (Errorf ''secret %q not found in vault'' [name])
                 else if vr_StatusCode resp \<ge> 300
                 then Inl (Errorf ''vault get %s: status %d'' [name, decimal (vr_StatusCode resp)])
                 else case vj_Decode j (vr_Body resp) of
                   Inl e \<Rightarrow> Inl (Wrapf ''vault decode'' [] e)
                 | Inr data \<Rightarrow>
                     (case data ''value'' of
                        None \<Rightarrow> Inl (Errorf ''vault secret %s has no 'value' field'' [name])
                      | Some val \<Rightarrow> Inr val)), s1)))"

definition Vault_Set ::
  "'s vault_http \<Rightarrow> vault_json \<Rightarrow> VaultSecretBackend \<Rightarrow> string \<Rightarrow> string \<Rightarrow> 's \<Rightarrow> unit result \<times> 's" where
  "Vault_Set h j b name val s =
     (let payload = vj_Marshal j val in
      case vh_valid h (kvURL b name) of
        Some e \<Rightarrow> (Inl e, s)
      | None \<Rightarrow>
          (case vh_Do h \<lparr>vq_Method = ''POST'', vq_URL = kvURL b name, vq_Token = vb_token b,
                  vq_Body = Some payload\<rparr> s of
             (Inl e, s1) \<Rightarrow> (Inl (Wrapf ''vault set %s'' [name] e), s1)
           | (Inr resp, s1) \<Rightarrow>
               ((if vr_StatusCode resp \<ge> 300
                 then Inl (Errorf ''vault set %s: status %d: %s''
                        [name, decimal (vr_StatusCode resp), vr_Body resp])
                 else Inr ()), s1)))"

definition Vault_Delete ::
  "'s vault_http \<Rightarrow> VaultSecretBackend \<Rightarrow> string \<Rightarrow> 's \<Rightarrow> unit result \<times> 's" where
  "Vault_Delete h b name s =
     (let metaURL = vb_addr b @ ''/v1/'' @ vb_mount b @ ''/metadata/'' @ vb_prefix b @ ''/'' @ name in
      case vh_valid h metaURL of
        Some e \<Rightarrow> (Inl e, s)
      | None \<Rightarrow>
          (case vh_Do h \<lparr>vq_Method = ''DELETE'', vq_URL = metaURL, vq_Token = vb_token b, vq_Body = None\<rparr> s of
             (Inl e, s1) \<Rightarrow> (Inl (Wrapf ''vault delete %s'' [name] e), s1)
           | (Inr resp, s1) \<Rightarrow>
               ((if vr_StatusCode resp \<ge> 300 \<and> vr_StatusCode resp \<noteq> 404
                 then Inl (Errorf ''vault delete %s: status %d'' [name, decimal (vr_StatusCode resp)])
                 else Inr ()), s1)))"

definition VaultSecret :: "'s vault_http \<Rightarrow> vault_json \<Rightarrow> VaultSecretBackend \<Rightarrow> 's SecretBackend" where
  "VaultSecret h j b =
     \<lparr>sb_Get = Vault_Get h j b, sb_Set = Vault_Set h j b, sb_Delete = Vault_Delete h b\<rparr>"

lemma VaultSecret_sel [simp]:
  "sb_Get (VaultSecret h j b) = Vault_Get h j b" "sb_Set (VaultSecret h j b) = Vault_Set h j b"
  "sb_Delete (VaultSecret h j b) = Vault_Delete h b"
  by (simp_all add: VaultSecret_def)

text \<open>
  What the KV engine (version 2) documents, for the plain paths of a mount, values that are valid UTF-8 (JSON
  replaces other bytes), and requests with the token: \<open>kv\<close> is the value at each path, a read that
  succeeds gives it once the last write is seen (\<open>settled\<close>), a write that succeeds replaces it, and the
  deletion of the metadata removes it, as nothing is there when it answers 404. Any other answer of 300 or
  more, or none at all, leaves open whether the path was changed. No one else changes the mount,
  and no request is still at work after its answer.
\<close>

definition vault_ok ::
  "'s vault_http \<Rightarrow> vault_json \<Rightarrow> VaultSecretBackend \<Rightarrow> ('s \<Rightarrow> bool) \<Rightarrow> ('s \<Rightarrow> string \<Rightarrow> string option) \<Rightarrow> bool" where
  "vault_ok h j b settled kv \<longleftrightarrow>
     (\<forall>p s r s'. plain_path p \<and>
        vh_Do h \<lparr>vq_Method = ''GET'', vq_URL = vb_addr b @ ''/v1/'' @ vb_mount b @ ''/data/'' @ p,
          vq_Token = vb_token b, vq_Body = None\<rparr> s = (r, s') \<longrightarrow>
        kv s' = kv s \<and> (settled s \<longrightarrow> settled s' \<and> (\<forall>resp data v. r = Inr resp \<and> vr_StatusCode resp < 300
          \<and> vj_Decode j (vr_Body resp) = Inr data \<and> data ''value'' = Some v \<longrightarrow> kv s p = Some v)))
   \<and> (\<forall>p v s r s'. plain_path p \<and> utf8_valid v \<and>
        vh_Do h \<lparr>vq_Method = ''POST'', vq_URL = vb_addr b @ ''/v1/'' @ vb_mount b @ ''/data/'' @ p,
          vq_Token = vb_token b, vq_Body = Some (vj_Marshal j v)\<rparr> s = (r, s') \<longrightarrow>
        kv s' = (kv s)(p \<mapsto> v)
        \<or> (\<forall>resp. r = Inr resp \<longrightarrow> 300 \<le> vr_StatusCode resp) \<and> kv s' = kv s)
   \<and> (\<forall>p s r s'. plain_path p \<and>
        vh_Do h \<lparr>vq_Method = ''DELETE'', vq_URL = vb_addr b @ ''/v1/'' @ vb_mount b @ ''/metadata/'' @ p,
          vq_Token = vb_token b, vq_Body = None\<rparr> s = (r, s') \<longrightarrow>
        kv s' = (kv s)(p := None)
        \<or> (\<forall>resp. r = Inr resp \<longrightarrow> 300 \<le> vr_StatusCode resp \<and> vr_StatusCode resp \<noteq> 404) \<and> kv s' = kv s)"

definition kv_path :: "VaultSecretBackend \<Rightarrow> string \<Rightarrow> string" where
  "kv_path b n = vb_prefix b @ ''/'' @ n"

definition metaURL :: "VaultSecretBackend \<Rightarrow> string \<Rightarrow> string" where
  "metaURL b n = vb_addr b @ ''/v1/'' @ vb_mount b @ ''/metadata/'' @ kv_path b n"

lemma kvURL_path: "kvURL b n = vb_addr b @ ''/v1/'' @ vb_mount b @ ''/data/'' @ kv_path b n"
  by (simp add: kvURL_def kv_path_def Let_def)

lemma inj_kv_path: "kv_path b m = kv_path b n \<longleftrightarrow> m = n"
  by (simp add: kv_path_def)

lemma kv_path_plain: "plain_path (vb_prefix b) \<Longrightarrow> plain_path n \<Longrightarrow> plain_path (kv_path b n)"
  by (simp add: kv_path_def plain_path_append)

lemma vault_get:
  "vault_ok h j b settled kv \<Longrightarrow> plain_path (kv_path b n) \<Longrightarrow>
     vh_Do h \<lparr>vq_Method = ''GET'', vq_URL = kvURL b n, vq_Token = vb_token b, vq_Body = None\<rparr> s = (r, s') \<Longrightarrow>
     kv s' = kv s \<and> (settled s \<longrightarrow> settled s' \<and> (\<forall>resp data v. r = Inr resp \<and> vr_StatusCode resp < 300
       \<and> vj_Decode j (vr_Body resp) = Inr data \<and> data ''value'' = Some v \<longrightarrow> kv s (kv_path b n) = Some v))"
  unfolding kvURL_path
  by (rule vault_ok_def [THEN iffD1, THEN conjunct1, THEN spec, THEN spec, THEN spec, THEN spec, THEN mp])
    (assumption, intro conjI)

lemma vault_post:
  "vault_ok h j b settled kv \<Longrightarrow> plain_path (kv_path b n) \<Longrightarrow> utf8_valid v \<Longrightarrow>
     vh_Do h \<lparr>vq_Method = ''POST'', vq_URL = kvURL b n, vq_Token = vb_token b,
       vq_Body = Some (vj_Marshal j v)\<rparr> s = (r, s') \<Longrightarrow>
     kv s' = (kv s)(kv_path b n \<mapsto> v)
     \<or> (\<forall>resp. r = Inr resp \<longrightarrow> 300 \<le> vr_StatusCode resp) \<and> kv s' = kv s"
  unfolding vault_ok_def kvURL_path by blast

lemma vault_delete:
  "vault_ok h j b settled kv \<Longrightarrow> plain_path (kv_path b n) \<Longrightarrow>
     vh_Do h \<lparr>vq_Method = ''DELETE'', vq_URL = metaURL b n, vq_Token = vb_token b, vq_Body = None\<rparr> s = (r, s') \<Longrightarrow>
     kv s' = (kv s)(kv_path b n := None)
     \<or> (\<forall>resp. r = Inr resp \<longrightarrow> 300 \<le> vr_StatusCode resp \<and> vr_StatusCode resp \<noteq> 404) \<and> kv s' = kv s"
  unfolding vault_ok_def metaURL_def by blast

lemma Vault_Get_effect:
  assumes "vault_ok h j b settled kv" and "plain_path (kv_path b n)" and "Vault_Get h j b n s = (q, s')"
  shows "kv s' = kv s \<and> (settled s \<longrightarrow> settled s' \<and> (\<forall>v. q = Inr v \<longrightarrow> kv s (kv_path b n) = Some v))"
proof (cases "vh_valid h (kvURL b n)")
  case None
  obtain r t where r: "vh_Do h \<lparr>vq_Method = ''GET'', vq_URL = kvURL b n, vq_Token = vb_token b,
      vq_Body = None\<rparr> s = (r, t)"
    by (cases "vh_Do h \<lparr>vq_Method = ''GET'', vq_URL = kvURL b n, vq_Token = vb_token b, vq_Body = None\<rparr> s")
  show ?thesis
    using vault_get [OF assms(1,2) r] assms(3)
    by (cases r) (auto simp: Vault_Get_def None r [simplified] not_le split: sum.splits if_splits option.splits)
qed (use assms(3) in \<open>auto simp: Vault_Get_def\<close>)

lemma Vault_Set_effect:
  assumes "vault_ok h j b settled kv" and "plain_path (kv_path b n)" and "utf8_valid v"
    and "Vault_Set h j b n v s = (q, s')"
  shows "kv s' = (kv s)(kv_path b n \<mapsto> v) \<or> (\<exists>e. q = Inl e) \<and> kv s' = kv s"
proof (cases "vh_valid h (kvURL b n)")
  case None
  obtain r t where r: "vh_Do h \<lparr>vq_Method = ''POST'', vq_URL = kvURL b n, vq_Token = vb_token b,
      vq_Body = Some (vj_Marshal j v)\<rparr> s = (r, t)"
    by (cases "vh_Do h \<lparr>vq_Method = ''POST'', vq_URL = kvURL b n, vq_Token = vb_token b,
      vq_Body = Some (vj_Marshal j v)\<rparr> s")
  show ?thesis
    using vault_post [OF assms(1-3) r] assms(4)
    by (cases r) (auto simp: Vault_Set_def None r [simplified] not_le split: if_splits)
qed (use assms(4) in \<open>auto simp: Vault_Set_def\<close>)

lemma Vault_Delete_meta:
  "Vault_Delete h b name s =
     (case vh_valid h (metaURL b name) of
        Some e \<Rightarrow> (Inl e, s)
      | None \<Rightarrow>
          (case vh_Do h \<lparr>vq_Method = ''DELETE'', vq_URL = metaURL b name, vq_Token = vb_token b, vq_Body = None\<rparr> s of
             (Inl e, s1) \<Rightarrow> (Inl (Wrapf ''vault delete %s'' [name] e), s1)
           | (Inr resp, s1) \<Rightarrow>
               ((if vr_StatusCode resp \<ge> 300 \<and> vr_StatusCode resp \<noteq> 404
                 then Inl (Errorf ''vault delete %s: status %d'' [name, decimal (vr_StatusCode resp)])
                 else Inr ()), s1)))"
  by (simp only: Vault_Delete_def metaURL_def kv_path_def Let_def)

lemma Vault_Delete_effect:
  assumes "vault_ok h j b settled kv" and "plain_path (kv_path b n)" and "Vault_Delete h b n s = (q, s')"
  shows "kv s' = (kv s)(kv_path b n := None) \<or> (\<exists>e. q = Inl e) \<and> kv s' = kv s"
proof (cases "vh_valid h (metaURL b n)")
  case None
  obtain r t where r: "vh_Do h \<lparr>vq_Method = ''DELETE'', vq_URL = metaURL b n, vq_Token = vb_token b,
      vq_Body = None\<rparr> s = (r, t)"
    by (metis surj_pair)
  show ?thesis
    using vault_delete [OF assms(1,2) r] assms(3)
    by (cases r) (auto simp: Vault_Delete_meta None r not_le split: if_splits)
qed (use assms(3) in \<open>auto simp: Vault_Delete_meta\<close>)

interpretation vault: secret_contract "VaultSecret h j b"
  "\<lambda>_. vault_ok h j b settled kv \<and> plain_path (vb_prefix b)" settled plain_path utf8_valid
  "\<lambda>s n. kv s (kv_path b n)"
  for h j b settled kv
  apply unfold_locales
  subgoal for s n r s' using Vault_Get_effect [of h j b settled kv n s r s'] kv_path_plain by auto
  subgoal for s n v s' using Vault_Get_effect [of h j b settled kv n s "Inr v" s'] kv_path_plain by simp
  subgoal for s n v u s'
    using Vault_Set_effect [of h j b settled kv n v s "Inr u" s'] kv_path_plain
    by (simp add: inj_kv_path fun_eq_iff)
  subgoal for s n v e s'
    using Vault_Set_effect [of h j b settled kv n v s "Inl e" s'] kv_path_plain
    by (auto simp: inj_kv_path fun_eq_iff)
  subgoal for s n u s'
    using Vault_Delete_effect [of h j b settled kv n s "Inr u" s'] kv_path_plain
    by (simp add: inj_kv_path fun_eq_iff)
  subgoal for s n e s'
    using Vault_Delete_effect [of h j b settled kv n s "Inl e" s'] kv_path_plain
    by (auto simp: inj_kv_path fun_eq_iff)
  done

text \<open>
  For other names the code does not keep them apart: it puts the name into the URL as it is, and what follows
  a \<open>#\<close> is not sent, what follows a \<open>?\<close> is not part of the path.
\<close>

lemma kvURL_not_escaped:
  "request_path (kvURL b (n @ ''#'' @ x)) = request_path (kvURL b n)"
  "request_path (kvURL b (n @ ''?'' @ x)) = request_path (kvURL b n)"
  using request_path_cut [of "kvURL b n" x] by (simp_all add: kvURL_def Let_def)

section \<open>A secret survives the service\<close>

text \<open>
  What the user of a backend sees, for the names and values it takes as they are. After a \<open>Set\<close> that
  succeeded, once the backend has settled, a value that \<open>Get\<close> returns is the one that was set, or for another
  name the one that was held before; after a \<open>Delete\<close> that succeeded, \<open>Get\<close> is an error; a \<open>Set\<close> or \<open>Delete\<close> that
  fails has changed no other name, and its own at most to what it was to become; and \<open>Get\<close> changes nothing.
\<close>

definition secret_laws ::
  "'s SecretBackend \<Rightarrow> ('s \<Rightarrow> bool) \<Rightarrow> (string \<Rightarrow> bool) \<Rightarrow> (string \<Rightarrow> bool) \<Rightarrow>
   ('s \<Rightarrow> string \<Rightarrow> string option) \<Rightarrow> bool" where
  "secret_laws B settled okn okv view \<longleftrightarrow>
     (\<forall>s n v s1. okn n \<and> okv v \<and> sb_Set B n v s = (Inr (), s1) \<longrightarrow>
        (\<forall>m t x t2. okn m \<and> settled t \<and> view t = view s1 \<and> sb_Get B m t = (Inr x, t2) \<longrightarrow>
           (if m = n then x = v else view s m = Some x)))
   \<and> (\<forall>s n s1. okn n \<and> sb_Delete B n s = (Inr (), s1) \<longrightarrow>
        (\<forall>t. settled t \<and> view t = view s1 \<longrightarrow> (\<exists>e. fst (sb_Get B n t) = Inl e))
        \<and> (\<forall>m. m \<noteq> n \<longrightarrow> view s1 m = view s m))
   \<and> (\<forall>s n v e s1. okn n \<and> okv v \<and> sb_Set B n v s = (Inl e, s1) \<longrightarrow>
        view s1 n \<in> {view s n, Some v} \<and> (\<forall>m. m \<noteq> n \<longrightarrow> view s1 m = view s m))
   \<and> (\<forall>s n e s1. okn n \<and> sb_Delete B n s = (Inl e, s1) \<longrightarrow>
        view s1 n \<in> {view s n, None} \<and> (\<forall>m. m \<noteq> n \<longrightarrow> view s1 m = view s m))
   \<and> (\<forall>s n r s1. okn n \<and> sb_Get B n s = (r, s1) \<longrightarrow> view s1 = view s)"

context secret_contract
begin

lemma set_then_get:
  assumes "valid s" and "okn n" and "okv v" and "sb_Set B n v s = (Inr u, s1)"
    and "valid t" and "settled t" and "view t = view s1" and "okn m" and "sb_Get B m t = (Inr x, t2)"
  shows "if m = n then x = v else view s m = Some x"
  using set_ok [OF assms(1-4)] get_ok [OF assms(5,6,8,9)] assms(7) by auto

lemma delete_then_get:
  assumes "valid s" and "okn n" and "sb_Delete B n s = (Inr u, s1)"
    and "valid t" and "settled t" and "view t = view s1"
  shows "\<exists>e. fst (sb_Get B n t) = Inl e"
proof (cases "fst (sb_Get B n t)")
  case (Inr x)
  then have "sb_Get B n t = (Inr x, snd (sb_Get B n t))" by (simp add: prod_eq_iff)
  with get_ok [OF assms(4,5,2) this] delete_ok [OF assms(1-3)] assms(6) show ?thesis by simp
qed simp

lemma laws:
  assumes "\<And>s. valid s"
  shows "secret_laws B settled okn okv view"
  unfolding secret_laws_def
proof (intro conjI allI impI)
  show "if m = n then x = v else view s m = Some x"
    if "okn n \<and> okv v \<and> sb_Set B n v s = (Inr (), s1)"
      and "okn m \<and> settled t \<and> view t = view s1 \<and> sb_Get B m t = (Inr x, t2)" for s n v s1 m t x t2
    using set_then_get [OF assms _ _ _ assms] that by blast
  show "\<exists>e. fst (sb_Get B n t) = Inl e"
    if "okn n \<and> sb_Delete B n s = (Inr (), s1)" and "settled t \<and> view t = view s1" for s n s1 t
    using delete_then_get [OF assms _ _ assms] that by blast
  show "view s1 m = view s m" if "okn n \<and> sb_Delete B n s = (Inr (), s1)" and "m \<noteq> n" for s n s1 m
    using delete_ok [OF assms] that by fastforce
  show "view s1 n \<in> {view s n, Some v}" if "okn n \<and> okv v \<and> sb_Set B n v s = (Inl e, s1)" for s n v e s1
    using set_err [OF assms] that by fastforce
  show "view s1 m = view s m" if "okn n \<and> okv v \<and> sb_Set B n v s = (Inl e, s1)" and "m \<noteq> n" for s n v e s1 m
    using set_err [OF assms] that by fastforce
  show "view s1 n \<in> {view s n, None}" if "okn n \<and> sb_Delete B n s = (Inl e, s1)" for s n e s1
    using delete_err [OF assms] that by fastforce
  show "view s1 m = view s m" if "okn n \<and> sb_Delete B n s = (Inl e, s1)" and "m \<noteq> n" for s n e s1 m
    using delete_err [OF assms] that by fastforce
  show "view s1 = view s" if "okn n \<and> sb_Get B n s = (r, s1)" for s n r s1
    using get_keeps [OF assms] that by blast
qed

end

text \<open>
  Property C33: the three services keep secrets, for names of letters, digits, hyphens and underscores (for
  AWS and Vault also dots, and slashes between parts) and, for AWS and Vault, values that are valid
  UTF-8. If the service does for such names what it documents, then what was set is what is read, once
  the service has settled; other names keep what they had; what was deleted is not found; a \<open>Set\<close> or
  \<open>Delete\<close> that fails has at most done to its own name what it was to do; and \<open>Get\<close> changes
  nothing. The keys and paths that the code builds from the prefix or the project keep these names apart.
  The prefix (at AWS after a slash), the project, the mount are of such parts too, and the address of
  Vault has no \<open>#\<close> or \<open>?\<close>. For other names that is not so: a name with a \<open>#\<close> or a
  \<open>?\<close> reaches Vault as the path of what precedes it.
\<close>

theorem services_roundtrip:
  "(ssm_ok c pre settled params \<and> pre = ''/'' @ q \<and> plain_path q \<longrightarrow>
      secret_laws (AWSSSM c pre) settled plain_path utf8_valid (\<lambda>s n. params s (paramName pre n)))
   \<and> (gcp_ok g p gsettled latest \<and> plain_name p \<longrightarrow>
      secret_laws (GCPSecret g p) gsettled plain_name (\<lambda>_. True) (\<lambda>s n. latest s (secretName p n)))
   \<and> (vault_ok h j b vsettled kv \<and> plain_base (vb_addr b) \<and> plain_path (vb_mount b)
      \<and> plain_path (vb_prefix b) \<longrightarrow>
      secret_laws (VaultSecret h j b) vsettled plain_path utf8_valid (\<lambda>s n. kv s (vb_prefix b @ ''/'' @ n)))
   \<and> request_path (kvURL b (n @ ''#'' @ x)) = request_path (kvURL b n)
   \<and> request_path (kvURL b (n @ ''?'' @ x)) = request_path (kvURL b n)"
  using aws.laws [of c pre settled params] gcp.laws [of g p gsettled latest]
    vault.laws [of h j b vsettled kv, unfolded kv_path_def] kvURL_not_escaped [of b n x]
  by blast

text \<open>Three small services, each a map.\<close>

type_synonym toy_map = "string \<Rightarrow> string option"

definition toy_ssm :: "toy_map ssm_client" where
  "toy_ssm =
     \<lparr>ssm_GetParameter = (\<lambda>k s. (case s k of None \<Rightarrow> Inl (DriverErr ''ParameterNotFound'') | Some v \<Rightarrow> Inr (Some v), s)),
      ssm_PutParameter = (\<lambda>k v s. (Inr (), s(k \<mapsto> v))),
      ssm_DeleteParameter = (\<lambda>k s. (Inr (), s(k := None)))\<rparr>"

definition toy_gcp :: "toy_map gcp_client" where
  "toy_gcp =
     \<lparr>gc_AccessSecretVersion = (\<lambda>k s.
        (case s (take (length k - 16) k) of None \<Rightarrow> Inl (DriverErr ''NotFound'') | Some v \<Rightarrow> Inr v, s)),
      gc_CreateSecret = (\<lambda>p i s. (Some ''rpc error: code = AlreadyExists'', s)),
      gc_AddSecretVersion = (\<lambda>k v s. (Inr (), s(k \<mapsto> v))),
      gc_DeleteSecret = (\<lambda>k s. (Inr (), s(k := None)))\<rparr>"

definition toy_backend :: VaultSecretBackend where
  "toy_backend = NewVaultSecretBackend ''http://v/'' ''t'' ''kv'' ''ci''"

definition toy_vault :: "toy_map vault_http" where
  "toy_vault =
     \<lparr>vh_valid = (\<lambda>_. None),
      vh_Do = (\<lambda>q s.
        if vq_Method q = ''GET'' then
          (case s (drop 20 (vq_URL q)) of
             None \<Rightarrow> (Inr \<lparr>vr_StatusCode = 404, vr_Body = []\<rparr>, s)
           | Some v \<Rightarrow> (Inr \<lparr>vr_StatusCode = 200, vr_Body = v\<rparr>, s))
        else if vq_Method q = ''POST'' then
          (Inr \<lparr>vr_StatusCode = 200, vr_Body = []\<rparr>, s(drop 20 (vq_URL q) := vq_Body q))
        else (Inr \<lparr>vr_StatusCode = 204, vr_Body = []\<rparr>, s(drop 24 (vq_URL q) := None)))\<rparr>"

definition toy_vault_json :: vault_json where
  "toy_vault_json = \<lparr>vj_Marshal = (\<lambda>v. v), vj_Decode = (\<lambda>body. Inr [''value'' \<mapsto> body])\<rparr>"

lemma toy_backend_sel:
  "vb_addr toy_backend = ''http://v''" "vb_mount toy_backend = ''kv''" "vb_prefix toy_backend = ''ci''"
  by (simp_all add: toy_backend_def NewVaultSecretBackend_def TrimRight_def)

lemma toy_services_ok:
  "ssm_ok toy_ssm ''/brazier'' (\<lambda>_. True) (\<lambda>s. s)" "gcp_ok toy_gcp ''acme'' (\<lambda>_. True) (\<lambda>s. s)"
  "vault_ok toy_vault toy_vault_json toy_backend (\<lambda>_. True) (\<lambda>s. s)" "plain_path (vb_prefix toy_backend)"
  "plain_path (vb_mount toy_backend)" "plain_base (vb_addr toy_backend)" "plain_name ''acme''" "plain_path ''brazier''"
  subgoal by (auto simp: ssm_ok_def toy_ssm_def split: option.splits)
  subgoal by (auto simp: gcp_ok_def toy_gcp_def split: option.splits)
  subgoal
    unfolding vault_ok_def toy_backend_sel
    by (auto simp: toy_vault_def toy_vault_json_def split: option.splits)
  subgoal unfolding toy_backend_sel by code_simp
  subgoal unfolding toy_backend_sel by code_simp
  subgoal unfolding toy_backend_sel by code_simp
  subgoal by code_simp
  subgoal by code_simp
  done

theorem services_roundtrip_witness:
  "secret_laws (AWSSSM toy_ssm ''/brazier'') (\<lambda>_. True) plain_path utf8_valid
     (\<lambda>s n. s (paramName ''/brazier'' n))
   \<and> secret_laws (GCPSecret toy_gcp ''acme'') (\<lambda>_. True) plain_name (\<lambda>_. True) (\<lambda>s n. s (secretName ''acme'' n))
   \<and> secret_laws (VaultSecret toy_vault toy_vault_json toy_backend) (\<lambda>_. True) plain_path utf8_valid
       (\<lambda>s n. s (vb_prefix toy_backend @ ''/'' @ n))
   \<and> fst (GCP_Get toy_gcp ''acme'' ''KEY'' (snd (GCP_Set toy_gcp ''acme'' ''KEY'' ''x'' Map.empty))) = Inr ''x''"
proof -
  have g: "fst (GCP_Get toy_gcp ''acme'' ''KEY'' (snd (GCP_Set toy_gcp ''acme'' ''KEY'' ''x'' Map.empty))) = Inr ''x''"
    by (simp add: GCP_Get_def GCP_Set_def toy_gcp_def Let_def secretName_def Contains_def HasPrefix_def)
  show ?thesis
    using services_roundtrip [where c = toy_ssm and g = toy_gcp and params = "\<lambda>s. s" and latest = "\<lambda>s. s"
        and h = toy_vault and j = toy_vault_json and b = toy_backend and kv = "\<lambda>s. s"
        and pre = "''/brazier''" and p = "''acme''" and settled = "\<lambda>_. True" and gsettled = "\<lambda>_. True"
        and vsettled = "\<lambda>_. True" and q = "''brazier''"] toy_services_ok g
    by simp
qed

end
