(* ===== verification/Artifacts.thy ===== *)
theory Artifacts
  imports Go_Prelude
begin

text \<open>
  \<open>internal/artifacts/store.go\<close>: the interface \<open>ArtifactStore\<close>, and the contract of its implementations. An
  \<open>io.Reader\<close> is the bytes it gives before it ends, and the error it ends with, if it does. What
  \<open>Download\<close> returns is to be read, which gives the bytes or an error.
\<close>

record reader =
  rd_bytes :: string
  rd_err :: "go_error option"

record 's ArtifactStore =
  as_Upload :: "string \<Rightarrow> string \<Rightarrow> reader \<Rightarrow> 's \<Rightarrow> unit result \<times> 's"
  as_Download :: "string \<Rightarrow> string \<Rightarrow> 's \<Rightarrow> string result result \<times> 's"
  as_List :: "string \<Rightarrow> 's \<Rightarrow> string list result \<times> 's"

text \<open>
  A store is a map from runs and paths to bytes. \<open>norm\<close> gives paths that name the same artifact the
  same form; runs and paths that satisfy \<open>okr\<close> and \<open>okp\<close> stay apart. An upload that fails may have
  written part of its own artifact, and no other.
\<close>

locale artifact_contract =
  fixes A :: "'s ArtifactStore"
    and valid :: "'s \<Rightarrow> bool"
    and view :: "'s \<Rightarrow> string \<Rightarrow> string \<Rightarrow> string option"
    and norm :: "string \<Rightarrow> string"
    and okr :: "string \<Rightarrow> bool"
    and okp :: "string \<Rightarrow> bool"
  assumes upload_ok:
      "valid s \<Longrightarrow> okr run \<Longrightarrow> okp p \<Longrightarrow> as_Upload A run p r s = (Inr u, s') \<Longrightarrow>
         valid s' \<and> rd_err r = None \<and> view s' run p = Some (rd_bytes r)"
    and upload_other:
      "valid s \<Longrightarrow> okr run \<Longrightarrow> okp p \<Longrightarrow> as_Upload A run p r s = (q, s') \<Longrightarrow>
         valid s' \<and> (\<forall>run' p'. okr run' \<and> okp p' \<and> (run' \<noteq> run \<or> norm p' \<noteq> norm p) \<longrightarrow>
           view s' run' p' = view s run' p')"
    and same_artifact: "norm p = norm p' \<Longrightarrow> view s run p = view s run p'"
    and download:
      "valid s \<Longrightarrow> okr run \<Longrightarrow> okp p \<Longrightarrow> as_Download A run p s = (d, s') \<Longrightarrow>
         valid s' \<and> view s' = view s \<and> (\<forall>b. d = Inr (Inr b) \<longrightarrow> view s run p = Some b)"
begin

lemma upload_download:
  assumes "valid s" and "okr run" and "okp p" and "as_Upload A run p r s = (Inr u, s1)"
    and "okr run'" and "okp p'" and "as_Download A run' p' s1 = (Inr (Inr b), s2)"
  shows "if run' = run \<and> norm p' = norm p then b = rd_bytes r else view s run' p' = Some b"
proof -
  have v: "valid s1" "view s1 run p = Some (rd_bytes r)" using upload_ok [OF assms(1-4)] by simp_all
  have b: "view s1 run' p' = Some b" using download [OF v(1) assms(5,6,7)] by simp
  show ?thesis
  proof (cases "run' = run \<and> norm p' = norm p")
    case True
    then show ?thesis using b v(2) same_artifact [of p' p s1 run] by simp
  next
    case False
    have "view s1 run' p' = view s run' p'"
      using upload_other [OF assms(1-4)] assms(5,6) False by metis
    then have "view s run' p' = Some b" using b by simp
    then show ?thesis by (simp only: False if_False)
  qed
qed

end

locale artifact_list_contract = artifact_contract +
  assumes list_view:
      "valid s \<Longrightarrow> okr run \<Longrightarrow> as_List A run s = (q, s') \<Longrightarrow>
         valid s' \<and> view s' = view s \<and>
         (\<forall>ps p. q = Inr ps \<and> okp p \<longrightarrow> (norm p \<in> set ps \<longleftrightarrow> view s run p \<noteq> None))"
begin

lemma upload_list:
  assumes "valid s" and "okr run" and "okp p" and "as_Upload A run p r s = (Inr u, s1)"
    and "okr run'" and "as_List A run' s1 = (Inr ps, s2)" and "okp p'"
  shows "norm p' \<in> set ps \<longleftrightarrow> (run' = run \<and> norm p' = norm p) \<or> view s run' p' \<noteq> None"
proof -
  have v: "valid s1" "view s1 run p = Some (rd_bytes r)" using upload_ok [OF assms(1-4)] by simp_all
  have l: "norm p' \<in> set ps \<longleftrightarrow> view s1 run' p' \<noteq> None"
    using list_view [OF v(1) assms(5,6)] assms(7) by simp
  show ?thesis
  proof (cases "run' = run \<and> norm p' = norm p")
    case True
    then show ?thesis using l v(2) same_artifact [of p' p s1 run] by simp
  next
    case False
    have "view s1 run' p' = view s run' p'"
      using upload_other [OF assms(1-4)] assms(5,7) False by metis
    then show ?thesis using l False by auto
  qed
qed

end

section \<open>The laws for a user of a store\<close>

definition artifact_laws ::
  "'s ArtifactStore \<Rightarrow> ('s \<Rightarrow> bool) \<Rightarrow> ('s \<Rightarrow> string \<Rightarrow> string \<Rightarrow> string option) \<Rightarrow> (string \<Rightarrow> string) \<Rightarrow>
   (string \<Rightarrow> bool) \<Rightarrow> (string \<Rightarrow> bool) \<Rightarrow> bool" where
  "artifact_laws A valid view norm okr okp \<longleftrightarrow>
     (\<forall>s run p r s1. valid s \<and> okr run \<and> okp p \<and> as_Upload A run p r s = (Inr (), s1) \<longrightarrow>
        (\<forall>run' p' b s2. okr run' \<and> okp p' \<and> as_Download A run' p' s1 = (Inr (Inr b), s2) \<longrightarrow>
           (if run' = run \<and> norm p' = norm p then b = rd_bytes r else view s run' p' = Some b)))"

definition artifact_list_laws ::
  "'s ArtifactStore \<Rightarrow> ('s \<Rightarrow> bool) \<Rightarrow> ('s \<Rightarrow> string \<Rightarrow> string \<Rightarrow> string option) \<Rightarrow> (string \<Rightarrow> string) \<Rightarrow>
   (string \<Rightarrow> bool) \<Rightarrow> (string \<Rightarrow> bool) \<Rightarrow> bool" where
  "artifact_list_laws A valid view norm okr okp \<longleftrightarrow>
     artifact_laws A valid view norm okr okp \<and>
     (\<forall>s run p r s1. valid s \<and> okr run \<and> okp p \<and> as_Upload A run p r s = (Inr (), s1) \<longrightarrow>
        (\<forall>run' ps s2 p'. okr run' \<and> okp p' \<and> as_List A run' s1 = (Inr ps, s2) \<longrightarrow>
           (norm p' \<in> set ps \<longleftrightarrow> (run' = run \<and> norm p' = norm p) \<or> view s run' p' \<noteq> None)))"

context artifact_contract
begin

lemma laws: "artifact_laws A valid view norm okr okp"
  unfolding artifact_laws_def using upload_download by blast

end

context artifact_list_contract
begin

lemma list_laws: "artifact_list_laws A valid view norm okr okp"
  unfolding artifact_list_laws_def using laws upload_list by blast

end

end
