(* ===== verification/Artifact_Local.thy ===== *)
theory Artifact_Local
  imports Artifacts Filepath "HOL-Library.AList" "HOL-Library.Char_ord" "HOL-Library.List_Lexorder"
    "HOL-Library.Sublist"
begin

text \<open>
  \<open>internal/artifacts/local.go\<close> on a file system without links: a tree of directories and files, as the
  list of its entries. Which calls fail, and after how many bytes a copy does, is a parameter.
\<close>

section \<open>The file system\<close>

datatype fs_entry = FS_Dir | FS_File string

text \<open>An entry is found under its absolute path, as a list of names.\<close>

type_synonym fs_entries = "(string list \<times> fs_entry) list"

record fs =
  fs_entries :: fs_entries
  fs_calls :: nat

record fs_env =
  fe_cwd :: "string list"
  fe_fault :: "nat \<Rightarrow> string option"
  fe_short :: "nat \<Rightarrow> nat"

definition fs_call :: "fs_env \<Rightarrow> (fs_entries \<Rightarrow> 'a result \<times> fs_entries) \<Rightarrow> fs \<Rightarrow> 'a result \<times> fs" where
  "fs_call env body f =
     (let f1 = f\<lparr>fs_calls := Suc (fs_calls f)\<rparr> in
      case fe_fault env (fs_calls f) of
        Some m \<Rightarrow> (Inl (DriverErr m), f1)
      | None \<Rightarrow> (case body (fs_entries f) of (r, es) \<Rightarrow> (r, f1\<lparr>fs_entries := es\<rparr>)))"

text \<open>\<open>os.MkdirAll\<close>: the missing directories on the way, unless a file is on it.\<close>

fun mkdirs :: "string list \<Rightarrow> string list \<Rightarrow> fs_entries \<Rightarrow> fs_entries option" where
  "mkdirs d [] es = Some es"
| "mkdirs d (x # xs) es =
     (case map_of es (d @ [x]) of
        None \<Rightarrow> mkdirs (d @ [x]) xs (AList.update (d @ [x]) FS_Dir es)
      | Some FS_Dir \<Rightarrow> mkdirs (d @ [x]) xs es
      | Some (FS_File _) \<Rightarrow> None)"

definition MkdirAll :: "fs_env \<Rightarrow> string \<Rightarrow> fs \<Rightarrow> unit result \<times> fs" where
  "MkdirAll env p =
     fs_call env (\<lambda>es.
       case mkdirs [] (resolve (fe_cwd env) p) es of
         None \<Rightarrow> (Inl (DriverErr ''not a directory''), es)
       | Some es' \<Rightarrow> (Inr (), es'))"

text \<open>\<open>os.Create\<close> makes a file empty or adds it to its directory.\<close>

definition Create :: "fs_env \<Rightarrow> string \<Rightarrow> fs \<Rightarrow> unit result \<times> fs" where
  "Create env p =
     fs_call env (\<lambda>es.
       let k = resolve (fe_cwd env) p in
       if k = [] \<or> map_of es k = Some FS_Dir then (Inl (DriverErr ''is a directory''), es)
       else if map_of es (butlast k) \<noteq> Some FS_Dir then (Inl (DriverErr ''no such file or directory''), es)
       else (Inr (), AList.update k (FS_File []) es))"

text \<open>\<open>io.Copy\<close> into the file just created: a write may fail after some bytes, or the reader.\<close>

definition Copy :: "fs_env \<Rightarrow> string \<Rightarrow> reader \<Rightarrow> fs \<Rightarrow> unit result \<times> fs" where
  "Copy env p r f =
     (let k = resolve (fe_cwd env) p; n = fs_calls f; f1 = f\<lparr>fs_calls := Suc n\<rparr> in
      case fe_fault env n of
        Some m \<Rightarrow>
          (Inl (DriverErr m),
           f1\<lparr>fs_entries := AList.update k (FS_File (take (fe_short env n) (rd_bytes r))) (fs_entries f)\<rparr>)
      | None \<Rightarrow>
          ((case rd_err r of Some e \<Rightarrow> Inl e | None \<Rightarrow> Inr ()),
           f1\<lparr>fs_entries := AList.update k (FS_File (rd_bytes r)) (fs_entries f)\<rparr>))"

section \<open>LocalStore\<close>

definition artifactPath :: "string \<Rightarrow> string \<Rightarrow> string \<Rightarrow> string" where
  "artifactPath baseDir run path = Join [baseDir, run, Clean path]"

definition LocalStore_Upload ::
  "fs_env \<Rightarrow> string \<Rightarrow> string \<Rightarrow> string \<Rightarrow> reader \<Rightarrow> fs \<Rightarrow> unit result \<times> fs" where
  "LocalStore_Upload env baseDir run path r f =
     (let dest = artifactPath baseDir run path in
      case MkdirAll env (Dir dest) f of
        (Inl e, f1) \<Rightarrow> (Inl (Wrapf ''mkdir'' [] e), f1)
      | (Inr _, f1) \<Rightarrow>
          (case Create env dest f1 of
             (Inl e, f2) \<Rightarrow> (Inl (Wrapf ''create artifact'' [] e), f2)
           | (Inr _, f2) \<Rightarrow>
               (case Copy env dest r f2 of
                  (Inl e, f3) \<Rightarrow> (Inl (Wrapf ''write artifact'' [] e), f3)
                | (Inr _, f3) \<Rightarrow> (Inr (), f3))))"

text \<open>A directory can be opened, but not read as a file.\<close>

definition LocalStore_Download ::
  "fs_env \<Rightarrow> string \<Rightarrow> string \<Rightarrow> string \<Rightarrow> fs \<Rightarrow> string result result \<times> fs" where
  "LocalStore_Download env baseDir run path f =
     (case fs_call env (\<lambda>es.
             (case map_of es (resolve (fe_cwd env) (artifactPath baseDir run path)) of
                None \<Rightarrow> Inl (DriverErr ''no such file or directory'')
              | Some FS_Dir \<Rightarrow> Inr (Inl (DriverErr ''is a directory''))
              | Some (FS_File b) \<Rightarrow> Inr (Inr b), es)) f of
        (Inl e, f1) \<Rightarrow> (Inl (Wrapf ''open artifact'' [] e), f1)
      | (Inr rc, f1) \<Rightarrow> (Inr rc, f1))"

text \<open>
  \<open>filepath.Walk\<close> visits the files below the root in lexical order, with their paths relative to it; a
  root that is missing is the error that \<open>List\<close> answers with no paths. A root below a regular file is
  another error (\<open>ENOTDIR\<close>), which \<open>os.IsNotExist\<close> does not accept and \<open>List\<close> returns.
\<close>

definition is_file :: "fs_entry \<Rightarrow> bool" where
  "is_file e \<longleftrightarrow> (case e of FS_File _ \<Rightarrow> True | FS_Dir \<Rightarrow> False)"

definition walk_files :: "fs_entries \<Rightarrow> string list \<Rightarrow> string list list" where
  "walk_files es d =
     (let below = filter (\<lambda>(k, e). is_file e \<and> take (length d) k = d) es in
      map (drop (length d)) (sort (map fst below)))"

definition file_above :: "fs_entries \<Rightarrow> string list \<Rightarrow> bool" where
  "file_above es d \<longleftrightarrow>
     list_ex (\<lambda>n. case map_of es (take n d) of Some (FS_File _) \<Rightarrow> True | _ \<Rightarrow> False) [0..<length d]"

definition LocalStore_List :: "fs_env \<Rightarrow> string \<Rightarrow> string \<Rightarrow> fs \<Rightarrow> string list result \<times> fs" where
  "LocalStore_List env baseDir run =
     fs_call env (\<lambda>es.
       let root = resolve (fe_cwd env) (Join [baseDir, run]) in
       (case map_of es root of
          None \<Rightarrow> if file_above es root then Inl (DriverErr ''not a directory'') else Inr []
        | Some (FS_File _) \<Rightarrow> Inr [''.'']
        | Some FS_Dir \<Rightarrow> Inr (map join_slash (walk_files es root)), es))"

definition LocalStore :: "fs_env \<Rightarrow> string \<Rightarrow> fs ArtifactStore" where
  "LocalStore env baseDir =
     \<lparr>as_Upload = LocalStore_Upload env baseDir, as_Download = LocalStore_Download env baseDir,
      as_List = LocalStore_List env baseDir\<rparr>"

lemma LocalStore_sel [simp]:
  "as_Upload (LocalStore env b) = LocalStore_Upload env b"
  "as_Download (LocalStore env b) = LocalStore_Download env b"
  "as_List (LocalStore env b) = LocalStore_List env b"
  by (simp_all add: LocalStore_def)

section \<open>Where an artifact is stored\<close>

text \<open>
  A run ID that is one name, and a path that does not climb out of the directory of the run (a path
  with a leading slash never does).
\<close>

definition run_name :: "string \<Rightarrow> bool" where
  "run_name run \<longleftrightarrow> plain run \<and> run \<noteq> ''..''"

definition stays_inside :: "string \<Rightarrow> bool" where
  "stays_inside p \<longleftrightarrow> ''..'' \<notin> set (path_comps p)"

lemma Join_base:
  assumes "run_name run"
  shows "elements (Join [base, run, Clean p]) = fold (push (rooted base)) (run # path_comps p) (path_comps base)"
    and "rooted (Join [base, run, Clean p]) = rooted base"
proof -
  have run: "run \<noteq> []" "elements run = [run]" "\<not> rooted run" "run \<noteq> ''..''"
    using assms by (auto simp: run_name_def plain_def elements_single not_rooted_plain)
  have j: "path_comps (join_slash [base, run, Clean p]) =
      fold (push (rooted base)) (run # path_comps p) (path_comps base)"
      "rooted (join_slash [base, run, Clean p]) = rooted base" if "base \<noteq> []"
    using that run by (simp_all add: path_comps_def [of "base @ _"] rooted_append elements_append
        elements_Clean path_comps_def [of base])
  have k: "path_comps (join_slash [run, Clean p]) = fold (push False) (run # path_comps p) []"
      "\<not> rooted (join_slash [run, Clean p])"
    using run by (simp_all add: path_comps_def [of "run @ _"] rooted_append elements_append elements_Clean)
  have e: "path_comps [] = []" "elements [] = []" by (simp_all add: path_comps_def elements_def)
  show "elements (Join [base, run, Clean p]) = fold (push (rooted base)) (run # path_comps p) (path_comps base)"
    "rooted (Join [base, run, Clean p]) = rooted base"
    using j k run e by (auto simp: Join_def elements_Clean rooted_Clean simp del: join_slash.simps)
qed

lemma artifact_elements:
  "run_name run \<Longrightarrow> stays_inside p \<Longrightarrow>
     elements (artifactPath base run p) = path_comps base @ run # path_comps p"
  by (simp add: artifactPath_def Join_base(1) stays_inside_def run_name_def push_def fold_push_names)

text \<open>The directory of a run, and of an artifact in it.\<close>

definition base_root :: "fs_env \<Rightarrow> string \<Rightarrow> string list" where
  "base_root env base = fold (push True) (path_comps base) (if rooted base then [] else fe_cwd env)"

lemma artifact_rooted: "run_name run \<Longrightarrow> rooted (artifactPath base run p) = rooted base"
  by (simp add: artifactPath_def Join_base(2))

lemma resolve_artifact:
  "run_name run \<Longrightarrow> stays_inside p \<Longrightarrow>
     resolve (fe_cwd env) (artifactPath base run p) = base_root env base @ run # path_comps p"
  by (simp add: resolve_def artifact_elements base_root_def artifact_rooted
      stays_inside_def run_name_def push_def fold_push_names)

lemma resolve_run:
  "run_name run \<Longrightarrow> resolve (fe_cwd env) (Join [base, run]) = base_root env base @ [run]"
  by (simp add: resolve_def Join_name base_root_def push_def run_name_def)

lemma artifact_Dir:
  assumes "run_name run" and "stays_inside p"
  shows "resolve cwd (Dir (artifactPath base run p)) = butlast (resolve cwd (artifactPath base run p))"
    and "resolve cwd (artifactPath base run p) \<noteq> []"
proof -
  obtain x where x: "artifactPath base run p = Clean x"
  proof (cases "base = []")
    case True
    then show ?thesis
      using assms(1) that [of "join_slash [run, Clean p]"]
      by (simp add: artifactPath_def Join_def run_name_def plain_def)
  next
    case False
    then show ?thesis
      using that [of "join_slash [base, run, Clean p]"] by (simp add: artifactPath_def Join_def)
  qed
  define ys e where "ys = butlast (path_comps base @ run # path_comps p)"
    and "e = last (path_comps base @ run # path_comps p)"
  have "path_comps x = elements (artifactPath base run p)" by (simp add: x elements_Clean)
  then have c: "path_comps x = ys @ [e]"
    using artifact_elements [OF assms] append_butlast_last_id [of "path_comps base @ run # path_comps p"]
    unfolding ys_def e_def by (metis append_is_Nil_conv list.distinct(1))
  have "e \<in> set (run # path_comps p)" by (simp add: e_def)
  then have e: "e \<noteq> ''..''" using assms by (auto simp: run_name_def stays_inside_def)
  have "resolve cwd (artifactPath base run p) = resolve cwd (Dir (artifactPath base run p)) @ [e]"
    by (simp add: resolve_def x elements_Clean rooted_Clean c Dir_Clean [OF c e] push_def e)
  then show "resolve cwd (Dir (artifactPath base run p)) = butlast (resolve cwd (artifactPath base run p))"
    "resolve cwd (artifactPath base run p) \<noteq> []" by simp_all
qed

end
