(* ===== verification/Artifact_Services.thy ===== *)
theory Artifact_Services
  imports Artifacts Plain_Names
begin

text \<open>
  The stores on services: \<open>internal/artifacts/s3.go\<close>, \<open>gcs.go\<close> and \<open>artifactory.go\<close>. The client libraries are
  parameters, as functions on a state of the service. What they document is that a bucket maps keys
  to bytes; it is used here for keys that are plain paths, as others may be changed on the way (a URL has
  a meaning for some of their bytes).
\<close>

section \<open>Keys\<close>

text \<open>\<open>key\<close> in \<open>s3.go\<close>; \<open>object\<close> in \<open>gcs.go\<close>, below, is the same.\<close>

definition object_key :: "string \<Rightarrow> string \<Rightarrow> string \<Rightarrow> string" where
  "object_key pre run path =
     (if pre \<noteq> [] then pre @ ''/'' @ run @ ''/'' @ path else run @ ''/'' @ path)"

definition no_slash :: "string \<Rightarrow> bool" where
  "no_slash s \<longleftrightarrow> CHR ''/'' \<notin> set s"

lemma slash_split:
  "no_slash a \<Longrightarrow> no_slash b \<Longrightarrow> a @ CHR ''/'' # x = b @ CHR ''/'' # y \<longleftrightarrow> a = b \<and> x = y"
  unfolding no_slash_def by (induction a arbitrary: b) (case_tac b; auto)+

lemma inj_object_key:
  "no_slash run \<Longrightarrow> no_slash run' \<Longrightarrow>
     object_key pre run p = object_key pre run' p' \<longleftrightarrow> run = run' \<and> p = p'"
  by (simp add: object_key_def slash_split)

lemma object_key_prefix: "object_key pre run p = object_key pre run [] @ p"
  by (simp add: object_key_def)

definition store_prefix :: "string \<Rightarrow> bool" where
  "store_prefix pre \<longleftrightarrow> pre = [] \<or> plain_path pre"

lemma plain_name_slash: "plain_name s \<Longrightarrow> no_slash s"
  by (simp add: no_slash_def plain_segment_slash plain_name_segment)

lemma object_key_plain:
  "store_prefix pre \<Longrightarrow> plain_name run \<Longrightarrow> plain_path p \<Longrightarrow> plain_path (object_key pre run p)"
  by (auto simp: object_key_def store_prefix_def plain_path_append plain_name_path)

lemma object_key_folder:
  assumes "store_prefix pre" and "plain_name run"
  obtains d where "plain_path d" and "object_key pre run [] = d @ ''/''"
proof (cases "pre = []")
  case True
  then show ?thesis using that [of run] assms(2) by (simp add: object_key_def plain_name_path)
next
  case False
  then show ?thesis
    using that [of "pre @ ''/'' @ run"] assms
    by (simp add: object_key_def store_prefix_def plain_path_append plain_name_path)
qed

section \<open>S3\<close>

text \<open>
  The calls on a bucket. A body that breaks off makes \<open>PutObject\<close> fail. The pages of a listing are
  those that the paginator gives, up to an error.
\<close>

record 's s3_client =
  s3_PutObject :: "string \<Rightarrow> string \<Rightarrow> reader \<Rightarrow> 's \<Rightarrow> unit result \<times> 's"
  s3_GetObject :: "string \<Rightarrow> string \<Rightarrow> 's \<Rightarrow> string result result \<times> 's"
  s3_Pages :: "string \<Rightarrow> string \<Rightarrow> 's \<Rightarrow> string list result list \<times> 's"

record S3Store =
  s3_bucket :: string
  s3_prefix :: string

text \<open>
  \<open>NewS3Store\<close>: an endpoint other than the standard one goes into the configuration, and makes the client
  use the style of URLs that other services than AWS understand.
\<close>

definition NewS3Store ::
  "(string option \<Rightarrow> 'cfg result) \<Rightarrow> ('cfg \<Rightarrow> bool \<Rightarrow> 's s3_client) \<Rightarrow> string \<Rightarrow> string \<Rightarrow> string \<Rightarrow>
   ('s s3_client \<times> S3Store) result" where
  "NewS3Store LoadDefaultConfig NewFromConfig bucket pre endpoint =
     (case LoadDefaultConfig (if endpoint \<noteq> [] then Some endpoint else None) of
        Inl e \<Rightarrow> Inl (Wrapf ''load aws config'' [] e)
      | Inr cfg \<Rightarrow> Inr (NewFromConfig cfg (endpoint \<noteq> []), \<lparr>s3_bucket = bucket, s3_prefix = pre\<rparr>))"

definition S3_Upload :: "'s s3_client \<Rightarrow> S3Store \<Rightarrow> string \<Rightarrow> string \<Rightarrow> reader \<Rightarrow> 's \<Rightarrow> unit result \<times> 's" where
  "S3_Upload c b run path r s =
     (case s3_PutObject c (s3_bucket b) (object_key (s3_prefix b) run path) r s of
        (Inl e, s1) \<Rightarrow> (Inl (Wrapf ''s3 upload %s/%s'' [run, path] e), s1)
      | (Inr _, s1) \<Rightarrow> (Inr (), s1))"

definition S3_Download :: "'s s3_client \<Rightarrow> S3Store \<Rightarrow> string \<Rightarrow> string \<Rightarrow> 's \<Rightarrow> string result result \<times> 's" where
  "S3_Download c b run path s =
     (case s3_GetObject c (s3_bucket b) (object_key (s3_prefix b) run path) s of
        (Inl e, s1) \<Rightarrow> (Inl (Wrapf ''s3 download %s/%s'' [run, path] e), s1)
      | (Inr body, s1) \<Rightarrow> (Inr body, s1))"

text \<open>The loop over the pages, with the length of the prefix that is cut off each key.\<close>

fun list_pages :: "string \<Rightarrow> string list \<Rightarrow> nat \<Rightarrow> string list result list \<Rightarrow> string list \<Rightarrow> string list result" where
  "list_pages f args n [] paths = Inr paths"
| "list_pages f args n (Inl e # pages) paths = Inl (Wrapf f args e)"
| "list_pages f args n (Inr keys # pages) paths = list_pages f args n pages (paths @ map (drop n) keys)"

definition S3_List :: "'s s3_client \<Rightarrow> S3Store \<Rightarrow> string \<Rightarrow> 's \<Rightarrow> string list result \<times> 's" where
  "S3_List c b run s =
     (let pre = object_key (s3_prefix b) run [] in
      case s3_Pages c (s3_bucket b) pre s of
        (pages, s1) \<Rightarrow> (list_pages ''s3 list %s'' [run] (length pre) pages [], s1))"

definition S3_store :: "'s s3_client \<Rightarrow> S3Store \<Rightarrow> 's ArtifactStore" where
  "S3_store c b = \<lparr>as_Upload = S3_Upload c b, as_Download = S3_Download c b, as_List = S3_List c b\<rparr>"

lemma S3_store_sel [simp]:
  "as_Upload (S3_store c b) = S3_Upload c b" "as_Download (S3_store c b) = S3_Download c b"
  "as_List (S3_store c b) = S3_List c b"
  by (simp_all add: S3_store_def)

text \<open>A complete listing: keys with the prefix, and among the plain ones those that are there.\<close>

definition listed :: "string \<Rightarrow> (string \<Rightarrow> string option) \<Rightarrow> string list \<Rightarrow> bool" where
  "listed pre m ks \<longleftrightarrow>
     (\<forall>k \<in> set ks. take (length pre) k = pre)
   \<and> (\<forall>k. plain_path k \<and> take (length pre) k = pre \<longrightarrow> (k \<in> set ks \<longleftrightarrow> m k \<noteq> None))"

text \<open>
  What S3 documents about the bucket, for keys that are plain paths: an upload that fails may have been
  carried out, when its body could be read to the end, and a listing below a path that ends without an error
  is complete. No one else changes these objects, and no call is still at work after it returned.
\<close>

definition s3_ok :: "'s s3_client \<Rightarrow> string \<Rightarrow> ('s \<Rightarrow> string \<Rightarrow> string option) \<Rightarrow> bool" where
  "s3_ok c bucket objs \<longleftrightarrow>
     (\<forall>k r s q s'. plain_path k \<and> s3_PutObject c bucket k r s = (q, s') \<longrightarrow>
        rd_err r = None \<and> objs s' = (objs s)(k \<mapsto> rd_bytes r) \<or> (\<exists>e. q = Inl e) \<and> objs s' = objs s)
   \<and> (\<forall>k s q s'. plain_path k \<and> s3_GetObject c bucket k s = (q, s') \<longrightarrow>
        objs s' = objs s \<and> (\<forall>b. q = Inr (Inr b) \<longrightarrow> objs s k = Some b))
   \<and> (\<forall>d s pages s'. plain_path d \<and> s3_Pages c bucket (d @ ''/'') s = (pages, s') \<longrightarrow>
        objs s' = objs s \<and> (\<forall>keys. pages = map Inr keys \<longrightarrow> listed (d @ ''/'') (objs s) (concat keys)))"

lemmas s3_put = s3_ok_def [THEN iffD1, THEN conjunct1, rule_format]
lemmas s3_get = s3_ok_def [THEN iffD1, THEN conjunct2, THEN conjunct1, rule_format]
lemmas s3_list = s3_ok_def [THEN iffD1, THEN conjunct2, THEN conjunct2, rule_format]

lemma list_pages_Inr:
  "list_pages f args n pages paths = Inr ps \<Longrightarrow>
     \<exists>keys. pages = map Inr keys \<and> ps = paths @ map (drop n) (concat keys)"
proof (induction f args n pages paths rule: list_pages.induct)
  case (1 f args n paths)
  then show ?case by (intro exI [of _ "[]"]) simp
next
  case (3 f args n keys pages paths)
  then obtain kss where "pages = map Inr kss" "ps = (paths @ map (drop n) keys) @ map (drop n) (concat kss)"
    by auto
  then show ?case by (intro exI [of _ "keys # kss"]) simp
qed simp

lemma drop_keys:
  assumes "listed pre m ks" and "plain_path (pre @ p)"
  shows "p \<in> set (map (drop (length pre)) ks) \<longleftrightarrow> m (pre @ p) \<noteq> None"
proof -
  have "m (pre @ p) \<noteq> None \<longleftrightarrow> pre @ p \<in> set ks" using assms by (simp add: listed_def)
  also have "\<dots> \<longleftrightarrow> p \<in> set (map (drop (length pre)) ks)"
  proof
    assume "p \<in> set (map (drop (length pre)) ks)"
    then obtain k where k: "k \<in> set ks" "p = drop (length pre) k" by auto
    then have "k = pre @ p" using assms(1) unfolding listed_def by (metis append_take_drop_id)
    with k(1) show "pre @ p \<in> set ks" by simp
  qed force
  finally show ?thesis by simp
qed

lemma S3_Upload_effect:
  assumes "s3_ok c (s3_bucket b) objs" and "plain_path (object_key (s3_prefix b) run p)"
    and "S3_Upload c b run p r s = (q, s')"
  shows "rd_err r = None \<and> objs s' = (objs s)(object_key (s3_prefix b) run p \<mapsto> rd_bytes r)
    \<or> (\<exists>e. q = Inl e) \<and> objs s' = objs s"
proof -
  obtain x t where x: "s3_PutObject c (s3_bucket b) (object_key (s3_prefix b) run p) r s = (x, t)"
    by (metis surj_pair)
  show ?thesis
    using s3_put [OF assms(1) conjI [OF assms(2) x]] assms(3) by (cases x) (auto simp: S3_Upload_def x)
qed

lemma S3_Download_effect:
  assumes "s3_ok c (s3_bucket b) objs" and "plain_path (object_key (s3_prefix b) run p)"
    and "S3_Download c b run p s = (q, s')"
  shows "objs s' = objs s \<and> (\<forall>x. q = Inr (Inr x) \<longrightarrow> objs s (object_key (s3_prefix b) run p) = Some x)"
proof -
  obtain x t where x: "s3_GetObject c (s3_bucket b) (object_key (s3_prefix b) run p) s = (x, t)"
    by (metis surj_pair)
  show ?thesis
    using s3_get [OF assms(1) conjI [OF assms(2) x]] assms(3) by (cases x) (auto simp: S3_Download_def x)
qed

lemma S3_List_effect:
  assumes "s3_ok c (s3_bucket b) objs" and "store_prefix (s3_prefix b)" and "plain_name run"
    and "S3_List c b run s = (q, s')"
  shows "objs s' = objs s \<and> (\<forall>ps p. q = Inr ps \<and> plain_path p \<longrightarrow>
    (p \<in> set ps \<longleftrightarrow> objs s (object_key (s3_prefix b) run p) \<noteq> None))"
proof -
  define pre where "pre = object_key (s3_prefix b) run []"
  obtain d where d: "plain_path d" "pre = d @ ''/''"
    using object_key_folder [OF assms(2,3)] unfolding pre_def by blast
  obtain pages t where x: "s3_Pages c (s3_bucket b) pre s = (pages, t)" by (metis surj_pair)
  have l: "objs t = objs s" "\<And>keys. pages = map Inr keys \<Longrightarrow> listed pre (objs s) (concat keys)"
    using s3_list [OF assms(1) conjI [OF d(1) x [unfolded d(2)]]] unfolding d(2) by blast+
  have q: "q = list_pages ''s3 list %s'' [run] (length pre) pages []" "s' = t"
    using assms(4) by (simp_all add: S3_List_def Let_def pre_def [symmetric] x)
  show ?thesis
  proof (intro conjI allI impI)
    show "objs s' = objs s" using l(1) q(2) by simp
    fix ps p
    assume a: "q = Inr ps \<and> plain_path p"
    then obtain keys where k: "pages = map Inr keys" "ps = map (drop (length pre)) (concat keys)"
      using list_pages_Inr [OF q(1) [symmetric, unfolded conjunct1 [OF a]]] by auto
    have "plain_path (pre @ p)"
      using object_key_plain [OF assms(2,3), of p] a object_key_prefix [of "s3_prefix b" run p]
      by (simp add: pre_def)
    then show "p \<in> set ps \<longleftrightarrow> objs s (object_key (s3_prefix b) run p) \<noteq> None"
      using drop_keys [OF l(2) [OF k(1)], of p]
      by (simp only: k(2) object_key_prefix [of _ _ p] pre_def)
  qed
qed

interpretation s3: artifact_list_contract "S3_store c b"
  "\<lambda>_. s3_ok c (s3_bucket b) objs \<and> store_prefix (s3_prefix b)"
  "\<lambda>s run p. objs s (object_key (s3_prefix b) run p)" "\<lambda>p. p" plain_name plain_path
  for c b objs
  apply unfold_locales
  subgoal for s run p r u s'
    using S3_Upload_effect [of c b objs run p r s "Inr u" s'] object_key_plain by simp
  subgoal for s run p r q s'
    using S3_Upload_effect [of c b objs run p r s q s'] object_key_plain
    by (auto simp: inj_object_key plain_name_slash)
  subgoal by simp
  subgoal for s run p d s'
    using S3_Download_effect [of c b objs run p s d s'] object_key_plain by (auto simp: fun_eq_iff)
  subgoal for s run q s' using S3_List_effect [of c b objs run s q s'] by auto
  done

section \<open>Google Cloud Storage\<close>

text \<open>
  A writer takes bytes, and the object is there when it is closed. \<open>gs_Write\<close> says whether \<open>io.Copy\<close> fails
  to write, after how many bytes; \<open>gs_Close\<close> closes the writer of an object with what was written to it.
  \<open>gs_Objects\<close> is the sequence of what the iterator gives, up to an error.
\<close>

record 's gcs_client =
  gs_Write :: "string \<Rightarrow> string \<Rightarrow> string \<Rightarrow> 's \<Rightarrow> (nat \<times> go_error) option \<times> 's"
  gs_Close :: "string \<Rightarrow> string \<Rightarrow> string \<Rightarrow> 's \<Rightarrow> unit result \<times> 's"
  gs_NewReader :: "string \<Rightarrow> string \<Rightarrow> 's \<Rightarrow> string result result \<times> 's"
  gs_Objects :: "string \<Rightarrow> string \<Rightarrow> 's \<Rightarrow> string result list \<times> 's"

record GCSStore =
  gs_bucket :: string
  gs_prefix :: string

definition NewGCSStore :: "'s gcs_client result \<Rightarrow> string \<Rightarrow> string \<Rightarrow> ('s gcs_client \<times> GCSStore) result" where
  "NewGCSStore NewClient bucket pre =
     (case NewClient of
        Inl e \<Rightarrow> Inl (Wrapf ''gcs client'' [] e)
      | Inr client \<Rightarrow> Inr (client, \<lparr>gs_bucket = bucket, gs_prefix = pre\<rparr>))"

definition GCS_object :: "GCSStore \<Rightarrow> string \<Rightarrow> string \<Rightarrow> string" where
  "GCS_object b run path =
     (if gs_prefix b \<noteq> [] then gs_prefix b @ ''/'' @ run @ ''/'' @ path else run @ ''/'' @ path)"

lemma GCS_object_key [simp]: "GCS_object b run path = object_key (gs_prefix b) run path"
  by (simp add: GCS_object_def object_key_def)

definition GCS_Upload :: "'s gcs_client \<Rightarrow> GCSStore \<Rightarrow> string \<Rightarrow> string \<Rightarrow> reader \<Rightarrow> 's \<Rightarrow> unit result \<times> 's" where
  "GCS_Upload c b run path r s =
     (let object = GCS_object b run path in
      case gs_Write c (gs_bucket b) object (rd_bytes r) s of
        (Some (n, e), s1) \<Rightarrow>
          (Inl (Wrapf ''gcs upload %s/%s'' [run, path] e),
           snd (gs_Close c (gs_bucket b) object (take n (rd_bytes r)) s1))
      | (None, s1) \<Rightarrow>
          (case rd_err r of
             Some e \<Rightarrow>
               (Inl (Wrapf ''gcs upload %s/%s'' [run, path] e),
                snd (gs_Close c (gs_bucket b) object (rd_bytes r) s1))
           | None \<Rightarrow> gs_Close c (gs_bucket b) object (rd_bytes r) s1))"

definition GCS_Download :: "'s gcs_client \<Rightarrow> GCSStore \<Rightarrow> string \<Rightarrow> string \<Rightarrow> 's \<Rightarrow> string result result \<times> 's" where
  "GCS_Download c b run path s =
     (case gs_NewReader c (gs_bucket b) (GCS_object b run path) s of
        (Inl e, s1) \<Rightarrow> (Inl (Wrapf ''gcs download %s/%s'' [run, path] e), s1)
      | (Inr rc, s1) \<Rightarrow> (Inr rc, s1))"

fun list_objects :: "string list \<Rightarrow> nat \<Rightarrow> string result list \<Rightarrow> string list \<Rightarrow> string list result" where
  "list_objects args n [] paths = Inr paths"
| "list_objects args n (Inl e # objs) paths = Inl (Wrapf ''gcs list %s'' args e)"
| "list_objects args n (Inr name # objs) paths = list_objects args n objs (paths @ [drop n name])"

definition GCS_List :: "'s gcs_client \<Rightarrow> GCSStore \<Rightarrow> string \<Rightarrow> 's \<Rightarrow> string list result \<times> 's" where
  "GCS_List c b run s =
     (let pre = GCS_object b run [] in
      case gs_Objects c (gs_bucket b) pre s of
        (objs, s1) \<Rightarrow> (list_objects [run] (length pre) objs [], s1))"

definition GCS_store :: "'s gcs_client \<Rightarrow> GCSStore \<Rightarrow> 's ArtifactStore" where
  "GCS_store c b = \<lparr>as_Upload = GCS_Upload c b, as_Download = GCS_Download c b, as_List = GCS_List c b\<rparr>"

lemma GCS_store_sel [simp]:
  "as_Upload (GCS_store c b) = GCS_Upload c b" "as_Download (GCS_store c b) = GCS_Download c b"
  "as_List (GCS_store c b) = GCS_List c b"
  by (simp_all add: GCS_store_def)

text \<open>What Cloud Storage documents, in the same way: closing the writer makes the object.\<close>

definition gcs_ok :: "'s gcs_client \<Rightarrow> string \<Rightarrow> ('s \<Rightarrow> string \<Rightarrow> string option) \<Rightarrow> bool" where
  "gcs_ok c bucket objs \<longleftrightarrow>
     (\<forall>k w s q s'. plain_path k \<and> gs_Write c bucket k w s = (q, s') \<longrightarrow> objs s' = objs s)
   \<and> (\<forall>k w s q s'. plain_path k \<and> gs_Close c bucket k w s = (q, s') \<longrightarrow>
        objs s' = (objs s)(k \<mapsto> w) \<or> (\<exists>e. q = Inl e) \<and> objs s' = objs s)
   \<and> (\<forall>k s q s'. plain_path k \<and> gs_NewReader c bucket k s = (q, s') \<longrightarrow>
        objs s' = objs s \<and> (\<forall>b. q = Inr (Inr b) \<longrightarrow> objs s k = Some b))
   \<and> (\<forall>d s os s'. plain_path d \<and> gs_Objects c bucket (d @ ''/'') s = (os, s') \<longrightarrow>
        objs s' = objs s \<and> (\<forall>keys. os = map Inr keys \<longrightarrow> listed (d @ ''/'') (objs s) keys))"

lemmas gcs_write = gcs_ok_def [THEN iffD1, THEN conjunct1, rule_format]
lemmas gcs_close = gcs_ok_def [THEN iffD1, THEN conjunct2, THEN conjunct1, rule_format]
lemmas gcs_read = gcs_ok_def [THEN iffD1, THEN conjunct2, THEN conjunct2, THEN conjunct1, rule_format]
lemmas gcs_list = gcs_ok_def [THEN iffD1, THEN conjunct2, THEN conjunct2, THEN conjunct2, rule_format]

lemma list_objects_Inr:
  "list_objects args n os paths = Inr ps \<Longrightarrow> \<exists>keys. os = map Inr keys \<and> ps = paths @ map (drop n) keys"
proof (induction args n os paths rule: list_objects.induct)
  case (3 args n name os paths)
  then obtain ks where "os = map Inr ks" "ps = (paths @ [drop n name]) @ map (drop n) ks" by auto
  then show ?case by (intro exI [of _ "name # ks"]) simp
qed simp_all

lemma GCS_Upload_effect:
  assumes "gcs_ok c (gs_bucket b) objs" and "plain_path (object_key (gs_prefix b) run p)"
    and "GCS_Upload c b run p r s = (q, s')"
  shows "(\<forall>u. q = Inr u \<longrightarrow> rd_err r = None
      \<and> objs s' = (objs s)(object_key (gs_prefix b) run p \<mapsto> rd_bytes r))
    \<and> (\<forall>k. k \<noteq> object_key (gs_prefix b) run p \<longrightarrow> objs s' k = objs s k)"
proof -
  define k where "k = object_key (gs_prefix b) run p"
  have pk: "plain_path k" using assms(2) by (simp add: k_def)
  obtain x t where x: "gs_Write c (gs_bucket b) k (rd_bytes r) s = (x, t)" by (metis surj_pair)
  have t: "objs t = objs s" by (rule gcs_write [OF assms(1) conjI [OF pk x]])
  have close: "objs t' = (objs s)(k \<mapsto> w) \<or> (\<exists>e. y = Inl e) \<and> objs t' = objs s"
    if "gs_Close c (gs_bucket b) k w t = (y, t')" for w y t'
    using gcs_close [OF assms(1) conjI [OF pk that]] by (simp only: t)
  have other: "objs (snd (gs_Close c (gs_bucket b) k w t)) l = objs s l" if "l \<noteq> k" for w l
  proof -
    obtain y t' where "gs_Close c (gs_bucket b) k w t = (y, t')" by (metis surj_pair)
    with close [OF this] that show ?thesis by auto
  qed
  show ?thesis
  proof (cases "x = None \<and> rd_err r = None")
    case True
    then have "gs_Close c (gs_bucket b) k (rd_bytes r) t = (q, s')"
      using assms(3) x by (simp add: GCS_Upload_def k_def Let_def)
    with close [OF this] True show ?thesis by (auto simp: k_def [symmetric])
  next
    case False
    then have "(\<exists>e. q = Inl e) \<and> (\<exists>w. s' = snd (gs_Close c (gs_bucket b) k w t))"
      using assms(3) x by (auto simp: GCS_Upload_def k_def Let_def split: option.splits)
    then show ?thesis using other by (auto simp: k_def [symmetric])
  qed
qed

lemma GCS_Download_effect:
  assumes "gcs_ok c (gs_bucket b) objs" and "plain_path (object_key (gs_prefix b) run p)"
    and "GCS_Download c b run p s = (q, s')"
  shows "objs s' = objs s \<and> (\<forall>x. q = Inr (Inr x) \<longrightarrow> objs s (object_key (gs_prefix b) run p) = Some x)"
proof -
  obtain x t where x: "gs_NewReader c (gs_bucket b) (object_key (gs_prefix b) run p) s = (x, t)"
    by (metis surj_pair)
  show ?thesis
    using gcs_read [OF assms(1) conjI [OF assms(2) x]] assms(3) by (cases x) (auto simp: GCS_Download_def x)
qed

lemma GCS_List_effect:
  assumes "gcs_ok c (gs_bucket b) objs" and "store_prefix (gs_prefix b)" and "plain_name run"
    and "GCS_List c b run s = (q, s')"
  shows "objs s' = objs s \<and> (\<forall>ps p. q = Inr ps \<and> plain_path p \<longrightarrow>
    (p \<in> set ps \<longleftrightarrow> objs s (object_key (gs_prefix b) run p) \<noteq> None))"
proof -
  define pre where "pre = object_key (gs_prefix b) run []"
  obtain d where d: "plain_path d" "pre = d @ ''/''"
    using object_key_folder [OF assms(2,3)] unfolding pre_def by blast
  obtain os t where x: "gs_Objects c (gs_bucket b) pre s = (os, t)" by (metis surj_pair)
  have l: "objs t = objs s" "\<And>keys. os = map Inr keys \<Longrightarrow> listed pre (objs s) keys"
    using gcs_list [OF assms(1) conjI [OF d(1) x [unfolded d(2)]]] unfolding d(2) by blast+
  have q: "q = list_objects [run] (length pre) os []" "s' = t"
    using assms(4) by (simp_all add: GCS_List_def Let_def pre_def [symmetric] x)
  show ?thesis
  proof (intro conjI allI impI)
    show "objs s' = objs s" using l(1) q(2) by simp
    fix ps p
    assume a: "q = Inr ps \<and> plain_path p"
    then obtain keys where k: "os = map Inr keys" "ps = map (drop (length pre)) keys"
      using list_objects_Inr [OF q(1) [symmetric, unfolded conjunct1 [OF a]]] by auto
    have "plain_path (pre @ p)"
      using object_key_plain [OF assms(2,3), of p] a object_key_prefix [of "gs_prefix b" run p]
      by (simp add: pre_def)
    then show "p \<in> set ps \<longleftrightarrow> objs s (object_key (gs_prefix b) run p) \<noteq> None"
      using drop_keys [OF l(2) [OF k(1)], of p]
      by (simp only: k(2) object_key_prefix [of _ _ p] pre_def)
  qed
qed

interpretation gcs: artifact_list_contract "GCS_store c b"
  "\<lambda>_. gcs_ok c (gs_bucket b) objs \<and> store_prefix (gs_prefix b)"
  "\<lambda>s run p. objs s (object_key (gs_prefix b) run p)" "\<lambda>p. p" plain_name plain_path
  for c b objs
  apply unfold_locales
  subgoal for s run p r u s'
    using GCS_Upload_effect [of c b objs run p r s "Inr u" s'] object_key_plain by simp
  subgoal for s run p r q s'
    using GCS_Upload_effect [of c b objs run p r s q s'] object_key_plain
    by (auto simp: inj_object_key plain_name_slash)
  subgoal by simp
  subgoal for s run p d s'
    using GCS_Download_effect [of c b objs run p s d s'] object_key_plain by (auto simp: fun_eq_iff)
  subgoal for s run q s' using GCS_List_effect [of c b objs run s q s'] by auto
  done

text \<open>
  An upload whose reader breaks off closes the writer, which makes an object of what was written so
  far: the caller gets an error, and others find a truncated artifact.
\<close>

lemma GCS_Upload_truncated:
  assumes "gcs_ok c (gs_bucket b) objs" and "rd_err r = Some e"
    and "plain_path (object_key (gs_prefix b) run p)"
    and "gs_Write c (gs_bucket b) (object_key (gs_prefix b) run p) (rd_bytes r) s = (None, s1)"
    and "gs_Close c (gs_bucket b) (object_key (gs_prefix b) run p) (rd_bytes r) s1 = (Inr u, s2)"
  shows "GCS_Upload c b run p r s = (Inl (Wrapf ''gcs upload %s/%s'' [run, p] e), s2)
    \<and> objs s2 (object_key (gs_prefix b) run p) = Some (rd_bytes r)"
  using assms gcs_close [OF assms(1) conjI [OF assms(3,5)]] by (simp add: GCS_Upload_def Let_def)

section \<open>Artifactory\<close>

text \<open>
  Requests over HTTP; the body of a request is a reader, that of an answer is to be read. \<open>ah_valid\<close> is
  the check of the URL by \<open>http.NewRequest\<close>.
\<close>

record art_request =
  aq_Method :: string
  aq_URL :: string
  aq_Auth :: string
  aq_Body :: "reader option"

record art_response =
  ar_StatusCode :: nat
  ar_Body :: "string result"

record 's art_http =
  ah_valid :: "string \<Rightarrow> go_error option"
  ah_Do :: "art_request \<Rightarrow> 's \<Rightarrow> art_response result \<times> 's"

record ArtifactoryStore =
  at_baseURL :: string
  at_token :: string

definition NewArtifactoryStore :: "string \<Rightarrow> string \<Rightarrow> ArtifactoryStore" where
  "NewArtifactoryStore baseURL token = \<lparr>at_baseURL = TrimRight baseURL ''/'', at_token = token\<rparr>"

definition artifactURL :: "ArtifactoryStore \<Rightarrow> string \<Rightarrow> string \<Rightarrow> string" where
  "artifactURL b run path = at_baseURL b @ ''/'' @ run @ ''/'' @ path"

definition Artifactory_Upload ::
  "'s art_http \<Rightarrow> ArtifactoryStore \<Rightarrow> string \<Rightarrow> string \<Rightarrow> reader \<Rightarrow> 's \<Rightarrow> unit result \<times> 's" where
  "Artifactory_Upload h b run path r s =
     (case ah_valid h (artifactURL b run path) of
        Some e \<Rightarrow> (Inl e, s)
      | None \<Rightarrow>
          (case ah_Do h \<lparr>aq_Method = ''PUT'', aq_URL = artifactURL b run path,
                  aq_Auth = ''Bearer '' @ at_token b, aq_Body = Some r\<rparr> s of
             (Inl e, s1) \<Rightarrow> (Inl (Wrapf ''artifactory upload'' [] e), s1)
           | (Inr resp, s1) \<Rightarrow>
               ((if ar_StatusCode resp \<ge> 300
                 then Inl (Errorf ''artifactory upload: status %d'' [decimal (ar_StatusCode resp)])
                 else Inr ()), s1)))"

definition Artifactory_Download ::
  "'s art_http \<Rightarrow> ArtifactoryStore \<Rightarrow> string \<Rightarrow> string \<Rightarrow> 's \<Rightarrow> string result result \<times> 's" where
  "Artifactory_Download h b run path s =
     (case ah_valid h (artifactURL b run path) of
        Some e \<Rightarrow> (Inl e, s)
      | None \<Rightarrow>
          (case ah_Do h \<lparr>aq_Method = ''GET'', aq_URL = artifactURL b run path,
                  aq_Auth = ''Bearer '' @ at_token b, aq_Body = None\<rparr> s of
             (Inl e, s1) \<Rightarrow> (Inl (Wrapf ''artifactory download'' [] e), s1)
           | (Inr resp, s1) \<Rightarrow>
               ((if ar_StatusCode resp \<ge> 300
                 then Inl (Errorf ''artifactory download: status %d'' [decimal (ar_StatusCode resp)])
                 else Inr (ar_Body resp)), s1)))"

definition Artifactory_List :: "string \<Rightarrow> 's \<Rightarrow> string list result \<times> 's" where
  "Artifactory_List run s = (Inl (Errorf ''artifactory list: not implemented'' []), s)"

definition Artifactory_store :: "'s art_http \<Rightarrow> ArtifactoryStore \<Rightarrow> 's ArtifactStore" where
  "Artifactory_store h b =
     \<lparr>as_Upload = Artifactory_Upload h b, as_Download = Artifactory_Download h b, as_List = Artifactory_List\<rparr>"

lemma Artifactory_store_sel [simp]:
  "as_Upload (Artifactory_store h b) = Artifactory_Upload h b"
  "as_Download (Artifactory_store h b) = Artifactory_Download h b"
  "as_List (Artifactory_store h b) = Artifactory_List"
  by (simp_all add: Artifactory_store_def)

text \<open>
  What the repository documents for the plain paths below its URL and the token of the store: a \<open>PUT\<close> answered
  with less than 300 has stored the whole body, any other one may have, when its body could be read to
  the end; a \<open>GET\<close> answered with less than 300 gives the file, unless the path is a folder, with files
  below it, which gives a listing. No one else changes these files, no request is still at work after
  its answer, and requests are not redirected.
\<close>

definition art_ok :: "'s art_http \<Rightarrow> ArtifactoryStore \<Rightarrow> ('s \<Rightarrow> string \<Rightarrow> string option) \<Rightarrow> bool" where
  "art_ok h b files \<longleftrightarrow>
     (\<forall>k r s q s'. plain_path k \<and>
        ah_Do h \<lparr>aq_Method = ''PUT'', aq_URL = at_baseURL b @ ''/'' @ k, aq_Auth = ''Bearer '' @ at_token b,
          aq_Body = Some r\<rparr> s = (q, s') \<longrightarrow>
        rd_err r = None \<and> files s' = (files s)(k \<mapsto> rd_bytes r)
        \<or> (\<forall>resp. q = Inr resp \<longrightarrow> 300 \<le> ar_StatusCode resp) \<and> files s' = files s)
   \<and> (\<forall>k s q s'. plain_path k \<and>
        ah_Do h \<lparr>aq_Method = ''GET'', aq_URL = at_baseURL b @ ''/'' @ k, aq_Auth = ''Bearer '' @ at_token b,
          aq_Body = None\<rparr> s = (q, s') \<longrightarrow>
        files s' = files s \<and> ((\<forall>x. files s (k @ ''/'' @ x) = None) \<longrightarrow>
          (\<forall>resp x. q = Inr resp \<and> ar_StatusCode resp < 300 \<and> ar_Body resp = Inr x \<longrightarrow> files s k = Some x)))"

definition art_key :: "string \<Rightarrow> string \<Rightarrow> string" where
  "art_key run p = run @ ''/'' @ p"

lemma artifactURL_key: "artifactURL b run p = at_baseURL b @ ''/'' @ art_key run p"
  by (simp add: artifactURL_def art_key_def)

lemma inj_art_key:
  "plain_name run \<Longrightarrow> plain_name run' \<Longrightarrow> art_key run p = art_key run' p' \<longleftrightarrow> run = run' \<and> p = p'"
  by (simp add: art_key_def slash_split plain_name_slash)

lemma art_key_plain: "plain_name run \<Longrightarrow> plain_path p \<Longrightarrow> plain_path (art_key run p)"
  by (simp add: art_key_def plain_path_append plain_name_path)

lemma art_put:
  "art_ok h b files \<Longrightarrow> plain_path (art_key run p) \<Longrightarrow>
     ah_Do h \<lparr>aq_Method = ''PUT'', aq_URL = artifactURL b run p, aq_Auth = ''Bearer '' @ at_token b,
       aq_Body = Some r\<rparr> s = (q, s') \<Longrightarrow>
     rd_err r = None \<and> files s' = (files s)(art_key run p \<mapsto> rd_bytes r)
     \<or> (\<forall>resp. q = Inr resp \<longrightarrow> 300 \<le> ar_StatusCode resp) \<and> files s' = files s"
  unfolding artifactURL_key
  by (rule art_ok_def [THEN iffD1, THEN conjunct1, THEN spec, THEN spec, THEN spec, THEN spec, THEN spec, THEN mp])
    (assumption, intro conjI)

lemma art_get:
  "art_ok h b files \<Longrightarrow> plain_path (art_key run p) \<Longrightarrow>
     ah_Do h \<lparr>aq_Method = ''GET'', aq_URL = artifactURL b run p, aq_Auth = ''Bearer '' @ at_token b,
       aq_Body = None\<rparr> s = (q, s') \<Longrightarrow>
     files s' = files s \<and> ((\<forall>x. files s (art_key run p @ ''/'' @ x) = None) \<longrightarrow>
       (\<forall>resp x. q = Inr resp \<and> ar_StatusCode resp < 300 \<and> ar_Body resp = Inr x \<longrightarrow>
          files s (art_key run p) = Some x))"
  unfolding artifactURL_key
  by (rule art_ok_def [THEN iffD1, THEN conjunct2, THEN spec, THEN spec, THEN spec, THEN spec, THEN mp])
    (assumption, intro conjI)

lemma Artifactory_Upload_effect:
  assumes "art_ok h b files" and "plain_path (art_key run p)" and "Artifactory_Upload h b run p r s = (q, s')"
  shows "rd_err r = None \<and> files s' = (files s)(art_key run p \<mapsto> rd_bytes r)
    \<or> (\<exists>e. q = Inl e) \<and> files s' = files s"
proof (cases "ah_valid h (artifactURL b run p)")
  case None
  obtain x t where x: "ah_Do h \<lparr>aq_Method = ''PUT'', aq_URL = artifactURL b run p,
      aq_Auth = ''Bearer '' @ at_token b, aq_Body = Some r\<rparr> s = (x, t)"
    by (metis surj_pair)
  show ?thesis
    using art_put [OF assms(1,2) x] assms(3)
    by (cases x) (auto simp: Artifactory_Upload_def None x [simplified] not_le split: if_splits)
qed (use assms(3) in \<open>auto simp: Artifactory_Upload_def\<close>)

lemma Artifactory_Download_effect:
  assumes "art_ok h b files" and "plain_path (art_key run p)"
    and "\<forall>x. files s (art_key run p @ ''/'' @ x) = None" and "Artifactory_Download h b run p s = (q, s')"
  shows "files s' = files s \<and> (\<forall>x. q = Inr (Inr x) \<longrightarrow> files s (art_key run p) = Some x)"
proof (cases "ah_valid h (artifactURL b run p)")
  case None
  obtain x t where x: "ah_Do h \<lparr>aq_Method = ''GET'', aq_URL = artifactURL b run p,
      aq_Auth = ''Bearer '' @ at_token b, aq_Body = None\<rparr> s = (x, t)"
    by (metis surj_pair)
  show ?thesis
    using art_get [OF assms(1,2) x] assms(3,4)
    by (cases x) (auto simp: Artifactory_Download_def None x [simplified] not_le split: if_splits)
qed (use assms(4) in \<open>auto simp: Artifactory_Download_def\<close>)

text \<open>
  A set of paths of which none is a folder of another, and a repository in which none of them is a folder:
  uploads of these paths keep it so.
\<close>

definition paths_apart :: "string set \<Rightarrow> bool" where
  "paths_apart P \<longleftrightarrow> (\<forall>p \<in> P. plain_path p) \<and> (\<forall>p \<in> P. \<forall>x. p @ ''/'' @ x \<notin> P)"

definition no_folders :: "string set \<Rightarrow> (string \<Rightarrow> string option) \<Rightarrow> bool" where
  "no_folders P m \<longleftrightarrow> (\<forall>run p x. plain_name run \<and> p \<in> P \<longrightarrow> m (art_key run p @ ''/'' @ x) = None)"

lemma no_folders_upload:
  assumes "paths_apart P" and "no_folders P m" and "plain_name run" and "p \<in> P"
  shows "no_folders P (m(art_key run p \<mapsto> b))"
  unfolding no_folders_def
proof (intro allI impI)
  fix run' p' x
  assume a: "plain_name run' \<and> p' \<in> P"
  have "art_key run' p' @ ''/'' @ x = art_key run' (p' @ ''/'' @ x)" by (simp add: art_key_def)
  moreover have "p' @ ''/'' @ x \<noteq> p" using assms(1,4) a unfolding paths_apart_def by blast
  ultimately have "art_key run' p' @ ''/'' @ x \<noteq> art_key run p"
    using inj_art_key [of run' run] assms(3) a by metis
  then show "(m(art_key run p \<mapsto> b)) (art_key run' p' @ ''/'' @ x) = None"
    using assms(2) a by (simp add: no_folders_def)
qed

interpretation artifactory: artifact_contract "Artifactory_store h b"
  "\<lambda>s. art_ok h b files \<and> paths_apart P \<and> no_folders P (files s)"
  "\<lambda>s run p. files s (art_key run p)" "\<lambda>p. p" plain_name "\<lambda>p. p \<in> P"
  for h b files P
proof unfold_locales
  fix s run p r u s' q d
  assume v: "art_ok h b files \<and> paths_apart P \<and> no_folders P (files s)" and rn: "plain_name run" and p: "p \<in> P"
  have pk: "plain_path (art_key run p)" using v rn p by (simp add: art_key_plain paths_apart_def)
  show "(art_ok h b files \<and> paths_apart P \<and> no_folders P (files s')) \<and> rd_err r = None
      \<and> files s' (art_key run p) = Some (rd_bytes r)"
    if "as_Upload (Artifactory_store h b) run p r s = (Inr u, s')"
    using Artifactory_Upload_effect [of h b files run p r s "Inr u" s'] that v pk rn p
    by (simp add: no_folders_upload)
  show "(art_ok h b files \<and> paths_apart P \<and> no_folders P (files s'))
      \<and> (\<forall>run' p'. plain_name run' \<and> p' \<in> P \<and> (run' \<noteq> run \<or> p' \<noteq> p) \<longrightarrow>
           files s' (art_key run' p') = files s (art_key run' p'))"
    if "as_Upload (Artifactory_store h b) run p r s = (q, s')"
    using Artifactory_Upload_effect [of h b files run p r s q s'] that v pk rn p
    by (auto simp: no_folders_upload inj_art_key)
  show "(art_ok h b files \<and> paths_apart P \<and> no_folders P (files s'))
      \<and> (\<lambda>run p. files s' (art_key run p)) = (\<lambda>run p. files s (art_key run p))
      \<and> (\<forall>b. d = Inr (Inr b) \<longrightarrow> files s (art_key run p) = Some b)"
    if "as_Download (Artifactory_store h b) run p s = (d, s')"
    using Artifactory_Download_effect [of h b files run p s d s'] that v pk rn p
    by (simp add: no_folders_def)
qed simp

text \<open>Other paths are not kept apart: the code puts them into the URL as they are.\<close>

lemma artifactURL_not_escaped:
  "request_path (artifactURL b run (p @ ''#'' @ x)) = request_path (artifactURL b run p)"
  "request_path (artifactURL b run (p @ ''?'' @ x)) = request_path (artifactURL b run p)"
  using request_path_cut [of "artifactURL b run p" x] by (simp_all add: artifactURL_def)

end
