(* ===== verification/Artifact_Props.thy ===== *)
theory Artifact_Props
  imports Artifact_Local Artifact_Services
begin

text \<open>
  The local store provides the contract of an artifact store, over a well-formed file system and for paths
  that stay inside the directory of their run. What all stores promise, and what goes wrong for other
  paths.
\<close>

section \<open>Well-formed file systems\<close>

text \<open>The root and whatever something is in are directories, and names are names.\<close>

definition fs_ok :: "fs_entries \<Rightarrow> bool" where
  "fs_ok es \<longleftrightarrow>
     distinct (map fst es) \<and> map_of es [] = Some FS_Dir
   \<and> (\<forall>k x. map_of es (k @ [x]) \<noteq> None \<longrightarrow> map_of es k = Some FS_Dir)
   \<and> (\<forall>k. map_of es k \<noteq> None \<longrightarrow> (\<forall>x \<in> set k. plain x))"

definition fs_valid :: "fs_env \<Rightarrow> fs \<Rightarrow> bool" where
  "fs_valid env f \<longleftrightarrow> fs_ok (fs_entries f) \<and> (\<forall>x \<in> set (fe_cwd env). plain x)"

definition files :: "fs_entries \<Rightarrow> string list \<Rightarrow> string option" where
  "files es k = (case map_of es k of Some (FS_File b) \<Rightarrow> Some b | _ \<Rightarrow> None)"

lemma fs_ok_parent: "fs_ok es \<Longrightarrow> map_of es (k @ [x]) \<noteq> None \<Longrightarrow> map_of es k = Some FS_Dir"
  unfolding fs_ok_def by blast

lemma fs_ok_names: "fs_ok es \<Longrightarrow> map_of es k \<noteq> None \<Longrightarrow> x \<in> set k \<Longrightarrow> plain x"
  unfolding fs_ok_def by blast

lemma fs_ok_above: "fs_ok es \<Longrightarrow> map_of es (k @ xs) \<noteq> None \<Longrightarrow> xs \<noteq> [] \<Longrightarrow> map_of es k = Some FS_Dir"
proof (induction xs rule: rev_induct)
  case (snoc x xs)
  have "map_of es (k @ xs) = Some FS_Dir" using fs_ok_parent [of es "k @ xs" x] snoc.prems by simp
  then show ?case using snoc by (cases "xs = []") auto
qed simp

lemma files_update:
  "files (AList.update k (FS_File b) es) = (files es)(k \<mapsto> b)"
  "map_of es k = None \<Longrightarrow> files (AList.update k FS_Dir es) = files es"
  by (auto simp: files_def fun_eq_iff update_conv')

text \<open>An entry is added where there is none, or a file is replaced.\<close>

lemma fs_ok_update:
  assumes "fs_ok es" and "k = d @ [x]" and "map_of es d = Some FS_Dir" and "plain x"
    and "map_of es k \<noteq> Some FS_Dir"
  shows "fs_ok (AList.update k v es)"
proof -
  have "map_of es (k @ [y]) = None" for y using fs_ok_parent [OF assms(1), of k y] assms(5) by blast
  then have "\<forall>j y. map_of (AList.update k v es) (j @ [y]) \<noteq> None \<longrightarrow> map_of (AList.update k v es) j = Some FS_Dir"
    using assms fs_ok_parent [OF assms(1)] by (auto simp: update_conv')
  moreover have "\<forall>j. map_of (AList.update k v es) j \<noteq> None \<longrightarrow> (\<forall>y \<in> set j. plain y)"
    using assms fs_ok_names [OF assms(1)] by (auto simp: update_conv')
  moreover have "map_of (AList.update k v es) [] = Some FS_Dir"
    using assms(1,2) by (simp add: update_conv' fs_ok_def)
  ultimately show ?thesis using assms(1) by (simp add: fs_ok_def distinct_update)
qed

lemma mkdirs_ok:
  assumes "mkdirs d xs es = Some es'" and "fs_ok es" and "map_of es d = Some FS_Dir"
    and "\<forall>x \<in> set xs. plain x"
  shows "fs_ok es' \<and> map_of es' (d @ xs) = Some FS_Dir \<and> files es' = files es"
  using assms
proof (induction d xs es rule: mkdirs.induct)
  case (2 d x xs es)
  show ?case
  proof (cases "map_of es (d @ [x])")
    case None
    define es1 where "es1 = AList.update (d @ [x]) FS_Dir es"
    have "fs_ok es1" unfolding es1_def
      by (rule fs_ok_update [OF 2(4) refl 2(5)]) (use 2(6) None in simp_all)
    moreover have "map_of es1 (d @ [x]) = Some FS_Dir" by (simp add: es1_def update_conv')
    moreover have "files es1 = files es" using None by (simp add: es1_def files_update)
    ultimately show ?thesis using 2(1) [OF None] 2(3,6) None by (simp add: es1_def)
  next
    case (Some v)
    then have "v = FS_Dir" using 2(3) by (cases v) simp_all
    then show ?thesis using 2(2) [OF Some] 2(3-6) Some by simp
  qed
qed simp

lemma mkdirs_total:
  "(\<forall>ys zs. xs = ys @ zs \<and> ys \<noteq> [] \<longrightarrow> files es (d @ ys) = None) \<Longrightarrow> mkdirs d xs es \<noteq> None"
proof (induction d xs es rule: mkdirs.induct)
  case (2 d x xs es)
  have here: "files es (d @ [x]) = None" using 2(3) by simp
  have rest: "\<forall>ys zs. xs = ys @ zs \<and> ys \<noteq> [] \<longrightarrow> files es ((d @ [x]) @ ys) = None"
  proof (intro allI impI)
    fix ys zs
    assume "xs = ys @ zs \<and> ys \<noteq> []"
    then have "x # xs = (x # ys) @ zs \<and> x # ys \<noteq> []" by simp
    then have "files es (d @ x # ys) = None" using 2(3) by blast
    then show "files es ((d @ [x]) @ ys) = None" by simp
  qed
  show ?case
  proof (cases "map_of es (d @ [x])")
    case None
    have "files (AList.update (d @ [x]) FS_Dir es) = files es" by (rule files_update(2) [OF None])
    then show ?thesis using 2(1) [OF None] rest None by simp
  next
    case (Some v)
    then have "v = FS_Dir" using here by (cases v) (simp_all add: files_def)
    then show ?thesis using 2(2) [OF Some] rest Some by simp
  qed
qed simp

section \<open>Effects of the operations\<close>

lemma resolve_plain: "\<forall>x \<in> set cwd. plain x \<Longrightarrow> x \<in> set (resolve cwd p) \<Longrightarrow> plain x"
  using fold_push_plain [of "if rooted p then [] else cwd" "elements p" True] elements_plain
  by (auto simp: resolve_def split: if_splits)

lemma fs_valid_names: "fs_valid env f \<Longrightarrow> x \<in> set (resolve (fe_cwd env) p) \<Longrightarrow> plain x"
  using resolve_plain unfolding fs_valid_def by blast

lemma fs_ok_root: "fs_ok es \<Longrightarrow> map_of es [] = Some FS_Dir"
  unfolding fs_ok_def by blast

lemma fs_valid_calls [simp]: "fs_valid env (f\<lparr>fs_calls := n\<rparr>) = fs_valid env f"
  by (simp add: fs_valid_def)

lemma MkdirAll_effect:
  assumes "MkdirAll env p f = (q, f')" and "fs_valid env f"
  shows "fs_valid env f' \<and> files (fs_entries f') = files (fs_entries f)"
proof -
  have ok: "fs_ok (fs_entries f)" using assms(2) by (simp add: fs_valid_def)
  have names: "\<forall>x \<in> set (resolve (fe_cwd env) p). plain x" using fs_valid_names [OF assms(2)] by blast
  show ?thesis
    using assms mkdirs_ok [OF _ ok fs_ok_root [OF ok] names]
    by (auto simp: MkdirAll_def fs_call_def Let_def fs_valid_def split: option.splits)
qed

lemma Create_effect:
  assumes "Create env p f = (q, f')" and "fs_valid env f"
  shows "fs_valid env f' \<and> (\<forall>k. k \<noteq> resolve (fe_cwd env) p \<longrightarrow> files (fs_entries f') k = files (fs_entries f) k)
    \<and> (q = Inr () \<longrightarrow> resolve (fe_cwd env) p \<noteq> []
         \<and> map_of (fs_entries f') (resolve (fe_cwd env) p) = Some (FS_File [])
         \<and> map_of (fs_entries f') (butlast (resolve (fe_cwd env) p)) = Some FS_Dir)"
proof -
  define k where "k = resolve (fe_cwd env) p"
  have names: "\<forall>x \<in> set k. plain x" using fs_valid_names [OF assms(2)] k_def by blast
  show ?thesis
  proof (cases "q = Inr ()")
    case True
    then have c: "k \<noteq> []" "map_of (fs_entries f) k \<noteq> Some FS_Dir"
        "map_of (fs_entries f) (butlast k) = Some FS_Dir"
        "fs_entries f' = AList.update k (FS_File []) (fs_entries f)"
      using assms(1) by (auto simp: Create_def fs_call_def Let_def k_def split: option.splits if_splits)
    have "k = butlast k @ [last k]" "plain (last k)" using c(1) names by simp_all
    then have "fs_ok (fs_entries f')"
      unfolding c(4) using assms(2) c(2,3) by (intro fs_ok_update) (auto simp: fs_valid_def)
    moreover have "butlast k \<noteq> k" using c(1) by (metis \<open>k = butlast k @ [last k]\<close> append_self_conv not_Cons_self2)
    ultimately show ?thesis
      using assms(2) True c by (simp add: fs_valid_def files_update k_def [symmetric] update_conv')
  next
    case False
    then have "fs_entries f' = fs_entries f"
      using assms(1) by (auto simp: Create_def fs_call_def Let_def split: option.splits if_splits)
    then show ?thesis using assms(2) False by (simp add: fs_valid_def)
  qed
qed

lemma LocalStore_Upload_effect:
  assumes "LocalStore_Upload env base run p r f = (q, f')" and "fs_valid env f"
  defines "k \<equiv> resolve (fe_cwd env) (artifactPath base run p)"
  shows "fs_valid env f' \<and> (\<forall>j. j \<noteq> k \<longrightarrow> files (fs_entries f') j = files (fs_entries f) j)
    \<and> (q = Inr () \<longrightarrow> rd_err r = None \<and> files (fs_entries f') k = Some (rd_bytes r))"
proof -
  obtain q1 f1 where m: "MkdirAll env (Dir (artifactPath base run p)) f = (q1, f1)" by (metis surj_pair)
  obtain q2 f2 where c: "Create env (artifactPath base run p) f1 = (q2, f2)" by (metis surj_pair)
  obtain q3 f3 where w: "Copy env (artifactPath base run p) r f2 = (q3, f3)" by (metis surj_pair)
  have names: "\<forall>x \<in> set k. plain x" using fs_valid_names [OF assms(2)] k_def by blast
  note m' = MkdirAll_effect [OF m assms(2)]
  note c' = Create_effect [OF c conjunct1 [OF m'], folded k_def]
  show ?thesis
  proof (cases q1)
    case (Inl e)
    then have "q = Inl (Wrapf ''mkdir'' [] e)" "f' = f1"
      using assms(1) m by (simp_all add: LocalStore_Upload_def Let_def)
    then show ?thesis using m' by simp
  next
    case (Inr u1)
    show ?thesis
    proof (cases q2)
      case (Inl e)
      then have "q = Inl (Wrapf ''create artifact'' [] e)" "f' = f2"
        using assms(1) m \<open>q1 = Inr u1\<close> c by (simp_all add: LocalStore_Upload_def Let_def)
      then show ?thesis using m' c' by simp
    next
      case (Inr u2)
      then have made: "k \<noteq> []" "map_of (fs_entries f2) k = Some (FS_File [])"
          "map_of (fs_entries f2) (butlast k) = Some FS_Dir" "fs_valid env f2"
        using c' by simp_all
      obtain b where b: "fs_entries f3 = AList.update k (FS_File b) (fs_entries f2)"
          "q3 = Inr () \<longrightarrow> rd_err r = None \<and> b = rd_bytes r"
        using w by (auto simp: Copy_def Let_def k_def split: option.splits)
      have "k = butlast k @ [last k]" "plain (last k)"
        using made(1) names by simp_all
      then have "fs_ok (fs_entries f3)"
        unfolding b(1) using made by (intro fs_ok_update) (auto simp: fs_valid_def)
      then have "fs_valid env f3" using made(4) by (simp add: fs_valid_def)
      moreover have "files (fs_entries f3) = (files (fs_entries f2))(k \<mapsto> b)"
        by (simp add: b(1) files_update)
      moreover have "f' = f3" "q = Inr () \<longleftrightarrow> q3 = Inr ()"
        using assms(1) m c w \<open>q1 = Inr u1\<close> Inr by (auto simp: LocalStore_Upload_def Let_def split: sum.splits)
      ultimately show ?thesis using m' c' b(2) by auto
    qed
  qed
qed

lemma LocalStore_Download_effect:
  "LocalStore_Download env base run p f = (d, f') \<Longrightarrow>
     fs_entries f' = fs_entries f
     \<and> (\<forall>b. d = Inr (Inr b) \<longrightarrow> files (fs_entries f) (resolve (fe_cwd env) (artifactPath base run p)) = Some b)"
  by (auto simp: LocalStore_Download_def fs_call_def files_def Let_def
      split: option.splits sum.splits fs_entry.splits)

section \<open>The local store provides the contract\<close>

definition local_view :: "fs_env \<Rightarrow> string \<Rightarrow> fs \<Rightarrow> string \<Rightarrow> string \<Rightarrow> string option" where
  "local_view env base f run p = files (fs_entries f) (base_root env base @ run # path_comps p)"

text \<open>The form in which \<open>List\<close> shows a path.\<close>

definition shown :: "string \<Rightarrow> string" where
  "shown p = (if path_comps p = [] then ''.'' else join_slash (path_comps p))"

lemma join_slash_shown:
  assumes "\<forall>x \<in> set xs. plain x" and "xs \<noteq> []"
  shows "join_slash xs = shown p \<longleftrightarrow> xs = path_comps p"
proof
  assume j: "join_slash xs = shown p"
  have x: "elements (join_slash xs) = xs" by (rule elements_join [OF assms(1)])
  have "elements (join_slash (path_comps p)) = path_comps p"
    using path_comps_plain by (intro elements_join) blast
  moreover have "elements ''.'' = []" by (simp add: elements_def)
  ultimately show "xs = path_comps p"
    using x j assms(2) by (auto simp: shown_def split: if_splits)
qed (use assms(2) in \<open>simp add: shown_def\<close>)

lemma shown_eq: "shown p = shown q \<longleftrightarrow> path_comps p = path_comps q"
proof
  assume s: "shown p = shown q"
  show "path_comps p = path_comps q"
  proof (cases "path_comps p = []")
    case False
    then have "join_slash (path_comps p) = shown q" using s by (simp add: shown_def)
    then show ?thesis using join_slash_shown [OF _ False] path_comps_plain by blast
  next
    case True
    show ?thesis
    proof (cases "path_comps q = []")
      case False
      then have "join_slash (path_comps q) = shown p" using s by (simp add: shown_def)
      then show ?thesis using join_slash_shown [OF _ False] path_comps_plain by metis
    qed (simp add: True)
  qed
qed (simp add: shown_def)

lemma files_entry:
  assumes "distinct (map fst es)"
  shows "files es k \<noteq> None \<longleftrightarrow> (\<exists>e. (k, e) \<in> set es \<and> is_file e)"
proof
  assume "files es k \<noteq> None"
  then obtain b where "map_of es k = Some (FS_File b)"
    by (auto simp: files_def split: option.splits fs_entry.splits)
  then show "\<exists>e. (k, e) \<in> set es \<and> is_file e" by (auto simp: is_file_def dest: map_of_SomeD)
next
  assume "\<exists>e. (k, e) \<in> set es \<and> is_file e"
  then obtain e where "map_of es k = Some e" "is_file e" using map_of_is_SomeI [OF assms] by blast
  then show "files es k \<noteq> None" by (simp add: files_def is_file_def split: fs_entry.splits)
qed

lemma walk_files_mem:
  assumes "distinct (map fst es)"
  shows "xs \<in> set (walk_files es d) \<longleftrightarrow> files es (d @ xs) \<noteq> None"
proof -
  have "xs \<in> set (walk_files es d) \<longleftrightarrow>
      (\<exists>k e. (k, e) \<in> set es \<and> is_file e \<and> take (length d) k = d \<and> xs = drop (length d) k)"
    by (force simp: walk_files_def Let_def)
  also have "\<dots> \<longleftrightarrow> (\<exists>e. (d @ xs, e) \<in> set es \<and> is_file e)"
    by (metis append_eq_conv_conj append_take_drop_id)
  finally show ?thesis by (simp only: files_entry [OF assms])
qed

lemma LocalStore_List_effect:
  assumes "LocalStore_List env base run f = (q, f')" and "fs_valid env f" and "run_name run"
  shows "fs_entries f' = fs_entries f
    \<and> (\<forall>ps p. q = Inr ps \<longrightarrow> (shown p \<in> set ps \<longleftrightarrow> local_view env base f run p \<noteq> None))"
proof (intro conjI allI impI)
  show "fs_entries f' = fs_entries f"
    using assms(1) by (auto simp: LocalStore_List_def fs_call_def Let_def split: option.splits)
  fix ps p
  assume q: "q = Inr ps"
  define es where "es = fs_entries f"
  define d where "d = base_root env base @ [run]"
  have ok: "fs_ok es" using assms(2) by (simp add: fs_valid_def es_def)
  have v: "local_view env base f run p = files es (d @ path_comps p)"
    by (simp add: local_view_def es_def d_def)
  have ps: "ps = (case map_of es d of None \<Rightarrow> [] | Some (FS_File _) \<Rightarrow> [''.'']
      | Some FS_Dir \<Rightarrow> map join_slash (walk_files es d))"
    using assms(1) q
    by (auto simp: LocalStore_List_def fs_call_def Let_def resolve_run [OF assms(3)] es_def d_def
        split: option.splits fs_entry.splits if_splits)
  show "shown p \<in> set ps \<longleftrightarrow> local_view env base f run p \<noteq> None"
  proof (cases "map_of es d = Some FS_Dir")
    case False
    have "path_comps p \<noteq> [] \<Longrightarrow> map_of es (d @ path_comps p) = None"
      using fs_ok_above [OF ok] False by blast
    moreover have "shown p = ''.'' \<longleftrightarrow> path_comps p = []"
      using shown_eq [of p "''.''"] by (simp add: shown_def path_comps_def elements_def)
    ultimately show ?thesis
      using False by (auto simp: v ps files_def split: option.splits fs_entry.splits)
  next
    case True
    have dist: "distinct (map fst es)" using ok by (simp add: fs_ok_def)
    have "shown p \<in> set ps \<longleftrightarrow> (\<exists>xs. files es (d @ xs) \<noteq> None \<and> shown p = join_slash xs)"
      using True walk_files_mem [OF dist, of _ d] by (auto simp: ps)
    also have "\<dots> \<longleftrightarrow> files es (d @ path_comps p) \<noteq> None"
    proof -
      have "xs \<noteq> [] \<and> (\<forall>x \<in> set xs. plain x)" if "files es (d @ xs) \<noteq> None" for xs
      proof -
        have "map_of es (d @ xs) \<noteq> None" using that by (auto simp: files_def split: option.splits)
        then show ?thesis using True that fs_ok_names [OF ok, of "d @ xs"] by (auto simp: files_def)
      qed
      then have "shown p = join_slash xs \<longleftrightarrow> xs = path_comps p" if "files es (d @ xs) \<noteq> None" for xs
        using that join_slash_shown [of xs p] by metis
      then show ?thesis by blast
    qed
    finally show ?thesis by (simp add: v)
  qed
qed

text \<open>Below a regular file there is no run to list, and that is an error.\<close>

lemma LocalStore_List_below_file:
  assumes "map_of (fs_entries f) (resolve (fe_cwd env) (Join [base, run])) = None"
    and "file_above (fs_entries f) (resolve (fe_cwd env) (Join [base, run]))"
  shows "\<exists>e. fst (LocalStore_List env base run f) = Inl e"
  using assms by (simp add: LocalStore_List_def fs_call_def Let_def split: option.split)

interpretation local: artifact_list_contract "LocalStore env base" "fs_valid env" "local_view env base"
  shown run_name stays_inside
  for env base
  apply unfold_locales
  subgoal for s run p r u s'
    using LocalStore_Upload_effect [of env base run p r s "Inr u" s']
    by (simp add: local_view_def resolve_artifact)
  subgoal for s run p r q s'
    using LocalStore_Upload_effect [of env base run p r s q s']
    by (auto simp: local_view_def resolve_artifact shown_eq)
  subgoal for p p' s run by (simp add: local_view_def shown_eq)
  subgoal for s run p d s'
    using LocalStore_Download_effect [of env base run p s d s']
    by (auto simp: local_view_def resolve_artifact fs_valid_def fun_eq_iff)
  subgoal for s run q s'
    using LocalStore_List_effect [of env base run s q s']
    by (auto simp: local_view_def fs_valid_def fun_eq_iff)
  done

section \<open>What an upload touches\<close>

lemma mkdirs_changes:
  "mkdirs d xs es = Some es' \<Longrightarrow> map_of es' k \<noteq> map_of es k \<Longrightarrow>
     prefix k (d @ xs) \<and> map_of es k = None \<and> map_of es' k = Some FS_Dir"
proof (induction d xs es rule: mkdirs.induct)
  case (2 d x xs es)
  show ?case
  proof (cases "map_of es (d @ [x])")
    case None
    define es1 where "es1 = AList.update (d @ [x]) FS_Dir es"
    have r: "mkdirs (d @ [x]) xs es1 = Some es'" using 2(3) None by (simp add: es1_def)
    show ?thesis
    proof (cases "map_of es' k = map_of es1 k")
      case True
      then have "k = d @ [x]" "map_of es' k = Some FS_Dir"
        using 2(4) by (auto simp: es1_def update_conv' split: if_splits)
      then show ?thesis using None by simp
    next
      case False
      have "prefix k ((d @ [x]) @ xs) \<and> map_of es1 k = None \<and> map_of es' k = Some FS_Dir"
        unfolding es1_def
        by (rule 2(1) [OF None r [unfolded es1_def] False [unfolded es1_def]])
      moreover have "map_of es1 k = None \<Longrightarrow> map_of es k = None"
        by (simp add: es1_def update_conv' split: if_splits)
      ultimately show ?thesis by simp
    qed
  next
    case (Some v)
    then have "v = FS_Dir" using 2(3) by (cases v) simp_all
    then show ?thesis using 2(2) [OF Some] 2(3,4) Some by simp
  qed
qed simp

lemma MkdirAll_changes:
  "MkdirAll env p f = (q, f') \<Longrightarrow> map_of (fs_entries f') k \<noteq> map_of (fs_entries f) k \<Longrightarrow>
     prefix k (resolve (fe_cwd env) p) \<and> map_of (fs_entries f) k = None \<and> map_of (fs_entries f') k = Some FS_Dir"
  using mkdirs_changes [of "[]"] by (fastforce simp: MkdirAll_def fs_call_def Let_def split: option.splits)

lemma Create_changes:
  "Create env p f = (q, f') \<Longrightarrow> k \<noteq> resolve (fe_cwd env) p \<Longrightarrow>
     map_of (fs_entries f') k = map_of (fs_entries f) k"
  by (auto simp: Create_def fs_call_def Let_def update_conv' split: option.splits if_splits)

lemma Copy_changes:
  "Copy env p r f = (q, f') \<Longrightarrow> k \<noteq> resolve (fe_cwd env) p \<Longrightarrow>
     map_of (fs_entries f') k = map_of (fs_entries f) k"
  by (auto simp: Copy_def Let_def update_conv' split: option.splits)

text \<open>
  Property C30: an upload stays inside the directory of its run. For a run ID that is one name, and a path
  that does not climb, an upload keeps the file system well-formed, whether it succeeds or fails, and
  the only entries it changes are the file of the artifact and directories on the way to it, which it
  adds where there was nothing.
\<close>

theorem LocalStore_confined:
  assumes "fs_valid env f" and "run_name run" and "stays_inside p"
    and "LocalStore_Upload env base run p r f = (q, f')"
  shows "fs_valid env f' \<and>
    (\<forall>k. map_of (fs_entries f') k \<noteq> map_of (fs_entries f) k \<longrightarrow>
      k = base_root env base @ run # path_comps p
      \<or> strict_prefix k (base_root env base @ run # path_comps p)
          \<and> map_of (fs_entries f) k = None \<and> map_of (fs_entries f') k = Some FS_Dir)"
proof (intro conjI allI impI)
  define dest where "dest = base_root env base @ run # path_comps p"
  have at: "resolve (fe_cwd env) (artifactPath base run p) = dest"
      "resolve (fe_cwd env) (Dir (artifactPath base run p)) = butlast dest"
    using resolve_artifact [OF assms(2,3)] artifact_Dir [OF assms(2,3)] by (simp_all add: dest_def)
  show "fs_valid env f'" using LocalStore_Upload_effect [OF assms(4,1)] by simp
  fix k
  assume ch: "map_of (fs_entries f') k \<noteq> map_of (fs_entries f) k"
  obtain q1 f1 where m: "MkdirAll env (Dir (artifactPath base run p)) f = (q1, f1)" by (metis surj_pair)
  obtain q2 f2 where c: "Create env (artifactPath base run p) f1 = (q2, f2)" by (metis surj_pair)
  obtain q3 f3 where w: "Copy env (artifactPath base run p) r f2 = (q3, f3)" by (metis surj_pair)
  have "k = dest \<or> map_of (fs_entries f') k = map_of (fs_entries f1) k"
    using assms(4) m c w Create_changes [OF c, of k] Copy_changes [OF w, of k]
    by (auto simp: LocalStore_Upload_def Let_def at split: sum.splits)
  moreover have "strict_prefix k dest \<and> map_of (fs_entries f) k = None \<and> map_of (fs_entries f1) k = Some FS_Dir"
    if "map_of (fs_entries f1) k \<noteq> map_of (fs_entries f) k"
  proof -
    have "prefix k (butlast dest)" using MkdirAll_changes [OF m that] at by simp
    moreover have "dest \<noteq> []" by (simp add: dest_def)
    then have "dest = butlast dest @ [last dest]" by (rule append_butlast_last_id [symmetric])
    then have "strict_prefix (butlast dest) dest" by (rule strict_prefixI')
    ultimately show ?thesis using MkdirAll_changes [OF m that] prefix_order.le_less_trans by blast
  qed
  ultimately show "k = base_root env base @ run # path_comps p
      \<or> strict_prefix k (base_root env base @ run # path_comps p)
          \<and> map_of (fs_entries f) k = None \<and> map_of (fs_entries f') k = Some FS_Dir"
    using ch unfolding dest_def by metis
qed

definition toy_env :: fs_env where
  "toy_env = \<lparr>fe_cwd = [''srv''], fe_fault = (\<lambda>_. None), fe_short = (\<lambda>_. 0)\<rparr>"

definition toy_fs :: fs where
  "toy_fs = \<lparr>fs_entries = [([], FS_Dir), ([''srv''], FS_Dir)], fs_calls = 0\<rparr>"

definition text_reader :: "string \<Rightarrow> reader" where
  "text_reader b = \<lparr>rd_bytes = b, rd_err = None\<rparr>"

lemma toy_fs_valid: "fs_valid toy_env toy_fs"
proof -
  have m: "map_of (fs_entries toy_fs) = [[] \<mapsto> FS_Dir, [''srv''] \<mapsto> FS_Dir]"
    by (auto simp: toy_fs_def)
  have at: "k = [] \<or> k = [''srv'']" if "map_of (fs_entries toy_fs) k \<noteq> None" for k
    using that by (simp add: m split: if_splits)
  have "fs_ok (fs_entries toy_fs)"
    unfolding fs_ok_def
  proof (intro conjI allI impI ballI)
    show "distinct (map fst (fs_entries toy_fs))" by (simp add: toy_fs_def)
    show "map_of (fs_entries toy_fs) [] = Some FS_Dir" by (simp add: m)
    show "map_of (fs_entries toy_fs) k = Some FS_Dir" if "map_of (fs_entries toy_fs) (k @ [x]) \<noteq> None" for k x
      using at [OF that] by (cases k) (simp_all add: m)
    show "plain x" if "map_of (fs_entries toy_fs) k \<noteq> None" "x \<in> set k" for k x
      using at [OF that(1)] that(2) by (auto simp: plain_def)
  qed
  then show ?thesis by (simp add: fs_valid_def toy_env_def plain_def)
qed

theorem LocalStore_confined_witness:
  "run_name ''r1'' \<and> stays_inside ''/a/../b.txt''
   \<and> fs_valid toy_env (snd (LocalStore_Upload toy_env ''out'' ''r1'' ''/a/../b.txt'' (text_reader ''x'') toy_fs))
   \<and> map_of (fs_entries (snd (LocalStore_Upload toy_env ''out'' ''r1'' ''/a/../b.txt'' (text_reader ''x'') toy_fs)))
       [''srv''] = Some FS_Dir
   \<and> map_of (fs_entries (snd (LocalStore_Upload toy_env ''out'' ''r1'' ''/a/../b.txt'' (text_reader ''x'') toy_fs)))
       [''srv'', ''out'', ''r1'', ''b.txt''] = Some (FS_File ''x'')"
proof -
  have ok: "run_name ''r1''" "stays_inside ''/a/../b.txt''" by code_simp+
  obtain q f' where u: "LocalStore_Upload toy_env ''out'' ''r1'' ''/a/../b.txt'' (text_reader ''x'') toy_fs = (q, f')"
    by (metis surj_pair)
  note c = LocalStore_confined [OF toy_fs_valid ok u]
  have d: "base_root toy_env ''out'' @ ''r1'' # path_comps ''/a/../b.txt'' = [''srv'', ''out'', ''r1'', ''b.txt'']"
    by code_simp
  have "map_of (fs_entries f') [''srv''] = map_of (fs_entries toy_fs) [''srv'']"
    using c unfolding d by (fastforce simp: toy_fs_def)
  moreover have "map_of (fs_entries (snd (LocalStore_Upload toy_env ''out'' ''r1'' ''/a/../b.txt'' (text_reader ''x'') toy_fs)))
       [''srv'', ''out'', ''r1'', ''b.txt''] = Some (FS_File ''x'')"
    by code_simp
  ultimately show ?thesis using c ok u by (simp add: toy_fs_def)
qed

text \<open>A path that climbs reaches the artifact of another run.\<close>

lemma LocalStore_traversal:
  "let f = snd (LocalStore_Upload toy_env ''out'' ''r2'' ''log'' (text_reader ''mine'') toy_fs);
       f' = snd (LocalStore_Upload toy_env ''out'' ''r1'' ''../r2/log'' (text_reader ''theirs'') f)
   in fst (LocalStore_Download toy_env ''out'' ''r2'' ''log'' f') = Inr (Inr ''theirs'')"
  by code_simp

text \<open>
  An upload that nothing stands in the way of succeeds, and what is downloaded then is what was
  uploaded. For a path that stays inside the run, when no call of the operating system fails, the reader
  gives all its bytes, no file stands where a directory of the path is needed and no directory where
  the file is to be, the upload returns no error, and a download of the path gives the bytes.
\<close>

lemma LocalStore_keeps:
  assumes "fs_valid env f" and "run_name run" and "stays_inside p"
    and "\<And>n. fe_fault env n = None" and "rd_err r = None"
    and "\<And>k. strict_prefix k (base_root env base @ run # path_comps p) \<Longrightarrow> files (fs_entries f) k = None"
    and "map_of (fs_entries f) (base_root env base @ run # path_comps p) \<noteq> Some FS_Dir"
  shows "\<exists>f1. LocalStore_Upload env base run p r f = (Inr (), f1)
    \<and> fst (LocalStore_Download env base run p f1) = Inr (Inr (rd_bytes r))"
proof -
  define dest where "dest = base_root env base @ run # path_comps p"
  have at: "resolve (fe_cwd env) (artifactPath base run p) = dest"
      "resolve (fe_cwd env) (Dir (artifactPath base run p)) = butlast dest" "dest \<noteq> []"
    using resolve_artifact [OF assms(2,3)] artifact_Dir [OF assms(2,3)] by (simp_all add: dest_def)
  have split: "butlast dest @ [last dest] = dest" using at(3) by simp
  have above: "files (fs_entries f) ys = None" if "butlast dest = ys @ zs" for ys zs
    using assms(6) [folded dest_def, of ys] split strict_prefixI' [of dest ys] that
    by (metis append_Cons append_Nil append_assoc neq_Nil_conv)
  obtain es where es: "mkdirs [] (butlast dest) (fs_entries f) = Some es"
    using mkdirs_total [of "butlast dest" "fs_entries f" "[]"] above by auto
  have fsok: "fs_ok (fs_entries f)" using assms(1) by (simp add: fs_valid_def)
  have names: "\<forall>x \<in> set (butlast dest). plain x"
    using fs_valid_names [OF assms(1), of _ "artifactPath base run p"] at(1) by (auto dest: in_set_butlastD)
  have dir: "map_of es (butlast dest) = Some FS_Dir"
    using mkdirs_ok [OF es fsok fs_ok_root [OF fsok] names] by simp
  have "\<not> prefix dest (butlast dest)" using split at(3) by (metis prefix_length_le length_append_singleton not_less_eq_eq order_refl)
  then have free: "map_of es dest \<noteq> Some FS_Dir"
    using mkdirs_changes [OF es, of dest] assms(7) by (auto simp: dest_def)
  define f1 where "f1 = snd (LocalStore_Upload env base run p r f)"
  have "LocalStore_Upload env base run p r f = (Inr (), f1)"
    unfolding f1_def LocalStore_Upload_def MkdirAll_def Create_def Copy_def fs_call_def Let_def
    by (simp add: at assms(4,5) es dir free)
  moreover have "fst (LocalStore_Download env base run p f1) = Inr (Inr (rd_bytes r))"
    unfolding f1_def LocalStore_Upload_def MkdirAll_def Create_def Copy_def LocalStore_Download_def fs_call_def Let_def
    by (simp add: at assms(4,5) es dir free update_conv')
  ultimately show ?thesis by blast
qed

lemma LocalStore_keeps_witness:
  "fst (LocalStore_Download toy_env ''out'' ''r1'' ''b/c.txt''
     (snd (LocalStore_Upload toy_env ''out'' ''r1'' ''b/c.txt'' (text_reader ''x'') toy_fs))) = Inr (Inr ''x'')"
proof -
  have ok: "run_name ''r1''" "stays_inside ''b/c.txt''" by code_simp+
  have d: "base_root toy_env ''out'' @ ''r1'' # path_comps ''b/c.txt'' = [''srv'', ''out'', ''r1'', ''b'', ''c.txt'']"
    by code_simp
  have none: "files (fs_entries toy_fs) k = None" for k by (simp add: files_def toy_fs_def)
  have "\<exists>f1. LocalStore_Upload toy_env ''out'' ''r1'' ''b/c.txt'' (text_reader ''x'') toy_fs = (Inr (), f1)
      \<and> fst (LocalStore_Download toy_env ''out'' ''r1'' ''b/c.txt'' f1) = Inr (Inr (rd_bytes (text_reader ''x'')))"
    by (rule LocalStore_keeps [OF toy_fs_valid ok])
      (simp_all add: d none, simp_all add: toy_env_def text_reader_def toy_fs_def)
  then show ?thesis by (auto simp: text_reader_def)
qed

section \<open>All stores\<close>

text \<open>
  Property C29: the four stores keep artifacts. After a successful upload, a download of that artifact that
  gives bytes gives the bytes uploaded, and every other artifact, of any run, is as it was; a listing shows
  the artifact beside those that were there. For the local store, over a well-formed file system, that
  holds for paths that stay inside the run, read as \<open>filepath\<close> reads them. For the services it holds if
  they do what they document for plain keys, and for run IDs of letters, digits, hyphens and underscores
  and paths that also have dots, and slashes between parts (as the prefix of the bucket); for Artifactory,
  which has no listing and answers for a folder too, for paths of which none is a folder of another. It does
  not hold for every path: one with a \<open>#\<close> or a \<open>?\<close> reaches Artifactory as the path of what precedes it.
\<close>

theorem artifacts_kept:
  "artifact_list_laws (LocalStore env base) (fs_valid env) (local_view env base) shown run_name stays_inside
   \<and> (s3_ok c (s3_bucket b) objs \<and> store_prefix (s3_prefix b) \<longrightarrow>
        artifact_list_laws (S3_store c b) (\<lambda>_. True) (\<lambda>s run p. objs s (object_key (s3_prefix b) run p))
          (\<lambda>p. p) plain_name plain_path)
   \<and> (gcs_ok g (gs_bucket gb) gobjs \<and> store_prefix (gs_prefix gb) \<longrightarrow>
        artifact_list_laws (GCS_store g gb) (\<lambda>_. True) (\<lambda>s run p. gobjs s (object_key (gs_prefix gb) run p))
          (\<lambda>p. p) plain_name plain_path)
   \<and> (art_ok h a remote \<and> plain_base (at_baseURL a) \<and> paths_apart P \<longrightarrow>
        artifact_laws (Artifactory_store h a) (\<lambda>s. no_folders P (remote s)) (\<lambda>s run p. remote s (run @ ''/'' @ p))
          (\<lambda>p. p) plain_name (\<lambda>p. p \<in> P))
   \<and> request_path (artifactURL a run (p @ ''#'' @ x)) = request_path (artifactURL a run p)
   \<and> request_path (artifactURL a run (p @ ''?'' @ x)) = request_path (artifactURL a run p)"
  using local.list_laws [of env base] s3.list_laws [of c b objs] gcs.list_laws [of g gb gobjs]
    artifactory.laws [of h a remote P, unfolded art_key_def] artifactURL_not_escaped [of a run p x]
  by (intro conjI impI) simp_all

text \<open>Three small services, each with the objects of a bucket as a list.\<close>

type_synonym toy_bucket = "(string \<times> string) list"

definition toy_get :: "string \<Rightarrow> toy_bucket \<Rightarrow> string result result \<times> toy_bucket" where
  "toy_get k s = ((case map_of s k of None \<Rightarrow> Inl (DriverErr ''NoSuchKey'') | Some b \<Rightarrow> Inr (Inr b)), s)"

definition toy_put :: "string \<Rightarrow> reader \<Rightarrow> toy_bucket \<Rightarrow> unit result \<times> toy_bucket" where
  "toy_put k r s = (case rd_err r of Some e \<Rightarrow> (Inl e, s) | None \<Rightarrow> (Inr (), (k, rd_bytes r) # s))"

definition toy_keys :: "string \<Rightarrow> toy_bucket \<Rightarrow> string list" where
  "toy_keys pre s = filter (\<lambda>k. take (length pre) k = pre) (remdups (map fst s))"

definition toy_s3 :: "toy_bucket s3_client" where
  "toy_s3 = \<lparr>s3_PutObject = (\<lambda>_. toy_put), s3_GetObject = (\<lambda>_. toy_get),
     s3_Pages = (\<lambda>_ pre s. ([Inr (toy_keys pre s)], s))\<rparr>"

definition toy_gcs :: "toy_bucket gcs_client" where
  "toy_gcs = \<lparr>gs_Write = (\<lambda>_ k w s. (None, s)), gs_Close = (\<lambda>_ k w s. (Inr (), (k, w) # s)),
     gs_NewReader = (\<lambda>_. toy_get), gs_Objects = (\<lambda>_ pre s. (map Inr (toy_keys pre s), s))\<rparr>"

definition toy_a :: ArtifactoryStore where
  "toy_a = NewArtifactoryStore ''http://a/'' ''t''"

definition toy_art :: "toy_bucket art_http" where
  "toy_art = \<lparr>ah_valid = (\<lambda>_. None), ah_Do = (\<lambda>q s.
     case aq_Body q of
       Some r \<Rightarrow> (case toy_put (drop 9 (aq_URL q)) r s of
                    (Inl e, s1) \<Rightarrow> (Inl e, s1)
                  | (Inr _, s1) \<Rightarrow> (Inr \<lparr>ar_StatusCode = 201, ar_Body = Inr []\<rparr>, s1))
     | None \<Rightarrow> (case map_of s (drop 9 (aq_URL q)) of
                  None \<Rightarrow> (Inr \<lparr>ar_StatusCode = 404, ar_Body = Inr []\<rparr>, s)
                | Some x \<Rightarrow> (Inr \<lparr>ar_StatusCode = 200, ar_Body = Inr x\<rparr>, s)))\<rparr>"

lemma toy_keys_listed: "listed pre (map_of s) (toy_keys pre s)"
  by (auto simp: toy_keys_def listed_def map_of_eq_None_iff)

lemma toy_base: "at_baseURL toy_a = ''http://a''" "plain_base (at_baseURL toy_a)"
  by (simp_all add: toy_a_def NewArtifactoryStore_def TrimRight_def plain_base_def)

lemma toy_stores_ok:
  "s3_ok toy_s3 bk map_of" "gcs_ok toy_gcs bk map_of" "art_ok toy_art toy_a map_of"
  subgoal
    unfolding s3_ok_def toy_s3_def
    by (auto simp: toy_put_def toy_get_def toy_keys_listed split: option.splits)
  subgoal
    unfolding gcs_ok_def toy_gcs_def
    by (auto simp: toy_get_def inj_map_eq_map toy_keys_listed split: option.splits)
  subgoal
    unfolding art_ok_def toy_art_def toy_base(1)
    by (auto simp: toy_put_def split: option.splits)
  done

definition toy_S3 :: S3Store where
  "toy_S3 = \<lparr>s3_bucket = ''b'', s3_prefix = ''ci''\<rparr>"

definition toy_GCS :: GCSStore where
  "toy_GCS = \<lparr>gs_bucket = ''b'', gs_prefix = []\<rparr>"

lemma toy_prefixes: "store_prefix (s3_prefix toy_S3)" "store_prefix (gs_prefix toy_GCS)"
  "paths_apart {''a/b'', ''c''}"
proof -
  have "plain_path ''ci''" "plain_path ''a/b''" "plain_path ''c''" by code_simp+
  then show "store_prefix (s3_prefix toy_S3)" "store_prefix (gs_prefix toy_GCS)" "paths_apart {''a/b'', ''c''}"
    by (auto simp: store_prefix_def toy_S3_def toy_GCS_def paths_apart_def)
qed

theorem artifacts_kept_witness:
  "artifact_list_laws (LocalStore toy_env ''out'') (fs_valid toy_env) (local_view toy_env ''out'')
     shown run_name stays_inside
   \<and> artifact_list_laws (S3_store toy_s3 toy_S3) (\<lambda>_. True) (\<lambda>s run p. map_of s (object_key ''ci'' run p))
       (\<lambda>p. p) plain_name plain_path
   \<and> artifact_list_laws (GCS_store toy_gcs toy_GCS) (\<lambda>_. True) (\<lambda>s run p. map_of s (object_key [] run p))
       (\<lambda>p. p) plain_name plain_path
   \<and> artifact_laws (Artifactory_store toy_art toy_a) (\<lambda>s. no_folders {''a/b'', ''c''} (map_of s))
       (\<lambda>s run p. map_of s (run @ ''/'' @ p)) (\<lambda>p. p) plain_name (\<lambda>p. p \<in> {''a/b'', ''c''})
   \<and> fst (S3_List toy_s3 toy_S3 ''r1'' (snd (S3_Upload toy_s3 toy_S3 ''r1'' ''a/b'' (text_reader ''x'') [])))
       = Inr [''a/b'']"
proof -
  have l: "fst (S3_List toy_s3 toy_S3 ''r1'' (snd (S3_Upload toy_s3 toy_S3 ''r1'' ''a/b'' (text_reader ''x'') [])))
      = Inr [''a/b'']" by code_simp
  have pre: "s3_prefix toy_S3 = ''ci''" "gs_prefix toy_GCS = []" by (simp_all add: toy_S3_def toy_GCS_def)
  show ?thesis
    using artifacts_kept [where env = toy_env and base = "''out''" and c = toy_s3 and b = toy_S3 and objs = map_of
        and g = toy_gcs and gb = toy_GCS and gobjs = map_of and h = toy_art
        and a = toy_a and remote = map_of and P = "{''a/b'', ''c''}"] toy_stores_ok toy_prefixes toy_base(2) l
    unfolding pre by blast
qed

end
