(* ===== verification/Workflow.thy ===== *)
theory Workflow
  imports Sdk_Go Filepath
begin

text \<open>
  \<open>internal/workflow\<close>: running a Brazierfile (\<open>executor.go\<close>) and loading workflows from a git repository
  (\<open>loader.go\<close>), and the end of the programs they run (\<open>Run\<close> and \<open>RunWorkflow\<close> of the SDK). The host,
  with its clock, its files and its child processes, is a parameter, as is the protobuf encoding.
\<close>

section \<open>The host\<close>

text \<open>A context is its deadline in seconds, if it has one; \<open>context.WithTimeout\<close> can only bring it forward.\<close>

type_synonym deadline = "int option"

definition WithTimeout :: "int \<Rightarrow> int \<Rightarrow> deadline \<Rightarrow> deadline" where
  "WithTimeout now d ctx = Some (case ctx of None \<Rightarrow> now + d | Some t \<Rightarrow> min t (now + d))"

datatype stat_result = Stat_found | Stat_not_exist | Stat_failed

text \<open>An \<open>exec.Cmd\<close>: the context it was made with, its arguments, its directory (empty: the current one).\<close>

record exec_cmd =
  ec_ctx :: deadline
  ec_args :: "string list"
  ec_Dir :: string

text \<open>\<open>Run\<close> of a command gives what it wrote to stdout, and an error unless it ended with status 0.\<close>

record 's host =
  h_now :: "'s \<Rightarrow> int"
  h_Stat :: "string \<Rightarrow> 's \<Rightarrow> stat_result"
  h_Run :: "exec_cmd \<Rightarrow> 's \<Rightarrow> (string \<times> go_error option) \<times> 's"

section \<open>The programs that are run\<close>

text \<open>
  What a process has done when it exits: its two streams and its status. \<open>write\<close> says how a write to
  stdout goes: after how many bytes it fails, and how.
\<close>

record process_end =
  pe_stdout :: string
  pe_stderr :: string
  pe_status :: nat

definition sdk_Run ::
  "(PipelineSpec \<Rightarrow> string result) \<Rightarrow> (string \<Rightarrow> (nat \<times> string) option) \<Rightarrow> (go_error \<Rightarrow> string) \<Rightarrow> Pipeline \<Rightarrow> process_end"
where
  "sdk_Run marshal write Error p =
     (case marshal p of
        Inl e \<Rightarrow> \<lparr>pe_stdout = [], pe_stderr = ''brazier: marshal: '' @ Error e @ [CHR 0x0A], pe_status = 1\<rparr>
      | Inr b \<Rightarrow>
          (case write b of
             Some (n, m) \<Rightarrow>
               \<lparr>pe_stdout = take n b, pe_stderr = ''brazier: write stdout: '' @ m @ [CHR 0x0A], pe_status = 1\<rparr>
           | None \<Rightarrow> \<lparr>pe_stdout = b, pe_stderr = [], pe_status = 0\<rparr>))"

definition sdk_RunWorkflow ::
  "(WorkflowDAG \<Rightarrow> string result) \<Rightarrow> (string \<Rightarrow> (nat \<times> string) option) \<Rightarrow> (go_error \<Rightarrow> string) \<Rightarrow> WorkflowDAG \<Rightarrow> process_end"
where
  "sdk_RunWorkflow marshal write Error w =
     (case marshal w of
        Inl e \<Rightarrow>
          \<lparr>pe_stdout = [], pe_stderr = ''brazier: marshal workflow: '' @ Error e @ [CHR 0x0A], pe_status = 1\<rparr>
      | Inr b \<Rightarrow>
          (case write b of
             Some (n, m) \<Rightarrow>
               \<lparr>pe_stdout = take n b, pe_stderr = ''brazier: write stdout: '' @ m @ [CHR 0x0A], pe_status = 1\<rparr>
           | None \<Rightarrow> \<lparr>pe_stdout = b, pe_stderr = [], pe_status = 0\<rparr>))"

section \<open>Brazierfiles\<close>

text \<open>The candidates in the order in which they are tried.\<close>

definition candidates :: "(string \<times> string) list" where
  "candidates = [(''Brazierfile.go'', ''go''), (''Brazierfile.ts'', ''ts'')]"

fun detect_in :: "'s host \<Rightarrow> string \<Rightarrow> 's \<Rightarrow> (string \<times> string) list \<Rightarrow> (string \<times> string) result" where
  "detect_in h dir s [] = Inl (Errorf ''no Brazierfile.go or Brazierfile.ts found in %s'' [dir])"
| "detect_in h dir s ((name, lang) # cs) =
     (let p = Join [dir, name] in
      if h_Stat h p s = Stat_found then Inr (p, lang) else detect_in h dir s cs)"

definition detectBrazierfile :: "'s host \<Rightarrow> string \<Rightarrow> 's \<Rightarrow> (string \<times> string) result" where
  "detectBrazierfile h dir s = detect_in h dir s candidates"

text \<open>
  The command is made with the context of the caller. The context with the timeout of 30 seconds is
  made after it, and nothing uses it.
\<close>

definition ExecBrazierfile ::
  "'s host \<Rightarrow> (string \<Rightarrow> PipelineSpec result) \<Rightarrow> deadline \<Rightarrow> string \<Rightarrow> 's \<Rightarrow> PipelineSpec result \<times> 's" where
  "ExecBrazierfile h unmarshal ctx dir s =
     (case detectBrazierfile h dir s of
        Inl e \<Rightarrow> (Inl e, s)
      | Inr (path, lang) \<Rightarrow>
          (let args = (if lang = ''go'' then Some [''go'', ''run'', path]
                       else if lang = ''ts'' then Some [''npx'', ''ts-node'', path] else None) in
           case args of
             None \<Rightarrow> (Inl (Errorf ''unsupported brazierfile language: %s'' [lang]), s)
           | Some args \<Rightarrow>
               (case h_Run h \<lparr>ec_ctx = ctx, ec_args = args, ec_Dir = dir\<rparr> s of
                  ((stdout, Some e), s1) \<Rightarrow> (Inl (Wrapf ''exec brazierfile'' [] e), s1)
                | ((stdout, None), s1) \<Rightarrow>
                    (case unmarshal stdout of
                       Inl e \<Rightarrow> (Inl (Wrapf ''unmarshal pipeline spec'' [] e), s1)
                     | Inr spec \<Rightarrow> (Inr spec, s1)))))"

section \<open>The loader of workflows\<close>

record Loader =
  ld_repoURL :: string
  ld_cacheDir :: string
  ld_cache :: "string \<Rightarrow> WorkflowDAG option"

definition NewLoader :: "string \<Rightarrow> string \<Rightarrow> Loader" where
  "NewLoader repoURL cacheDir = \<lparr>ld_repoURL = repoURL, ld_cacheDir = cacheDir, ld_cache = Map.empty\<rparr>"

definition repo_dest :: "Loader \<Rightarrow> string" where
  "repo_dest l = Join [ld_cacheDir l, ''workflows'']"

text \<open>A \<open>git\<close> command of \<open>ensureRepo\<close>, whose output is of no use.\<close>

definition git_run :: "'s host \<Rightarrow> deadline \<Rightarrow> string list \<Rightarrow> 's \<Rightarrow> unit result \<times> 's" where
  "git_run h ctx args s =
     (case h_Run h \<lparr>ec_ctx = ctx, ec_args = ''git'' # args, ec_Dir = []\<rparr> s of
        ((_, Some e), s1) \<Rightarrow> (Inl e, s1)
      | ((_, None), s1) \<Rightarrow> (Inr (), s1))"

definition fetch_repo :: "'s host \<Rightarrow> Loader \<Rightarrow> deadline \<Rightarrow> 's \<Rightarrow> unit result \<times> 's" where
  "fetch_repo h l ctx s =
     (if h_Stat h (Join [repo_dest l, ''.git'']) s = Stat_not_exist then
        (case git_run h ctx [''clone'', ''--no-tags'', ld_repoURL l, repo_dest l] s of
           (Inl e, s1) \<Rightarrow> (Inl (Wrapf ''git clone'' [] e), s1)
         | (Inr _, s1) \<Rightarrow> (Inr (), s1))
      else
        (case git_run h ctx [''-C'', repo_dest l, ''fetch'', ''--tags'', ''origin''] s of
           (Inl e, s1) \<Rightarrow> (Inl (Wrapf ''git fetch'' [] e), s1)
         | (Inr _, s1) \<Rightarrow> (Inr (), s1)))"

definition ensureRepo :: "'s host \<Rightarrow> Loader \<Rightarrow> deadline \<Rightarrow> string \<Rightarrow> 's \<Rightarrow> string result \<times> 's" where
  "ensureRepo h l ctx0 version s =
     (let ctx = WithTimeout (h_now h s) (2 * 60) ctx0 in
      case fetch_repo h l ctx s of
        (Inl e, s1) \<Rightarrow> (Inl e, s1)
      | (Inr _, s1) \<Rightarrow>
          (case git_run h ctx [''-C'', repo_dest l, ''checkout'', version] s1 of
             (Inl e, s2) \<Rightarrow> (Inl (Wrapf ''git checkout %s'' [version] e), s2)
           | (Inr _, s2) \<Rightarrow> (Inr (repo_dest l), s2)))"

definition execWorkflow ::
  "'s host \<Rightarrow> (string \<Rightarrow> WorkflowDAG result) \<Rightarrow> deadline \<Rightarrow> string \<Rightarrow> string \<Rightarrow> 's \<Rightarrow> WorkflowDAG result \<times> 's"
where
  "execWorkflow h unmarshal ctx0 repoDir name s =
     (let wfFile = Join [repoDir, name @ ''.go''] in
      if h_Stat h wfFile s \<noteq> Stat_found then (Inl (Errorf ''workflow file not found: %s'' [wfFile]), s)
      else
        (let ctx = WithTimeout (h_now h s) 30 ctx0 in
         case h_Run h \<lparr>ec_ctx = ctx, ec_args = [''go'', ''run'', wfFile], ec_Dir = repoDir\<rparr> s of
           ((stdout, Some e), s1) \<Rightarrow> (Inl (Wrapf ''exec workflow %s'' [name] e), s1)
         | ((stdout, None), s1) \<Rightarrow>
             (case unmarshal stdout of
                Inl e \<Rightarrow> (Inl (Wrapf ''unmarshal workflow dag'' [] e), s1)
              | Inr dag \<Rightarrow> (Inr dag, s1))))"

text \<open>
  \<open>Load\<close> holds its lock only around the two uses of the cache, so calls may overlap between its four
  steps: the look into the cache, the checkout, the execution, the entry in the cache.
\<close>

definition cache_key :: "string \<Rightarrow> string \<Rightarrow> string" where
  "cache_key name version = name @ ''@'' @ version"

definition Load_store :: "string \<Rightarrow> string \<Rightarrow> WorkflowDAG \<Rightarrow> Loader \<Rightarrow> Loader" where
  "Load_store name version dag l = l\<lparr>ld_cache := (ld_cache l)(cache_key name version \<mapsto> dag)\<rparr>"

definition Load ::
  "'s host \<Rightarrow> (string \<Rightarrow> WorkflowDAG result) \<Rightarrow> deadline \<Rightarrow> string \<Rightarrow> string \<Rightarrow> Loader \<times> 's \<Rightarrow>
   WorkflowDAG result \<times> Loader \<times> 's" where
  "Load h unmarshal ctx name version = (\<lambda>(l, s).
     (case ld_cache l (cache_key name version) of
        Some dag \<Rightarrow> (Inr dag, l, s)
      | None \<Rightarrow>
          (case ensureRepo h l ctx version s of
             (Inl e, s1) \<Rightarrow> (Inl e, l, s1)
           | (Inr repoDir, s1) \<Rightarrow>
               (case execWorkflow h unmarshal ctx repoDir name s1 of
                  (Inl e, s2) \<Rightarrow> (Inl e, l, s2)
                | (Inr dag, s2) \<Rightarrow> (Inr dag, Load_store name version dag l, s2)))))"

end
