(* ===== verification/Workflow_Props.thy ===== *)
theory Workflow_Props
  imports Workflow Plain_Names
begin

text \<open>
  What loading a workflow and running a Brazierfile give, what they run and for how long they let it
  run, and where the loader goes wrong.
\<close>

section \<open>What is loaded\<close>

text \<open>
  What \<open>git\<close> and \<open>go\<close> document, for a version of the usual form (\<open>version_ok\<close>: no option, not \<open>HEAD\<close>) that names one
  commit for good and no file of the repository (\<open>pinned\<close>), and a workflow with a plain name: a checkout that
  succeeds makes the work tree that of the version, and \<open>go run\<close> of a file in it, named by its absolute path, that ends
  with status 0 has written something that the program in that file can write (\<open>writes\<close>). Nothing else
  changes the files of the checkout, the workflows included.
\<close>

definition version_ok :: "string \<Rightarrow> bool" where
  "version_ok v \<longleftrightarrow> plain_segment v \<and> hd v \<noteq> CHR ''-'' \<and> v \<noteq> ''HEAD''"

definition git_ok ::
  "'s host \<Rightarrow> string \<Rightarrow> (string \<Rightarrow> bool) \<Rightarrow> ('s \<Rightarrow> string option) \<Rightarrow> (string \<Rightarrow> string \<Rightarrow> string \<Rightarrow> bool) \<Rightarrow> bool" where
  "git_ok h dest pinned worktree writes \<longleftrightarrow>
     (\<forall>ctx v s out s'. version_ok v \<and> pinned v
        \<and> h_Run h \<lparr>ec_ctx = ctx, ec_args = [''git'', ''-C'', dest, ''checkout'', v], ec_Dir = []\<rparr> s = ((out, None), s')
        \<longrightarrow> worktree s' = Some v)
   \<and> (\<forall>ctx v name s out s'. version_ok v \<and> pinned v \<and> plain_name name \<and> rooted dest \<and> worktree s = Some v
        \<and> h_Run h \<lparr>ec_ctx = ctx, ec_args = [''go'', ''run'', Join [dest, name @ ''.go'']], ec_Dir = dest\<rparr> s
            = ((out, None), s')
        \<longrightarrow> writes v name out)"

lemma git_checkout:
  "git_ok h dest pinned worktree writes \<Longrightarrow> version_ok v \<Longrightarrow> pinned v \<Longrightarrow>
     h_Run h \<lparr>ec_ctx = ctx, ec_args = [''git'', ''-C'', dest, ''checkout'', v], ec_Dir = []\<rparr> s = ((out, None), s') \<Longrightarrow>
     worktree s' = Some v"
  unfolding git_ok_def by blast

lemma git_go_run:
  "git_ok h dest pinned worktree writes \<Longrightarrow> version_ok v \<Longrightarrow> pinned v \<Longrightarrow> plain_name name \<Longrightarrow> rooted dest \<Longrightarrow>
     worktree s = Some v \<Longrightarrow>
     h_Run h \<lparr>ec_ctx = ctx, ec_args = [''go'', ''run'', Join [dest, name @ ''.go'']], ec_Dir = dest\<rparr> s = ((out, None), s') \<Longrightarrow>
     writes v name out"
  unfolding git_ok_def by blast

definition dag_of ::
  "(string \<Rightarrow> string \<Rightarrow> string \<Rightarrow> bool) \<Rightarrow> (string \<Rightarrow> WorkflowDAG result) \<Rightarrow> string \<Rightarrow> string \<Rightarrow> WorkflowDAG \<Rightarrow> bool" where
  "dag_of writes unmarshal name version dag \<longleftrightarrow> (\<exists>out. writes version name out \<and> unmarshal out = Inr dag)"

text \<open>A cached entry is a DAG of its name and version, for these names and versions.\<close>

definition cache_ok ::
  "(string \<Rightarrow> bool) \<Rightarrow> (string \<Rightarrow> string \<Rightarrow> string \<Rightarrow> bool) \<Rightarrow> (string \<Rightarrow> WorkflowDAG result) \<Rightarrow> Loader \<Rightarrow> bool" where
  "cache_ok pinned writes unmarshal l \<longleftrightarrow>
     (\<forall>name version dag. plain_name name \<and> version_ok version \<and> pinned version
        \<and> ld_cache l (cache_key name version) = Some dag \<longrightarrow> dag_of writes unmarshal name version dag)"

lemma plain_name_at: "plain_name s \<Longrightarrow> CHR ''@'' \<notin> set s"
  by (auto simp: plain_name_def list_all_iff name_char_def)

lemma cache_key_inj:
  "CHR ''@'' \<notin> set a \<Longrightarrow> CHR ''@'' \<notin> set b \<Longrightarrow> cache_key a v = cache_key b w \<longleftrightarrow> a = b \<and> v = w"
  unfolding cache_key_def by (induction a arbitrary: b) (case_tac b; auto)+

text \<open>A name with \<open>..\<close> runs a file outside of the checkout: the name goes into the path as it is.\<close>

lemma workflow_file_escapes: "Join [''/var/cache/workflows'', ''../../evil'' @ ''.go''] = ''/var/evil.go''"
  by code_simp

text \<open>A name with an at sign collides.\<close>

lemma cache_key_collision: "cache_key ''deploy'' ''v1@rc'' = cache_key ''deploy@v1'' ''rc''"
  by (simp add: cache_key_def)

lemma git_run_Inr:
  "git_run h ctx args s = (Inr u, s1) \<Longrightarrow>
     \<exists>out. h_Run h \<lparr>ec_ctx = ctx, ec_args = ''git'' # args, ec_Dir = []\<rparr> s = ((out, None), s1)"
  by (auto simp: git_run_def split: prod.splits option.splits)

lemma ensureRepo_Inr:
  assumes "ensureRepo h l ctx version s = (Inr dest, s1)" and "git_ok h (repo_dest l) pinned worktree writes"
    and "version_ok version" and "pinned version"
  shows "dest = repo_dest l \<and> worktree s1 = Some version"
proof -
  obtain t u ctx' where "dest = repo_dest l"
      and "git_run h ctx' [''-C'', repo_dest l, ''checkout'', version] t = (Inr u, s1)"
    using assms(1) by (auto simp: ensureRepo_def Let_def split: prod.splits sum.splits)
  then show ?thesis using git_run_Inr git_checkout [OF assms(2-4)] by metis
qed

lemma execWorkflow_Inr:
  assumes "execWorkflow h unmarshal ctx (repo_dest l) name s = (Inr dag, s1)"
    and "git_ok h (repo_dest l) pinned worktree writes" and "version_ok version" and "pinned version"
    and "plain_name name" and "rooted (repo_dest l)" and "worktree s = Some version"
  shows "dag_of writes unmarshal name version dag"
proof -
  obtain ctx' out where "h_Run h \<lparr>ec_ctx = ctx', ec_args = [''go'', ''run'', Join [repo_dest l, name @ ''.go'']],
        ec_Dir = repo_dest l\<rparr> s = ((out, None), s1)" and "unmarshal out = Inr dag"
    using assms(1) by (auto simp: execWorkflow_def Let_def split: prod.splits option.splits sum.splits if_splits)
  then show ?thesis
    using git_go_run [OF assms(2-7)] unfolding dag_of_def by blast
qed

text \<open>
  Property C38: calls of \<open>Load\<close> one after the other give the right DAG. If \<open>git\<close> and \<open>go\<close> do as they document, for
  a name of letters, digits, hyphens and underscores and a version that names one commit for good (not a
  branch, \<open>HEAD\<close>, an option or a file), with an absolute cache directory whose files nothing else
  changes, and from a cache whose entries are right: a DAG that \<open>Load\<close> returns is one that the
  workflow file of that name writes at that version, the entries of the cache stay right, a later \<open>Load\<close> of the same
  name and version gives it again without running anything, and an error leaves the cache as it was.
\<close>

theorem Load_sound:
  assumes "git_ok h (repo_dest l) pinned worktree writes" and "rooted (ld_cacheDir l)"
    and "cache_ok pinned writes unmarshal l" and "plain_name name" and "version_ok version" and "pinned version"
    and "Load h unmarshal ctx name version (l, s) = (q, l', s')"
  shows "cache_ok pinned writes unmarshal l'
    \<and> (\<forall>dag. q = Inr dag \<longrightarrow> (\<exists>out. writes version name out \<and> unmarshal out = Inr dag)
         \<and> (\<forall>ctx2 s2. Load h unmarshal ctx2 name version (l', s2) = (Inr dag, l', s2)))
    \<and> (\<forall>e. q = Inl e \<longrightarrow> l' = l)"
proof (cases "ld_cache l (cache_key name version)")
  case (Some dag)
  then have "q = Inr dag" "l' = l" using assms(7) by (simp_all add: Load_def)
  moreover have "dag_of writes unmarshal name version dag"
    using assms(3-6) Some unfolding cache_ok_def by blast
  ultimately show ?thesis using assms(3) Some by (simp add: Load_def dag_of_def)
next
  case None
  obtain q1 s1 where e: "ensureRepo h l ctx version s = (q1, s1)" by (metis surj_pair)
  have root: "rooted (repo_dest l)"
    using assms(2) Join_name(2) [of "''workflows''" "ld_cacheDir l"] by (simp add: repo_dest_def plain_def)
  show ?thesis
  proof (cases q1)
    case (Inl er)
    then show ?thesis using assms(3,7) None e by (auto simp: Load_def)
  next
    case (Inr dest)
    have at: "dest = repo_dest l" "worktree s1 = Some version"
      using ensureRepo_Inr [OF e [unfolded Inr] assms(1,5,6)] by simp_all
    obtain q2 s2 where x: "execWorkflow h unmarshal ctx (repo_dest l) name s1 = (q2, s2)" by (metis surj_pair)
    show ?thesis
    proof (cases q2)
      case (Inl er)
      then show ?thesis using assms(3,7) None e \<open>q1 = Inr dest\<close> at x by (auto simp: Load_def)
    next
      case (Inr dag)
      then have q: "q = Inr dag" "l' = Load_store name version dag l"
        using assms(7) None e \<open>q1 = Inr dest\<close> at x by (simp_all add: Load_def)
      have d: "dag_of writes unmarshal name version dag"
        by (rule execWorkflow_Inr [OF x [unfolded Inr] assms(1,5,6,4) root at(2)])
      have key: "cache_key n v = cache_key name version \<longleftrightarrow> n = name \<and> v = version" if "plain_name n" for n v
        using that assms(4) by (simp add: cache_key_inj plain_name_at)
      have "cache_ok pinned writes unmarshal l'"
        using assms(3) d by (auto simp: cache_ok_def q(2) Load_store_def key)
      then show ?thesis using q d by (simp add: Load_def Load_store_def dag_of_def)
    qed
  qed
qed

section \<open>A host for examples\<close>

text \<open>
  A remote repository with one workflow at two tags. The state is what has been cloned: the references
  that are known and the version in the work tree. Programs write the name of the version.
\<close>

record toy_git =
  tg_clone :: "(string list \<times> string) option"
  tg_time :: int

fun toy_git_cmd :: "string list \<Rightarrow> (string list \<times> string) option \<Rightarrow> go_error option \<times> (string list \<times> string) option" where
  "toy_git_cmd [g, c, n, url, dest] st =
     (if c = ''clone'' then (None, Some ([''main''], ''main''))
      else (case st of
              None \<Rightarrow> (Some (DriverErr ''exit status 128''), st)
            | Some (refs, cur) \<Rightarrow>
                if url = ''checkout'' \<and> dest \<in> set refs then (None, Some (refs, dest))
                else (Some (DriverErr ''exit status 1''), st)))"
| "toy_git_cmd [g, c, d, f, t, orig] st = (None, map_option (\<lambda>(refs, cur). ([''main'', ''v1'', ''v2''], cur)) st)"
| "toy_git_cmd _ st = (Some (DriverErr ''usage''), st)"

definition toy_host :: "toy_git host" where
  "toy_host =
     \<lparr>h_now = tg_time,
      h_Stat = (\<lambda>p s. if tg_clone s = None then Stat_not_exist else Stat_found),
      h_Run = (\<lambda>c s.
        if take 1 (ec_args c) = [''git''] then
          (case toy_git_cmd (ec_args c) (tg_clone s) of
             (e, st) \<Rightarrow> (([], e), s\<lparr>tg_clone := st, tg_time := tg_time s + 1\<rparr>))
        else (case tg_clone s of
                None \<Rightarrow> (([], Some (DriverErr ''exit status 1'')), s)
              | Some (refs, cur) \<Rightarrow> ((cur, None), s\<lparr>tg_time := tg_time s + 1\<rparr>)))\<rparr>"

definition toy_loader :: Loader where
  "toy_loader = NewLoader ''https://git/wf'' ''/var/cache''"

definition toy_unmarshal :: "string \<Rightarrow> WorkflowDAG result" where
  "toy_unmarshal out = Inr \<lparr>wd_Name = ''build'', wd_Version = out, wd_Nodes = []\<rparr>"

definition toy_start :: toy_git where
  "toy_start = \<lparr>tg_clone = None, tg_time = 0\<rparr>"

definition toy_cloned :: toy_git where
  "toy_cloned = \<lparr>tg_clone = Some ([''main''], ''main''), tg_time = 0\<rparr>"

lemma toy_git_ok: "git_ok toy_host dest pinned (\<lambda>s. map_option snd (tg_clone s)) (\<lambda>v n out. out = v)"
  unfolding git_ok_def toy_host_def by (auto split: prod.splits option.splits if_splits)

theorem Load_sound_witness:
  "cache_ok (\<lambda>v. v \<in> {''v1'', ''v2''}) (\<lambda>v n out. out = v) toy_unmarshal
     (fst (snd (Load toy_host toy_unmarshal None ''build'' ''v1'' (toy_loader, toy_cloned))))
   \<and> fst (Load toy_host toy_unmarshal None ''build'' ''v1'' (toy_loader, toy_cloned))
     = Inr \<lparr>wd_Name = ''build'', wd_Version = ''v1'', wd_Nodes = []\<rparr>"
proof -
  have c: "cache_ok (\<lambda>v. v \<in> {''v1'', ''v2''}) (\<lambda>v n out. out = v) toy_unmarshal toy_loader"
    by (simp add: cache_ok_def toy_loader_def NewLoader_def)
  have r: "rooted (ld_cacheDir toy_loader)" by code_simp
  have n: "plain_name ''build''" "version_ok ''v1''" by code_simp+
  have p: "''v1'' \<in> {''v1'', ''v2''}" by simp
  obtain q l s where x: "Load toy_host toy_unmarshal None ''build'' ''v1'' (toy_loader, toy_cloned) = (q, l, s)"
    by (metis surj_pair)
  have "fst (Load toy_host toy_unmarshal None ''build'' ''v1'' (toy_loader, toy_cloned))
      = Inr \<lparr>wd_Name = ''build'', wd_Version = ''v1'', wd_Nodes = []\<rparr>" by code_simp
  then show ?thesis using Load_sound [OF toy_git_ok r c n p x] x by simp
qed

section \<open>Where the loader goes wrong\<close>

text \<open>
  Overlapping calls of \<open>Load\<close> cache the wrong DAG. All versions share one work tree, and no
  lock covers the time from the checkout to the execution: when a call for \<open>v2\<close> checks out in between,
  the call for \<open>v1\<close> runs the file of \<open>v2\<close>, returns it, and leaves it in the cache, where every later
  \<open>Load\<close> of \<open>v1\<close> finds it.
\<close>

lemma Load_overlap_wrong_version:
  "let v1 = ''v1''; v2 = ''v2'';
       s0 = toy_cloned\<lparr>tg_clone := Some ([''main'', v1, v2], ''main'')\<rparr>;
       (dest1, s1) = ensureRepo toy_host toy_loader None v1 s0;
       (dest2, s2) = ensureRepo toy_host toy_loader None v2 s1;
       (dag, s3) = execWorkflow toy_host toy_unmarshal None (projr dest1) ''build'' s2;
       l = Load_store ''build'' v1 (projr dag) toy_loader
   in dest1 = dest2
    \<and> fst (Load toy_host toy_unmarshal None ''build'' v1 (toy_loader, s0))
        = Inr \<lparr>wd_Name = ''build'', wd_Version = v1, wd_Nodes = []\<rparr>
    \<and> fst (Load toy_host toy_unmarshal None ''build'' v1 (l, s3))
        = Inr \<lparr>wd_Name = ''build'', wd_Version = v2, wd_Nodes = []\<rparr>"
  by code_simp

text \<open>
  What \<open>git\<close> documents of references: a clone without tags knows what such a clone of the remote can
  resolve, and a checkout only succeeds for what is known.
\<close>

definition git_refs_ok :: "'s host \<Rightarrow> string \<Rightarrow> string \<Rightarrow> ('s \<Rightarrow> string set) \<Rightarrow> string set \<Rightarrow> bool" where
  "git_refs_ok h url dest known untagged \<longleftrightarrow>
     (\<forall>ctx s out s'. h_Run h \<lparr>ec_ctx = ctx, ec_args = [''git'', ''clone'', ''--no-tags'', url, dest], ec_Dir = []\<rparr> s
          = ((out, None), s') \<longrightarrow> known s' = untagged)
   \<and> (\<forall>ctx v s out s'. h_Run h \<lparr>ec_ctx = ctx, ec_args = [''git'', ''-C'', dest, ''checkout'', v], ec_Dir = []\<rparr> s
          = ((out, None), s') \<longrightarrow> v \<in> known s)"

lemmas git_clone_known = git_refs_ok_def [THEN iffD1, THEN conjunct1, rule_format]
lemmas git_checkout_known = git_refs_ok_def [THEN iffD1, THEN conjunct2, rule_format]

text \<open>
  The first \<open>Load\<close> of a tagged version fails. The repository is cloned without its tags, and
  they are only fetched when it is there already: when nothing has been cloned yet, a version that a
  clone without tags cannot resolve is answered with an error, whatever the remote has.
\<close>

lemma Load_tag_fails_at_first:
  assumes "git_refs_ok h (ld_repoURL l) (repo_dest l) known untagged"
    and "h_Stat h (Join [repo_dest l, ''.git'']) s = Stat_not_exist"
    and "version \<notin> untagged" and "ld_cache l (cache_key name version) = None"
  shows "\<exists>e s'. Load h unmarshal ctx name version (l, s) = (Inl e, l, s')"
proof -
  have "\<exists>e s'. ensureRepo h l ctx version s = (Inl e, s')"
  proof (cases "\<exists>dest s'. ensureRepo h l ctx version s = (Inr dest, s')")
    case True
    then obtain dest s' where en: "ensureRepo h l ctx version s = (Inr dest, s')" by blast
    then obtain s1 u u' ctx' where f: "fetch_repo h l ctx' s = (Inr u, s1)"
        and c: "git_run h ctx' [''-C'', repo_dest l, ''checkout'', version] s1 = (Inr u', s')"
      by (auto simp: ensureRepo_def Let_def split: prod.splits sum.splits)
    obtain u'' where "git_run h ctx' [''clone'', ''--no-tags'', ld_repoURL l, repo_dest l] s = (Inr u'', s1)"
      using f assms(2) by (auto simp: fetch_repo_def split: prod.splits sum.splits)
    then have "known s1 = untagged" using git_run_Inr git_clone_known [OF assms(1)] by metis
    moreover have "version \<in> known s1" using git_run_Inr [OF c] git_checkout_known [OF assms(1)] by metis
    ultimately show ?thesis using assms(3) by simp
  next
    case False
    then show ?thesis by (metis old.sum.exhaust surj_pair)
  qed
  then show ?thesis using assms(4) by (auto simp: Load_def)
qed

lemma toy_refs_ok:
  "git_refs_ok toy_host url dest (\<lambda>s. case tg_clone s of None \<Rightarrow> {} | Some (refs, cur) \<Rightarrow> set refs) {''main''}"
  unfolding git_refs_ok_def toy_host_def by (auto split: prod.splits option.splits if_splits)

text \<open>The second attempt fetches the tags, and succeeds.\<close>

lemma Load_tag_fails_at_first_witness:
  "(\<exists>e l s'. Load toy_host toy_unmarshal None ''build'' ''v1'' (toy_loader, toy_start) = (Inl e, l, s'))
   \<and> fst (Load toy_host toy_unmarshal None ''build'' ''v1''
       (snd (Load toy_host toy_unmarshal None ''build'' ''v1'' (toy_loader, toy_start))))
     = Inr \<lparr>wd_Name = ''build'', wd_Version = ''v1'', wd_Nodes = []\<rparr>"
proof
  have "h_Stat toy_host (Join [repo_dest toy_loader, ''.git'']) toy_start = Stat_not_exist"
    "ld_cache toy_loader (cache_key ''build'' ''v1'') = None" "''v1'' \<notin> {''main''}"
    by (simp_all add: toy_host_def toy_start_def toy_loader_def NewLoader_def)
  then show "\<exists>e l s'. Load toy_host toy_unmarshal None ''build'' ''v1'' (toy_loader, toy_start) = (Inl e, l, s')"
    using Load_tag_fails_at_first [OF toy_refs_ok, of toy_loader toy_start "''v1''"] by blast
  show "fst (Load toy_host toy_unmarshal None ''build'' ''v1''
       (snd (Load toy_host toy_unmarshal None ''build'' ''v1'' (toy_loader, toy_start))))
     = Inr \<lparr>wd_Name = ''build'', wd_Version = ''v1'', wd_Nodes = []\<rparr>"
    by code_simp
qed

section \<open>Brazierfiles\<close>

lemma detect_in_Inr:
  "detect_in h dir s cs = Inr (path, lang) \<Longrightarrow>
     \<exists>name. (name, lang) \<in> set cs \<and> path = Join [dir, name] \<and> h_Stat h path s = Stat_found"
  by (induction h dir s cs rule: detect_in.induct) (auto simp: Let_def split: if_splits)

lemma detect_Inr:
  assumes "detectBrazierfile h dir s = Inr (path, lang)"
  shows "path = Join [dir, ''Brazierfile.'' @ lang]" and "lang = ''go'' \<or> lang = ''ts''"
    and "h_Stat h path s = Stat_found"
  using detect_in_Inr [OF assms [unfolded detectBrazierfile_def]] by (auto simp: candidates_def)

text \<open>The command that runs a Brazierfile.\<close>

definition brazierfile_cmd :: "deadline \<Rightarrow> string \<Rightarrow> string \<Rightarrow> string \<Rightarrow> exec_cmd" where
  "brazierfile_cmd ctx dir path lang =
     \<lparr>ec_ctx = ctx, ec_args = (if lang = ''go'' then [''go'', ''run'', path] else [''npx'', ''ts-node'', path]),
      ec_Dir = dir\<rparr>"

lemma ExecBrazierfile_found:
  assumes "detectBrazierfile h dir s = Inr (path, lang)"
  shows "ExecBrazierfile h unmarshal ctx dir s =
    (case h_Run h (brazierfile_cmd ctx dir path lang) s of
       ((stdout, Some e), s1) \<Rightarrow> (Inl (Wrapf ''exec brazierfile'' [] e), s1)
     | ((stdout, None), s1) \<Rightarrow>
         (case unmarshal stdout of
            Inl e \<Rightarrow> (Inl (Wrapf ''unmarshal pipeline spec'' [] e), s1)
          | Inr spec \<Rightarrow> (Inr spec, s1)))"
  using detect_Inr(2) [OF assms] by (auto simp: ExecBrazierfile_def assms brazierfile_cmd_def)

text \<open>
  A pipeline comes out of its Brazierfile as it was built. When a Brazierfile is found and
  its process ends as \<open>Run\<close> of the SDK ends it, \<open>ExecBrazierfile\<close> gives the pipeline spec that the
  options built, if encoding it and writing it succeeded, and otherwise an error: never a part of it.
  The decoder is only assumed to undo the encoder.
\<close>

lemma Brazierfile_roundtrip:
  assumes "\<And>p b. marshal p = Inr b \<Longrightarrow> unmarshal b = Inr p"
    and "detectBrazierfile h dir s = Inr (path, lang)"
    and "h_Run h (brazierfile_cmd ctx dir path lang) s
      = ((pe_stdout (sdk_Run marshal write msg (NewPipeline opts)),
          if pe_status (sdk_Run marshal write msg (NewPipeline opts)) = 0 then None
          else Some (DriverErr ''exit status 1'')), s1)"
  shows "ExecBrazierfile h unmarshal ctx dir s =
    ((if \<exists>b. marshal (NewPipeline opts) = Inr b \<and> write b = None then Inr (NewPipeline opts)
      else Inl (Wrapf ''exec brazierfile'' [] (DriverErr ''exit status 1''))), s1)"
  unfolding ExecBrazierfile_found [OF assms(2)] assms(3)
  using assms(1) by (auto simp: sdk_Run_def split: sum.splits option.splits)

text \<open>A host with one Brazierfile, whose program builds a pipeline of one job.\<close>

definition toy_pipeline :: "PipelineOption list" where
  "toy_pipeline = UseWorkflow ''build'' ''v1'' # sdk_Nodes [Nodeable_Job (sdk_Job ''test''
     \<lparr>sdk_Commands = [''make''], sdk_Env = [], sdk_Secrets = [], sdk_ArtifactPaths = []\<rparr>)]"

definition toy_marshal :: "PipelineSpec \<Rightarrow> string result" where
  "toy_marshal p = (if p = NewPipeline toy_pipeline then Inr ''spec'' else Inl (DriverErr ''too big''))"

definition toy_spec_of :: "string \<Rightarrow> PipelineSpec result" where
  "toy_spec_of b = (if b = ''spec'' then Inr (NewPipeline toy_pipeline) else Inl (DriverErr ''invalid wire format''))"

definition toy_dir :: "(string \<Rightarrow> (nat \<times> string) option) \<Rightarrow> unit host" where
  "toy_dir write =
     \<lparr>h_now = (\<lambda>_. 0),
      h_Stat = (\<lambda>p _. if p = ''/src/Brazierfile.go'' then Stat_found else Stat_not_exist),
      h_Run = (\<lambda>c s. let r = sdk_Run toy_marshal write (\<lambda>e. ''error'') (NewPipeline toy_pipeline) in
        ((pe_stdout r, if pe_status r = 0 then None else Some (DriverErr ''exit status 1'')), s))\<rparr>"

lemma toy_detect: "detectBrazierfile (toy_dir w) ''/src'' () = Inr (''/src/Brazierfile.go'', ''go'')"
proof -
  have "Join [''/src'', ''Brazierfile.go''] = ''/src/Brazierfile.go''" by code_simp
  then show ?thesis by (simp add: detectBrazierfile_def candidates_def toy_dir_def)
qed

lemma Brazierfile_roundtrip_witness:
  "ExecBrazierfile (toy_dir (\<lambda>_. None)) toy_spec_of None ''/src'' () = (Inr (NewPipeline toy_pipeline), ())
   \<and> ExecBrazierfile (toy_dir (\<lambda>_. Some (2, ''broken pipe''))) toy_spec_of None ''/src'' ()
     = (Inl (Wrapf ''exec brazierfile'' [] (DriverErr ''exit status 1'')), ())"
proof -
  have inv: "\<And>p b. toy_marshal p = Inr b \<Longrightarrow> toy_spec_of b = Inr p"
    by (auto simp: toy_marshal_def toy_spec_of_def split: if_splits)
  have run: "h_Run (toy_dir w) c () = ((pe_stdout (sdk_Run toy_marshal w (\<lambda>e. ''error'') (NewPipeline toy_pipeline)),
      if pe_status (sdk_Run toy_marshal w (\<lambda>e. ''error'') (NewPipeline toy_pipeline)) = 0 then None
      else Some (DriverErr ''exit status 1'')), ())" for w c
    by (simp add: toy_dir_def Let_def)
  have m: "toy_marshal (NewPipeline toy_pipeline) = Inr ''spec''" by (simp add: toy_marshal_def)
  show ?thesis
    using Brazierfile_roundtrip [OF inv toy_detect run [of "\<lambda>_. None" "brazierfile_cmd None ''/src'' ''/src/Brazierfile.go'' ''go''"]]
      Brazierfile_roundtrip [OF inv toy_detect
        run [of "\<lambda>_. Some (2, ''broken pipe'')" "brazierfile_cmd None ''/src'' ''/src/Brazierfile.go'' ''go''"]]
    by (simp add: m)
qed

section \<open>What is run\<close>

text \<open>A host that keeps a list of the commands it is given, each with the time at which it starts.\<close>

definition logged :: "'s host \<Rightarrow> ((int \<times> exec_cmd) list \<times> 's) host" where
  "logged h =
     \<lparr>h_now = (\<lambda>(cs, s). h_now h s),
      h_Stat = (\<lambda>p (cs, s). h_Stat h p s),
      h_Run = (\<lambda>c (cs, s). case h_Run h c s of (r, s') \<Rightarrow> (r, cs @ [(h_now h s, c)], s'))\<rparr>"

lemma logged_simps [simp]:
  "h_now (logged h) (cs, s) = h_now h s" "h_Stat (logged h) p (cs, s) = h_Stat h p s"
  "h_Run (logged h) c (cs, s) = (fst (h_Run h c s), cs @ [(h_now h s, c)], snd (h_Run h c s))"
  by (simp_all add: logged_def split: prod.splits)

lemma detect_logged: "detectBrazierfile (logged h) dir (cs, s) = detectBrazierfile h dir s"
proof -
  have "detect_in (logged h) dir (cs, s) ds = detect_in h dir s ds" for ds
    by (induction ds) (auto simp: Let_def)
  then show ?thesis by (simp add: detectBrazierfile_def)
qed

lemma ExecBrazierfile_logged:
  assumes "ExecBrazierfile (logged h) unmarshal ctx dir (cs, s) = (q, cs', s')"
  shows "case detectBrazierfile h dir s of
      Inl e \<Rightarrow> cs' = cs
    | Inr (path, lang) \<Rightarrow> cs' = cs @ [(h_now h s, brazierfile_cmd ctx dir path lang)]"
proof (cases "detectBrazierfile h dir s")
  case (Inl e)
  then show ?thesis using assms by (simp add: ExecBrazierfile_def detect_logged)
next
  case (Inr pl)
  obtain path lang where pl: "pl = (path, lang)" by (cases pl)
  have "detectBrazierfile (logged h) dir (cs, s) = Inr (path, lang)" using Inr pl by (simp add: detect_logged)
  from assms [unfolded ExecBrazierfile_found [OF this]] show ?thesis
    using Inr pl by (auto split: prod.splits option.splits sum.splits)
qed

text \<open>The file that a command names is looked up in the directory in which it runs.\<close>

definition file_run :: "string list \<Rightarrow> exec_cmd \<Rightarrow> string list" where
  "file_run cwd c = resolve (resolve cwd (ec_Dir c)) (last (ec_args c))"

text \<open>
  A Brazierfile in a relative directory is not the file that is run. The path that was found
  has the directory in front, and the command is given the directory to run in as well, so it names
  the file twice below it: for a directory that does not climb, the file that is run is the one that
  was found exactly when the directory is an absolute path or the current one.
\<close>

lemma Brazierfile_relative_dir:
  assumes "detectBrazierfile h dir s = Inr (path, lang)" and "''..'' \<notin> set (path_comps dir)"
    and "ExecBrazierfile (logged h) unmarshal ctx dir ([], s) = (q, cs, s')"
  shows "\<exists>t c. cs = [(t, c)] \<and> (file_run cwd c = resolve cwd path \<longleftrightarrow> rooted dir \<or> path_comps dir = [])"
proof -
  define c where "c = brazierfile_cmd ctx dir path lang"
  have cs: "cs = [(h_now h s, c)]" using ExecBrazierfile_logged [OF assms(3)] assms(1) by (simp add: c_def)
  have p: "path = Join [dir, ''Brazierfile.'' @ lang]" "plain (''Brazierfile.'' @ lang)"
    using detect_Inr [OF assms(1)] by (auto simp: plain_def)
  have r: "resolve w path = (if rooted dir then [] else w) @ path_comps dir @ [''Brazierfile.'' @ lang]" for w
    using resolve_name [OF p(2), of w dir] assms(2) by (simp add: p(1) fold_push_names)
  have d: "resolve cwd dir = (if rooted dir then [] else cwd) @ path_comps dir"
    using assms(2) by (simp add: resolve_comps fold_push_names)
  have "last (ec_args c) = path" "ec_Dir c = dir" by (simp_all add: c_def brazierfile_cmd_def)
  then have "file_run cwd c = resolve cwd path \<longleftrightarrow> rooted dir \<or> path_comps dir = []"
    by (simp add: file_run_def r d)
  then show ?thesis using cs by blast
qed

lemma Brazierfile_relative_dir_witness:
  "let h = \<lparr>h_now = (\<lambda>_. 0), h_Stat = (\<lambda>p _. if p = ''ci/Brazierfile.ts'' then Stat_found else Stat_not_exist),
        h_Run = (\<lambda>c s. (([], None), s))\<rparr> :: unit host
   in \<exists>t c. fst (snd (ExecBrazierfile (logged h) toy_spec_of None ''ci'' ([], ()))) = [(t, c)]
        \<and> file_run [''home''] c = [''home'', ''ci'', ''ci'', ''Brazierfile.ts'']
        \<and> file_run [''home''] c \<noteq> resolve [''home''] ''ci/Brazierfile.ts''"
proof -
  define h :: "unit host" where "h = \<lparr>h_now = (\<lambda>_. 0),
      h_Stat = (\<lambda>p _. if p = ''ci/Brazierfile.ts'' then Stat_found else Stat_not_exist),
      h_Run = (\<lambda>c s. (([], None), s))\<rparr>"
  have j: "Join [''ci'', ''Brazierfile.go''] = ''ci/Brazierfile.go''" "Join [''ci'', ''Brazierfile.ts''] = ''ci/Brazierfile.ts''"
    by code_simp+
  have d: "detectBrazierfile h ''ci'' () = Inr (''ci/Brazierfile.ts'', ''ts'')"
    by (simp add: detectBrazierfile_def candidates_def j h_def)
  have n: "''..'' \<notin> set (path_comps ''ci'')" by code_simp
  obtain q cs s' where x: "ExecBrazierfile (logged h) toy_spec_of None ''ci'' ([], ()) = (q, cs, s')"
    by (metis surj_pair)
  have c: "cs = [(0, brazierfile_cmd None ''ci'' ''ci/Brazierfile.ts'' ''ts'')]"
    using ExecBrazierfile_logged [OF x] d by (simp add: h_def)
  have f: "file_run [''home''] (brazierfile_cmd None ''ci'' ''ci/Brazierfile.ts'' ''ts'')
      = [''home'', ''ci'', ''ci'', ''Brazierfile.ts'']" by code_simp
  have "\<not> rooted ''ci''" "path_comps ''ci'' \<noteq> []" by code_simp+
  then show ?thesis
    using Brazierfile_relative_dir [OF d n x, of "[''home'']"] c f x by (simp add: h_def [symmetric])
qed

section \<open>For how long\<close>

lemma git_run_logged:
  assumes "git_run (logged h) ctx args (cs, s) = (q, cs', s')"
  shows "cs' = cs @ [(h_now h s, \<lparr>ec_ctx = ctx, ec_args = ''git'' # args, ec_Dir = []\<rparr>)]"
  using assms by (auto simp: git_run_def split: prod.splits option.splits)

lemma fetch_repo_logged:
  assumes "fetch_repo (logged h) l ctx (cs, s) = (q, cs', s')"
  shows "\<exists>c. cs' = cs @ [(h_now h s, c)] \<and> ec_ctx c = ctx \<and> hd (ec_args c) = ''git''"
proof -
  obtain args q' where "git_run (logged h) ctx args (cs, s) = (q', cs', s')"
    using assms by (auto simp: fetch_repo_def split: prod.splits sum.splits if_splits)
  from git_run_logged [OF this] show ?thesis by simp
qed

lemma ensureRepo_logged:
  assumes "ensureRepo (logged h) l ctx version (cs, s) = (q, cs', s')"
  shows "\<exists>new. cs' = cs @ new \<and> length new \<le> 2
    \<and> (\<forall>(t, c) \<in> set new. hd (ec_args c) = ''git'' \<and> ec_ctx c = WithTimeout (h_now h s) 120 ctx)"
proof -
  define ctx' where "ctx' = WithTimeout (h_now h s) (2 * 60) ctx"
  have ctx: "ctx' = WithTimeout (h_now h s) 120 ctx" by (simp add: ctx'_def)
  obtain q1 cs1 s1 where f: "fetch_repo (logged h) l ctx' (cs, s) = (q1, cs1, s1)" by (metis surj_pair)
  obtain c1 where c1: "cs1 = cs @ [(h_now h s, c1)]" "ec_ctx c1 = ctx'" "hd (ec_args c1) = ''git''"
    using fetch_repo_logged [OF f] by blast
  show ?thesis
  proof (cases q1)
    case (Inl e)
    then have "cs' = cs1" using assms(1) f by (simp add: ensureRepo_def Let_def ctx'_def)
    then show ?thesis using c1 ctx by simp
  next
    case (Inr u)
    obtain q2 cs2 s2 where g: "git_run (logged h) ctx' [''-C'', repo_dest l, ''checkout'', version] (cs1, s1) = (q2, cs2, s2)"
      by (metis surj_pair)
    have "cs' = cs2" using assms(1) f g Inr by (auto simp: ensureRepo_def Let_def ctx'_def split: sum.splits)
    then show ?thesis using c1 git_run_logged [OF g] ctx by simp
  qed
qed

lemma execWorkflow_logged:
  assumes "execWorkflow (logged h) unmarshal ctx dest name (cs, s) = (q, cs', s')"
  shows "\<exists>go. cs' = cs @ go \<and> length go \<le> 1 \<and> (\<forall>(t, c) \<in> set go. hd (ec_args c) = ''go'' \<and> ec_ctx c = WithTimeout t 30 ctx)"
proof (cases "h_Stat h (Join [dest, name @ ''.go'']) s = Stat_found")
  case True
  then have "cs' = cs @ [(h_now h s, \<lparr>ec_ctx = WithTimeout (h_now h s) 30 ctx,
      ec_args = [''go'', ''run'', Join [dest, name @ ''.go'']], ec_Dir = dest\<rparr>)]"
    using assms by (auto simp: execWorkflow_def Let_def split: option.splits sum.splits prod.splits)
  then show ?thesis by simp
qed (use assms in \<open>simp add: execWorkflow_def Let_def\<close>)

text \<open>
  Property C39: the loader bounds the time of what it runs, \<open>ExecBrazierfile\<close> does not. \<open>Load\<close> runs at most
  three commands: at most two of \<open>git\<close>, with a deadline two minutes after the call, and then at most one
  for the workflow, with a deadline 30 seconds after its start; where the deadline of the caller is
  earlier, it counts. \<open>ExecBrazierfile\<close> runs at most one command, with the deadline of the caller or
  none; its own of 30 seconds is never used.
\<close>

theorem commands_bounded:
  assumes "Load (logged h) unmarshal ctx name version (l, [], s) = (q, l', cs, s')"
    and "ExecBrazierfile (logged h) unmarshal' ctx dir ([], s) = (r, ds, t)"
  shows "(\<exists>git go. cs = git @ go \<and> length git \<le> 2 \<and> length go \<le> 1
        \<and> (\<forall>(started, c) \<in> set git.
             hd (ec_args c) = ''git''
             \<and> ec_ctx c = Some (case ctx of None \<Rightarrow> h_now h s + 120 | Some p \<Rightarrow> min p (h_now h s + 120)))
        \<and> (\<forall>(started, c) \<in> set go.
             hd (ec_args c) = ''go''
             \<and> ec_ctx c = Some (case ctx of None \<Rightarrow> started + 30 | Some p \<Rightarrow> min p (started + 30))))
    \<and> length ds \<le> 1 \<and> (\<forall>(started, c) \<in> set ds. ec_ctx c = ctx)"
proof
  show "length ds \<le> 1 \<and> (\<forall>(started, c) \<in> set ds. ec_ctx c = ctx)"
    using ExecBrazierfile_logged [OF assms(2)] by (auto simp: brazierfile_cmd_def split: sum.splits prod.splits)
  have "\<exists>git go. cs = git @ go \<and> length git \<le> 2 \<and> length go \<le> 1
        \<and> (\<forall>(started, c) \<in> set git. hd (ec_args c) = ''git'' \<and> ec_ctx c = WithTimeout (h_now h s) 120 ctx)
        \<and> (\<forall>(started, c) \<in> set go. hd (ec_args c) = ''go'' \<and> ec_ctx c = WithTimeout started 30 ctx)"
  proof (cases "ld_cache l (cache_key name version)")
    case (Some dag)
    then have "cs = []" using assms(1) by (simp add: Load_def)
    then show ?thesis by (intro exI [of _ "[]"]) simp
  next
    case None
    obtain q1 git s1 where e: "ensureRepo (logged h) l ctx version ([], s) = (q1, git, s1)" by (metis surj_pair)
    have e': "length git \<le> 2" "\<forall>(started, c) \<in> set git. hd (ec_args c) = ''git'' \<and> ec_ctx c = WithTimeout (h_now h s) 120 ctx"
      using ensureRepo_logged [OF e] by auto
    show ?thesis
    proof (cases q1)
      case (Inl er)
      then have "cs = git" using assms(1) None e by (simp add: Load_def)
      then show ?thesis using e' by (intro exI [of _ git] exI [of _ "[]"]) simp
    next
      case (Inr dest)
      obtain q2 cs2 s2 where x: "execWorkflow (logged h) unmarshal ctx dest name (git, s1) = (q2, cs2, s2)"
        by (metis surj_pair)
      have "cs = cs2" using assms(1) None e Inr x by (auto simp: Load_def split: sum.splits)
      then show ?thesis using e' execWorkflow_logged [OF x] by blast
    qed
  qed
  then show "\<exists>git go. cs = git @ go \<and> length git \<le> 2 \<and> length go \<le> 1
        \<and> (\<forall>(started, c) \<in> set git.
             hd (ec_args c) = ''git''
             \<and> ec_ctx c = Some (case ctx of None \<Rightarrow> h_now h s + 120 | Some p \<Rightarrow> min p (h_now h s + 120)))
        \<and> (\<forall>(started, c) \<in> set go.
             hd (ec_args c) = ''go''
             \<and> ec_ctx c = Some (case ctx of None \<Rightarrow> started + 30 | Some p \<Rightarrow> min p (started + 30)))"
    by (simp add: WithTimeout_def)
qed

theorem commands_bounded_witness:
  "(let (q, l, cs, s) = Load (logged toy_host) toy_unmarshal (Some 100) ''build'' ''v1'' (toy_loader, [], toy_cloned)
      in map (\<lambda>(t, c). (t, ec_ctx c)) cs = [(0, Some 100), (1, Some 100), (2, Some 32)])
   \<and> (\<lambda>(t, c). ec_ctx c) ` set (fst (snd (ExecBrazierfile (logged toy_host) toy_spec_of None ''/src'' ([], toy_cloned)))) \<subseteq> {None}"
proof -
  obtain q l cs s where x: "Load (logged toy_host) toy_unmarshal None ''build'' ''v1'' (toy_loader, [], toy_cloned) = (q, l, cs, s)"
    by (metis surj_pair)
  obtain r ds t where y: "ExecBrazierfile (logged toy_host) toy_spec_of None ''/src'' ([], toy_cloned) = (r, ds, t)"
    by (metis surj_pair)
  have "let (q, l, cs, s) = Load (logged toy_host) toy_unmarshal (Some 100) ''build'' ''v1'' (toy_loader, [], toy_cloned)
      in map (\<lambda>(t, c). (t, ec_ctx c)) cs = [(0, Some 100), (1, Some 100), (2, Some 32)]" by code_simp
  then show ?thesis using commands_bounded [OF x y] y by auto
qed

end
