(* ===== verification/Agent_Client.thy ===== *)
theory Agent_Client
  imports Executor Api_Server Example_World Utf8
begin

text \<open>
  \<open>internal/client/agent.go\<close>: an agent connects to the master, receives jobs, runs each in a goroutine and
  reports its log lines and its result. The service of the master is an interface, with a contract
  that the \<open>AgentServer\<close> of the master is shown to provide.
\<close>

section \<open>Handling a job\<close>

text \<open>The client stub of \<open>AgentService\<close>: the log stream (open, send, close) and the result, on the state behind it.\<close>

record 'm agent_service =
  sv_SendLog :: "'m \<Rightarrow> unit result \<times> 'm"
  sv_Send :: "pb_LogChunk \<Rightarrow> 'm \<Rightarrow> unit result \<times> 'm"
  sv_CloseAndRecv :: "'m \<Rightarrow> unit result \<times> 'm"
  sv_SendResult :: "JobResult \<Rightarrow> 'm \<Rightarrow> unit result \<times> 'm"

text \<open>The closure \<open>sink\<close>: without a stream, chunks are dropped; the error of a send is logged.\<close>

definition agent_sink :: "'m agent_service \<Rightarrow> bool \<Rightarrow> pb_LogChunk \<Rightarrow> 'm \<Rightarrow> 'm" where
  "agent_sink V opened chunk m = (if opened then snd (sv_Send V chunk m) else m)"

definition handleJob :: "'m agent_service \<Rightarrow> os \<Rightarrow> JobDispatch \<Rightarrow> 'm \<Rightarrow> 'm option" where
  "handleJob V sys dispatch m =
     (case sv_SendLog V m of
        (q, m1) \<Rightarrow>
          (let opened = (case q of Inl _ \<Rightarrow> False | Inr _ \<Rightarrow> True) in
           case Executor_Run sys dispatch (agent_sink V opened) m1 of
             None \<Rightarrow> None
           | Some ((success, exitCode), m2) \<Rightarrow>
               (let m3 = (if opened then snd (sv_CloseAndRecv V m2) else m2);
                    result = \<lparr>jr_JobId = jd_JobId dispatch, jr_RunId = jd_RunId dispatch,
                              jr_Success = success, jr_ExitCode = word_of_int exitCode\<rparr> in
                Some (snd (sv_SendResult V result m3)))))"

text \<open>What a job does, apart from the service: its result and its chunks.\<close>

definition job_outcome :: "os \<Rightarrow> JobDispatch \<Rightarrow> ((bool \<times> int) \<times> pb_LogChunk list) option" where
  "job_outcome sys job = Executor_Run sys job (\<lambda>c k. k @ [c]) []"

lemma fold_snoc: "fold (\<lambda>c k. k @ [c]) cs k = k @ cs"
  by (induction cs arbitrary: k) auto

lemma Executor_Run_sink:
  "Executor_Run sys job sink k = map_option (\<lambda>(r, cs). (r, fold sink cs k)) (job_outcome sys job)"
  by (simp add: job_outcome_def Executor_Run_def run_commands_result fold_snoc Let_def split: option.split list.split)

lemma job_outcome_ids:
  assumes "job_outcome sys job = Some (r, cs)" and "c \<in> set cs"
  shows "pl_JobId c = jd_JobId job \<and> pl_RunId c = jd_RunId job"
proof -
  have "\<exists>out. c \<in> set (cmd_chunks out job)"
    using assms by (auto simp: job_outcome_def Executor_Run_def run_commands_result fold_snoc Let_def
        split: option.splits list.splits)
  then show ?thesis using cmd_chunks_streams by blast
qed

definition job_result :: "JobDispatch \<Rightarrow> bool \<times> int \<Rightarrow> JobResult" where
  "job_result job = (\<lambda>(success, exitCode).
     \<lparr>jr_JobId = jd_JobId job, jr_RunId = jd_RunId job, jr_Success = success, jr_ExitCode = word_of_int exitCode\<rparr>)"

lemma handleJob_None: "job_outcome sys job = None \<Longrightarrow> handleJob V sys job m = None"
  by (simp add: handleJob_def Executor_Run_sink Let_def split: prod.split)

lemma handleJob_Some:
  assumes "sv_SendLog V m = (q, m1)" and "job_outcome sys job = Some (r, cs)"
    and "b = (case q of Inl _ \<Rightarrow> False | Inr _ \<Rightarrow> True)" and "m2 = fold (agent_sink V b) cs m1"
    and "m3 = (if b then snd (sv_CloseAndRecv V m2) else m2)"
  shows "handleJob V sys job m = Some (snd (sv_SendResult V (job_result job r) m3))"
  using assms(1,2) by (cases r; cases b)
    (simp_all add: handleJob_def Executor_Run_sink job_result_def Let_def assms(3) [symmetric] assms(4,5))

section \<open>The contract of the service\<close>

text \<open>
  A message that is sent is in the log or is lost; nothing else goes into the log. \<open>plog\<close> is the log of
  the service, \<open>rest\<close> what the calls of the log stream leave alone.
\<close>

locale agent_contract =
  fixes V :: "'m agent_service"
    and valid :: "'m \<Rightarrow> bool"
    and plog :: "'m \<Rightarrow> pb_LogChunk list"
    and rest :: "'m \<Rightarrow> 'r"
  assumes open_log:
      "valid m \<Longrightarrow> sv_SendLog V m = (q, m') \<Longrightarrow> valid m' \<and> plog m' = plog m \<and> rest m' = rest m"
    and send:
      "valid m \<Longrightarrow> sv_Send V c m = (q, m') \<Longrightarrow>
         valid m' \<and> (plog m' = plog m \<or> plog m' = plog m @ [c]) \<and> rest m' = rest m"
    and close_log:
      "valid m \<Longrightarrow> sv_CloseAndRecv V m = (q, m') \<Longrightarrow> valid m' \<and> plog m' = plog m \<and> rest m' = rest m"
    and send_result: "valid m \<Longrightarrow> sv_SendResult V r m = (q, m') \<Longrightarrow> valid m' \<and> plog m' = plog m"
begin

lemma sink_log:
  "valid m \<Longrightarrow> valid (fold (agent_sink V b) cs m)
     \<and> (\<exists>xs. subseq xs cs \<and> plog (fold (agent_sink V b) cs m) = plog m @ xs)"
proof (induction cs arbitrary: m)
  case (Cons c cs)
  define m1 where "m1 = agent_sink V b c m"
  obtain q m2 where s: "sv_Send V c m = (q, m2)" by (metis surj_pair)
  have one: "valid m1 \<and> (plog m1 = plog m \<or> plog m1 = plog m @ [c])"
    using send [OF Cons.prems s] s Cons.prems by (simp add: m1_def agent_sink_def)
  then obtain xs where xs: "subseq xs cs" "plog (fold (agent_sink V b) cs m1) = plog m1 @ xs"
      "valid (fold (agent_sink V b) cs m1)"
    using Cons.IH by blast
  have "\<exists>ys. subseq ys (c # cs) \<and> plog m1 @ xs = plog m @ ys"
  proof (cases "plog m1 = plog m")
    case True
    then show ?thesis using xs(1) by (intro exI [of _ xs]) (simp add: list_emb_Cons)
  next
    case False
    then show ?thesis using xs(1) one by (intro exI [of _ "c # xs"]) simp
  qed
  then show ?case using xs by (simp add: m1_def)
qed simp

lemma handleJob_log:
  assumes "valid m" and "handleJob V sys job m = Some m'"
  shows "valid m' \<and> (\<exists>r cs xs. job_outcome sys job = Some (r, cs) \<and> subseq xs cs \<and> plog m' = plog m @ xs)"
proof -
  obtain q m1 where o: "sv_SendLog V m = (q, m1)" by (metis surj_pair)
  obtain r cs where j: "job_outcome sys job = Some (r, cs)"
    using assms(2) handleJob_None [of sys job V m] by (cases "job_outcome sys job") auto
  define b where "b = (case q of Inl _ \<Rightarrow> False | Inr _ \<Rightarrow> True)"
  define m2 where "m2 = fold (agent_sink V b) cs m1"
  define m3 where "m3 = (if b then snd (sv_CloseAndRecv V m2) else m2)"
  have m': "m' = snd (sv_SendResult V (job_result job r) m3)"
    using handleJob_Some [OF o j b_def m2_def m3_def] assms(2) by simp
  have "valid m1 \<and> plog m1 = plog m" using open_log [OF assms(1) o] by simp
  moreover from this obtain xs where x: "subseq xs cs" "valid m2" "plog m2 = plog m1 @ xs"
    using sink_log [of m1 b cs] m2_def by blast
  moreover have "valid m3 \<and> plog m3 = plog m2"
    using close_log [OF x(2)] x(2) by (cases "sv_CloseAndRecv V m2") (simp add: m3_def)
  moreover from this have "valid m' \<and> plog m' = plog m3"
    using send_result [of m3 "job_result job r"]
    by (cases "sv_SendResult V (job_result job r) m3") (simp add: m')
  ultimately show ?thesis using j by auto
qed

end

text \<open>
  A log stream: a line that is lost breaks it, and the ones after it are lost too. \<open>live\<close> says that lines still
  arrive, \<open>okc\<close> which chunks can be sent at all.
\<close>

locale agent_stream_contract = agent_contract +
  fixes live :: "'m \<Rightarrow> bool"
    and okc :: "pb_LogChunk \<Rightarrow> bool"
  assumes send_stream:
      "valid m \<Longrightarrow> sv_Send V c m = (q, m') \<Longrightarrow>
         plog m' = plog m @ [c] \<and> live m \<and> okc c \<or> plog m' = plog m \<and> \<not> live m'"
begin

lemma sink_send:
  assumes "valid m"
  shows "valid (agent_sink V b c m) \<and> rest (agent_sink V b c m) = rest m"
  using send [OF assms prod.collapse [symmetric]] assms by (simp add: agent_sink_def)

lemma sink_rest: "valid m \<Longrightarrow> valid (fold (agent_sink V b) cs m) \<and> rest (fold (agent_sink V b) cs m) = rest m"
proof (induction cs arbitrary: m)
  case (Cons c cs)
  then show ?case using sink_send [of m b c] Cons.IH [of "agent_sink V b c m"] by simp
qed simp

lemma sink_dead: "valid m \<Longrightarrow> \<not> live m \<or> \<not> b \<Longrightarrow> plog (fold (agent_sink V b) cs m) = plog m"
proof (induction cs arbitrary: m)
  case (Cons c cs)
  define m1 where "m1 = agent_sink V b c m"
  have "plog m1 = plog m \<and> (\<not> live m1 \<or> \<not> b)"
    using send_stream [OF Cons.prems(1) prod.collapse [symmetric], of c] Cons.prems(2)
    by (auto simp: m1_def agent_sink_def)
  moreover have "valid m1" using sink_send [OF Cons.prems(1)] by (simp add: m1_def)
  ultimately show ?case using Cons.IH [of m1] by (auto simp: m1_def)
qed simp

lemma sink_stream:
  "valid m \<Longrightarrow> \<exists>xs. prefix xs (takeWhile okc cs) \<and> plog (fold (agent_sink V b) cs m) = plog m @ xs"
proof (induction cs arbitrary: m)
  case (Cons c cs)
  define m1 where "m1 = agent_sink V b c m"
  have v: "valid m1" using sink_send [OF Cons.prems] by (simp add: m1_def)
  show ?case
  proof (cases "plog m1 = plog m @ [c] \<and> okc c")
    case True
    obtain xs where "prefix xs (takeWhile okc cs)" "plog (fold (agent_sink V b) cs m1) = plog m1 @ xs"
      using Cons.IH [OF v] by blast
    then show ?thesis using True by (intro exI [of _ "c # xs"]) (simp add: m1_def [symmetric])
  next
    case False
    then have "plog m1 = plog m \<and> (\<not> live m1 \<or> \<not> b)"
      using send_stream [OF Cons.prems prod.collapse [symmetric], of c] by (auto simp: m1_def agent_sink_def)
    then show ?thesis using sink_dead [OF v, of b cs] by (intro exI [of _ "[]"]) (simp add: m1_def [symmetric])
  qed
qed simp

lemma handleJob_stream:
  assumes "valid m" and "job_outcome sys job = Some (r, cs)"
  obtains m3 xs where "valid m3" and "rest m3 = rest m" and "prefix xs (takeWhile okc cs)"
    and "plog m3 = plog m @ xs" and "handleJob V sys job m = Some (snd (sv_SendResult V (job_result job r) m3))"
proof -
  obtain q m1 where o: "sv_SendLog V m = (q, m1)" by (metis surj_pair)
  define b where "b = (case q of Inl _ \<Rightarrow> False | Inr _ \<Rightarrow> True)"
  define m2 where "m2 = fold (agent_sink V b) cs m1"
  define m3 where "m3 = (if b then snd (sv_CloseAndRecv V m2) else m2)"
  have m1: "valid m1" "plog m1 = plog m" "rest m1 = rest m" using open_log [OF assms(1) o] by simp_all
  obtain xs where xs: "prefix xs (takeWhile okc cs)" "plog m2 = plog m1 @ xs"
    using sink_stream [OF m1(1)] unfolding m2_def by blast
  have m2: "valid m2" "rest m2 = rest m1" using sink_rest [OF m1(1)] by (simp_all add: m2_def)
  have "valid m3 \<and> plog m3 = plog m2 \<and> rest m3 = rest m2"
    using close_log [OF m2(1) prod.collapse [symmetric]] m2(1) by (simp add: m3_def)
  then show thesis
    using that [of m3 xs] xs m1 m2 handleJob_Some [OF o assms(2) b_def m2_def m3_def] by simp
qed

end

text \<open>A network that delivers: only a chunk that cannot be sent breaks the stream.\<close>

locale agent_up_contract = agent_stream_contract +
  assumes open_up: "valid m \<Longrightarrow> \<exists>m'. sv_SendLog V m = (Inr (), m') \<and> live m'"
    and send_up:
      "valid m \<Longrightarrow> live m \<Longrightarrow> okc c \<Longrightarrow> sv_Send V c m = (q, m') \<Longrightarrow> plog m' = plog m @ [c] \<and> live m'"
begin

lemma sink_up:
  "valid m \<Longrightarrow> live m \<Longrightarrow> plog (fold (agent_sink V True) cs m) = plog m @ takeWhile okc cs"
proof (induction cs arbitrary: m)
  case (Cons c cs)
  define m1 where "m1 = agent_sink V True c m"
  have v: "valid m1" using sink_send [OF Cons.prems(1)] by (simp add: m1_def)
  show ?case
  proof (cases "okc c")
    case True
    have "plog m1 = plog m @ [c] \<and> live m1"
      using send_up [OF Cons.prems True prod.collapse [symmetric]] by (simp add: m1_def agent_sink_def)
    then show ?thesis using Cons.IH [OF v] True by (simp add: m1_def [symmetric])
  next
    case False
    then have "plog m1 = plog m \<and> \<not> live m1"
      using send_stream [OF Cons.prems(1) prod.collapse [symmetric], of c] by (auto simp: m1_def agent_sink_def)
    then show ?thesis using sink_dead [OF v] False by (simp add: m1_def [symmetric])
  qed
qed simp

lemma handleJob_up:
  assumes "valid m" and "job_outcome sys job = Some (r, cs)"
  obtains m3 where "valid m3" and "plog m3 = plog m @ takeWhile okc cs" and "rest m3 = rest m"
    and "handleJob V sys job m = Some (snd (sv_SendResult V (job_result job r) m3))"
proof -
  obtain m1 where o: "sv_SendLog V m = (Inr (), m1)" "live m1" using open_up [OF assms(1)] by blast
  define m2 where "m2 = fold (agent_sink V True) cs m1"
  obtain q m3 where c: "sv_CloseAndRecv V m2 = (q, m3)" by (metis surj_pair)
  have m1: "valid m1" "plog m1 = plog m" "rest m1 = rest m" using open_log [OF assms(1) o(1)] by simp_all
  have "valid m2 \<and> plog m2 = plog m @ takeWhile okc cs \<and> rest m2 = rest m"
    using sink_up [OF m1(1) o(2)] sink_rest [OF m1(1)] m1 by (simp add: m2_def)
  then have "valid m3" "plog m3 = plog m @ takeWhile okc cs" "rest m3 = rest m" using close_log [OF _ c] by simp_all
  moreover have "handleJob V sys job m = Some (snd (sv_SendResult V (job_result job r) m3))"
    using handleJob_Some [OF o(1) assms(2), of True m2 m3] c by (simp add: m2_def)
  ultimately show thesis by (rule that)
qed

end

section \<open>The agent server of the master\<close>

text \<open>
  The service that \<open>AgentServer\<close> is to an agent. A message with a \<open>string\<close> field that is not valid UTF-8 cannot
  be marshalled; when that or the network makes a \<open>Send\<close> fail, gRPC ends the stream. What the network does
  with the calls of one job is a parameter: whether the log stream opens, which sends fail on it, how many
  of the lines the master reads before the stream breaks (\<open>None\<close>: all that were sent), and whether the
  result arrives. \<open>CloseAndRecv\<close> always fails: \<open>SendLog\<close> of the master returns without the message that
  the client waits for.
\<close>

definition chunk_utf8 :: "pb_LogChunk \<Rightarrow> bool" where
  "chunk_utf8 c \<longleftrightarrow> utf8_valid (pl_JobId c) \<and> utf8_valid (pl_RunId c) \<and> utf8_valid (pl_Line c)"

definition result_utf8 :: "JobResult \<Rightarrow> bool" where
  "result_utf8 res \<longleftrightarrow> utf8_valid (jr_JobId res) \<and> utf8_valid (jr_RunId res)"

record agent_net =
  an_open :: bool
  an_fails :: "nat \<Rightarrow> bool"
  an_reads :: "nat option"
  an_result :: bool

text \<open>The master behind the connection, and the log stream: whether it is still open, and the sends on it so far.\<close>

record agent_link =
  al_db :: db_value
  al_reg :: Registry
  al_open :: bool
  al_sends :: nat

definition link_to :: "db_value \<Rightarrow> Registry \<Rightarrow> agent_link" where
  "link_to s r = \<lparr>al_db = s, al_reg = r, al_open = False, al_sends = 0\<rparr>"

definition net_reads :: "agent_net \<Rightarrow> nat \<Rightarrow> bool" where
  "net_reads N n \<longleftrightarrow> (case an_reads N of None \<Rightarrow> True | Some k \<Rightarrow> n < k)"

definition net_Send :: "agent_net \<Rightarrow> sql_env \<Rightarrow> pb_LogChunk \<Rightarrow> agent_link \<Rightarrow> unit result \<times> agent_link" where
  "net_Send N env c m =
     (if al_open m \<and> chunk_utf8 c \<and> \<not> an_fails N (al_sends m)
      then (Inr (), m\<lparr>al_sends := Suc (al_sends m),
                      al_db := (if net_reads N (al_sends m) then snd (SendLog (store_DB env) [c] (al_db m)) else al_db m)\<rparr>)
      else (Inl (DriverErr ''send''), m\<lparr>al_open := False\<rparr>))"

definition master_service :: "agent_net \<Rightarrow> sql_env \<Rightarrow> agent_link agent_service" where
  "master_service N env =
     \<lparr>sv_SendLog = (\<lambda>m.
        if an_open N then (Inr (), m\<lparr>al_open := True, al_sends := 0\<rparr>)
        else (Inl (DriverErr ''open''), m\<lparr>al_open := False\<rparr>)),
      sv_Send = net_Send N env,
      sv_CloseAndRecv = (\<lambda>m. (Inl (DriverErr ''EOF''), m\<lparr>al_open := False\<rparr>)),
      sv_SendResult = (\<lambda>res m.
        if result_utf8 res \<and> an_result N then (Inr (), m\<lparr>al_reg := snd (SendResult res (al_reg m))\<rparr>)
        else (Inl (DriverErr ''result''), m))\<rparr>"

lemma master_service_sel [simp]:
  "sv_SendLog (master_service N env) m =
     (if an_open N then (Inr (), m\<lparr>al_open := True, al_sends := 0\<rparr>)
      else (Inl (DriverErr ''open''), m\<lparr>al_open := False\<rparr>))"
  "sv_Send (master_service N env) = net_Send N env"
  "sv_CloseAndRecv (master_service N env) m = (Inl (DriverErr ''EOF''), m\<lparr>al_open := False\<rparr>)"
  "sv_SendResult (master_service N env) res m =
     (if result_utf8 res \<and> an_result N then (Inr (), m\<lparr>al_reg := JobDone (jr_JobId res) (al_reg m)\<rparr>)
      else (Inl (DriverErr ''result''), m))"
  by (simp_all add: master_service_def SendResult_def)

lemma SendLog_one: "snd (SendLog D [c] s) = snd (db_AppendLog D (LogChunk_of_pb c) s)"
  by (simp add: SendLog_def)

definition link_log :: "agent_link \<Rightarrow> pb_LogChunk list" where
  "link_log m = map pb_of_LogChunk (logs_of (al_db m))"

definition link_rest :: "agent_link \<Rightarrow> _" where
  "link_rest m = (runs_of (al_db m), nodes_of (al_db m), al_reg m)"

definition link_live :: "agent_net \<Rightarrow> agent_link \<Rightarrow> bool" where
  "link_live N m \<longleftrightarrow> al_open m \<and> net_reads N (al_sends m)"

lemma net_reads_Suc: "\<not> net_reads N n \<Longrightarrow> \<not> net_reads N (Suc n)"
  by (auto simp: net_reads_def split: option.splits)

text \<open>The log stream only changes the log table.\<close>

lemma append_one:
  assumes "store_valid s"
  shows "store_valid (snd (SendLog (store_DB env) [c] s))
    \<and> runs_of (snd (SendLog (store_DB env) [c] s)) = runs_of s \<and> nodes_of (snd (SendLog (store_DB env) [c] s)) = nodes_of s
    \<and> (logs_of (snd (SendLog (store_DB env) [c] s)) = logs_of s
       \<or> logs_of (snd (SendLog (store_DB env) [c] s)) = logs_of s @ [LogChunk_of_pb c])"
proof -
  obtain q s' where a: "db_AppendLog (store_DB env) (LogChunk_of_pb c) s = (q, s')" by (metis surj_pair)
  show ?thesis
    using store.append_log_ok [OF assms] store.append_log_err [OF assms] a
    by (cases q) (auto simp: SendLog_one reads_only_def)
qed

lemma append_one_up:
  assumes "store_valid s"
  shows "logs_of (snd (SendLog (store_DB (healthy env)) [c] s)) = logs_of s @ [LogChunk_of_pb c]"
proof -
  obtain s' where a: "db_AppendLog (store_DB (healthy env)) (LogChunk_of_pb c) s = (Inr (), s')"
    using store_up.append_log_up [OF assms, of env "LogChunk_of_pb c"] by blast
  show ?thesis using store.append_log_ok [OF assms a] by (simp add: SendLog_one a)
qed

interpretation master_agent: agent_contract "master_service N env" "\<lambda>m. store_valid (al_db m)" link_log link_rest
  for N env
  apply unfold_locales
  subgoal by (auto simp: link_log_def link_rest_def split: if_splits)
  subgoal for m c q m'
    using append_one [of "al_db m" env c]
    by (auto simp: net_Send_def link_log_def link_rest_def split: if_splits)
  subgoal by (auto simp: link_log_def link_rest_def)
  subgoal by (auto simp: link_log_def split: if_splits)
  done

interpretation master_stream: agent_stream_contract "master_service N (healthy env)" "\<lambda>m. store_valid (al_db m)"
  link_log link_rest "link_live N" chunk_utf8
  for N env
  apply unfold_locales
  subgoal for m c q m'
    using append_one_up [of "al_db m" env c]
    by (auto simp: net_Send_def link_log_def link_live_def net_reads_Suc split: if_splits)
  done

text \<open>The network delivers: nothing fails on its side.\<close>

definition delivers :: "agent_net \<Rightarrow> bool" where
  "delivers N \<longleftrightarrow> an_open N \<and> (\<forall>n. \<not> an_fails N n) \<and> an_reads N = None \<and> an_result N"

definition good_net :: agent_net where
  "good_net = \<lparr>an_open = True, an_fails = (\<lambda>_. False), an_reads = None, an_result = True\<rparr>"

lemma good_net_delivers: "delivers good_net"
  by (simp add: delivers_def good_net_def)

interpretation master_up: agent_up_contract "master_service good_net (healthy env)" "\<lambda>m. store_valid (al_db m)"
  link_log link_rest "link_live good_net" chunk_utf8
  for env
  apply unfold_locales
  subgoal by (simp add: good_net_def link_live_def net_reads_def)
  subgoal for m c q m'
    using append_one_up [of "al_db m" env c]
    by (auto simp: net_Send_def link_log_def link_live_def net_reads_def good_net_def split: if_splits)
  done

lemma delivers_good: "delivers N \<Longrightarrow> N = good_net"
  by (cases N) (auto simp: delivers_def good_net_def)

lemma link_log_append:
  "link_log m' = link_log m @ xs \<Longrightarrow> logs_of (al_db m') = logs_of (al_db m) @ map LogChunk_of_pb xs"
proof -
  assume "link_log m' = link_log m @ xs"
  then have "map LogChunk_of_pb (link_log m') = map LogChunk_of_pb (link_log m @ xs)" by simp
  then show ?thesis by (simp add: link_log_def comp_def)
qed

lemma job_result_ids [simp]: "jr_JobId (job_result job r) = jd_JobId job" "jr_RunId (job_result job r) = jd_RunId job"
  by (cases r; simp add: job_result_def)+

text \<open>Handling a job over this service: the lines that arrive, the result that does or not.\<close>

lemma handleJob_store:
  assumes "store_valid s" and "job_outcome sys job = Some (res, cs)"
  obtains m' xs where "handleJob (master_service N (healthy env)) sys job (link_to s r) = Some m'"
    and "store_valid (al_db m')" and "runs_of (al_db m') = runs_of s" and "nodes_of (al_db m') = nodes_of s"
    and "prefix xs (takeWhile chunk_utf8 cs)" and "logs_of (al_db m') = logs_of s @ map LogChunk_of_pb xs"
    and "delivers N \<longrightarrow> xs = takeWhile chunk_utf8 cs"
    and "al_reg m' = (if utf8_valid (jd_JobId job) \<and> utf8_valid (jd_RunId job) \<and> an_result N
      then JobDone (jd_JobId job) r else r)"
proof -
  have sel: "al_db (link_to s r) = s" "al_reg (link_to s r) = r" by (simp_all add: link_to_def)
  have v: "store_valid (al_db (link_to s r))" using assms(1) by (simp add: sel)
  obtain m3 xs where m3: "store_valid (al_db m3)" "link_rest m3 = link_rest (link_to s r)"
      "prefix xs (takeWhile chunk_utf8 cs)" "link_log m3 = link_log (link_to s r) @ xs"
      "handleJob (master_service N (healthy env)) sys job (link_to s r)
        = Some (snd (sv_SendResult (master_service N (healthy env)) (job_result job res) m3))"
      "delivers N \<longrightarrow> xs = takeWhile chunk_utf8 cs"
  proof (cases "delivers N")
    case True
    then show thesis
      using master_up.handleJob_up [OF v assms(2), of env] that delivers_good [OF True] by (metis prefix_order.refl)
  next
    case False
    then show thesis using master_stream.handleJob_stream [OF v assms(2), of N env] that by metis
  qed
  define m' where "m' = snd (sv_SendResult (master_service N (healthy env)) (job_result job res) m3)"
  have "al_db m' = al_db m3" by (simp add: m'_def)
  moreover have "al_reg m' = (if utf8_valid (jd_JobId job) \<and> utf8_valid (jd_RunId job) \<and> an_result N
      then JobDone (jd_JobId job) r else r)"
    using m3(2) by (simp add: m'_def result_utf8_def link_rest_def sel)
  ultimately show thesis
    using that [of m' xs] m3 link_log_append [OF m3(4)] by (simp add: m'_def link_rest_def sel)
qed



text \<open>Of a line, a lone byte and another line only the first is sent, and the stream has ended.\<close>

lemma chunk_utf8_example:
  "map pl_Line (takeWhile chunk_utf8
     (map (\<lambda>l. \<lparr>pl_JobId = ''j'', pl_RunId = ''r'', pl_Timestamp = 0, pl_Line = l, pl_Stderr = False\<rparr>)
       [''a'', [CHR 0xFF], ''b''])) = [''a'']"
  by code_simp

section \<open>Connecting\<close>

record AgentClient =
  ag_masterAddr :: string
  ag_reg :: AgentRegistration
  ag_exec :: job_Executor

definition NewAgentClient :: "string \<Rightarrow> AgentRegistration \<Rightarrow> int \<Rightarrow> AgentClient" where
  "NewAgentClient masterAddr reg jobTimeout =
     \<lparr>ag_masterAddr = masterAddr, ag_reg = reg, ag_exec = executor_New jobTimeout\<rparr>"

text \<open>
  One attempt, as the network answers it: the errors of the dial and of \<open>Register\<close>, and otherwise the
  dispatches that the stream gives until it fails.
\<close>

datatype attempt =
    Dial_error string
  | Register_error string
  | Session "JobDispatch list" string

text \<open>
  The goroutines that an agent has started, each with the number of its connection, and the
  registrations it has sent.
\<close>

record agent_state =
  ga_jobs :: "(nat \<times> JobDispatch) list"
  ga_registered :: "AgentRegistration list"
  ga_conns :: nat

fun recv_loop :: "nat \<Rightarrow> JobDispatch list \<Rightarrow> agent_state \<Rightarrow> agent_state" where
  "recv_loop conn [] st = st"
| "recv_loop conn (dispatch # ds) st = recv_loop conn ds (st\<lparr>ga_jobs := ga_jobs st @ [(conn, dispatch)]\<rparr>)"

definition connect :: "AgentClient \<Rightarrow> attempt \<Rightarrow> agent_state \<Rightarrow> go_error \<times> agent_state" where
  "connect a att st =
     (case att of
        Dial_error m \<Rightarrow> (DriverErr m, st)
      | Register_error m \<Rightarrow> (DriverErr m, st\<lparr>ga_conns := Suc (ga_conns st)\<rparr>)
      | Session ds m \<Rightarrow>
          (DriverErr m,
           recv_loop (ga_conns st) ds
             (st\<lparr>ga_conns := Suc (ga_conns st), ga_registered := ga_registered st @ [ag_reg a]\<rparr>)))"

text \<open>
  \<open>Run\<close>, over what each turn of the loop finds: whether the context is done at its start, the attempt,
  and whether the context is done while it waits. \<open>True\<close> says that \<open>Run\<close> has returned.
\<close>

fun agent_Run :: "AgentClient \<Rightarrow> (bool \<times> attempt \<times> bool) list \<Rightarrow> agent_state \<Rightarrow> bool \<times> agent_state" where
  "agent_Run a [] st = (False, st)"
| "agent_Run a ((done, att, done_waiting) # turns) st =
     (if done then (True, st)
      else case connect a att st of
        (e, st1) \<Rightarrow> if done_waiting then (True, st1) else agent_Run a turns st1)"

lemma recv_loop_jobs: "recv_loop c ds st = st\<lparr>ga_jobs := ga_jobs st @ map (Pair c) ds\<rparr>"
  by (induction ds arbitrary: st) auto

fun received :: "(bool \<times> attempt \<times> bool) list \<Rightarrow> JobDispatch list" where
  "received [] = []"
| "received ((done, att, done_waiting) # turns) =
     (if done then []
      else (case att of Session ds m \<Rightarrow> ds | _ \<Rightarrow> []) @ (if done_waiting then [] else received turns))"

text \<open>
  The agent starts each job that it receives once, in the order of the streams, over however many
  connections, and only stops when its context is done.
\<close>

lemma agent_Run_jobs:
  "map snd (ga_jobs (snd (agent_Run a turns st))) = map snd (ga_jobs st) @ received turns
   \<and> (fst (agent_Run a turns st) \<longleftrightarrow> (\<exists>(d, att, w) \<in> set turns. d \<or> w))"
proof (induction turns arbitrary: st)
  case (Cons t turns)
  obtain d att w where t: "t = (d, att, w)" by (metis surj_pair)
  obtain e st1 where c: "connect a att st = (e, st1)" by (metis surj_pair)
  have "map snd (ga_jobs st1) = map snd (ga_jobs st) @ (case att of Session ds m \<Rightarrow> ds | _ \<Rightarrow> [])"
    using c by (auto simp: connect_def recv_loop_jobs comp_def split: attempt.splits)
  then show ?case using Cons [of st1] c by (auto simp: t)
qed simp

end
