(* ===== verification/Pipeline_Liveness.thy ===== *)
theory Pipeline_Liveness
  imports Pipeline_Safety Topo_Sort
begin

text \<open>
  Whether a run ends. Rounds of \<open>Advance\<close> followed by the completion of every job that reached an agent
  settle all rows of a spec that \<open>TopoSort\<close> accepts, over a store that answers and agents with room; and the
  run ends when none of its nodes is skipped. These are the calls that the package \<open>pipeline\<close> is made for, in an environment whose
  agents do their jobs; the wired master does not make them.
\<close>

section \<open>A round\<close>

definition finish_jobs ::
  "('s, 'd, 'h) Manager \<Rightarrow> string \<Rightarrow> string list \<Rightarrow> ('s, 'd, 'h) world \<Rightarrow> ('s, 'd, 'h) world" where
  "finish_jobs m rid ids w = fold (\<lambda>i w. snd (NodeCompleted m rid i True w)) ids w"

text \<open>
  The jobs that agents have and have not completed: those of the run that went out on a stream and whose
  row is running. A node whose job never reached an agent is not among them.
\<close>

definition open_jobs :: "string \<Rightarrow> (db_value, Registry, 'h) world \<Rightarrow> string list" where
  "open_jobs rid w =
     filter (\<lambda>i. row_states (nodes_of (w_db w)) rid i = NodeStateRunning)
       (map fst (run_sent rid (registry_sent (w_disp w))))"

definition pipeline_round ::
  "(db_value, Registry, 'h) Manager \<Rightarrow> string \<Rightarrow> PipelineSpec \<Rightarrow> RunContext \<Rightarrow>
   (db_value, Registry, 'h) world \<Rightarrow> (db_value, Registry, 'h) world" where
  "pipeline_round m rid spec rc w =
     (let w1 = Advance (mg_scheduler m) rid spec rc w in finish_jobs m rid (open_jobs rid w1) w1)"

text \<open>With enough free slots and no fault of a stream every job of a sequence of dispatches is sent.\<close>

lemma Registry_Dispatch_room:
  assumes "0 < free_slots r" and "\<forall>n. ne_send_fault net n = None"
  shows "fst (Registry_Dispatch net job r) = Inr ()"
proof -
  have "leastLoaded (range_agents net r) \<noteq> None"
  proof
    assume "leastLoaded (range_agents net r) = None"
    then have "agent_slots (snd ka) = 0" if "ka \<in> set (rg_agents r)" for ka
      using that by (auto simp: leastLoaded_None has_room_def agent_slots_def)
    then have "map (\<lambda>ka. agent_slots (snd ka)) (rg_agents r) = map (\<lambda>_. 0) (rg_agents r)" by simp
    then have "free_slots r = 0" unfolding free_slots_def by (metis sum_list_0)
    with assms(1) show False by simp
  qed
  then show ?thesis using assms(2) by (auto simp: Registry_Dispatch_def Let_def split: option.split)
qed

lemma dispatch_all_room:
  assumes "registry_ok d" and "\<forall>n. ne_send_fault net n = None" and "int (length jobs) \<le> free_slots d"
    and "d' = dispatch_all (registryDispatcher_Dispatch net) rid jobs d"
  shows "registry_sent d' = registry_sent d @ map (Pair rid) jobs
    \<and> free_slots d' = free_slots d - int (length jobs)"
  using assms(1,3) unfolding assms(4)
proof (induction jobs arbitrary: d)
  case (Cons nj jobs)
  obtain n j where nj: "nj = (n, j)" by (cases nj)
  let ?job = "\<lparr>jd_JobId = n, jd_RunId = rid, jd_Spec = j, jd_Env = []\<rparr>"
  obtain q d1 where q: "Registry_Dispatch net ?job d = (q, d1)" by (metis surj_pair)
  have "q = Inr ()" using Registry_Dispatch_room [of d net ?job] assms(2) Cons.prems(2) q by simp
  then have s: "Registry_Dispatch net ?job d = (Inr (), d1)" using q by simp
  then have "registryDispatcher_Dispatch net rid n j d = (Inr (), d1)" by (simp add: registryDispatcher_Dispatch_def)
  moreover note registry.dispatch_ok [OF Cons.prems(1) this]
  moreover have "free_slots d1 = free_slots d - 1" using Registry_Dispatch_slots [OF Cons.prems(1) s] by simp
  ultimately show ?case using Cons.IH [of d1] Cons.prems(2) by (simp add: dispatch_all_def nj)
qed (simp add: dispatch_all_def)

lemma NodeCompleted_up:
  assumes "store_valid (w_db w)"
  shows "\<exists>w'. NodeCompleted (master_manager (healthy env) net b) rid nid ok w = (Inr (), w')"
proof -
  let ?D = "store_DB (healthy env)"
  let ?n = "mk_NodeRecord rid nid (if \<not> ok then NodeStateFailed else NodeStateSuccess)"
  obtain s1 where u: "db_UpsertNode ?D ?n (w_db w) = (Inr (), s1)" "store_valid s1"
    by (rule store_up.upsert_node_upE [OF assms])
  obtain ns s2 where l: "db_ListNodes ?D rid s1 = (Inr ns, s2)" "store_valid s2"
    by (rule store_up.list_nodes_upE [OF u(2)])
  obtain s3 where r: "db_UpdateRunState ?D rid (final_state ns) s2 = (Inr (), s3)"
    by (rule store_up.update_run_upE [OF l(2)])
  show ?thesis
    using u l r by (simp add: NodeCompleted_def world_upsert_def sch_publish_def Let_def master_manager_def NewManager_def)
qed

text \<open>Completing jobs that run: all of them succeed, and the last one ends the run when nothing else is left.\<close>

lemma finish_jobs_effect:
  assumes "store_valid (w_db w)" and "distinct ids"
    and "\<And>i. i \<in> set ids \<Longrightarrow> row_states (nodes_of (w_db w)) rid i = NodeStateRunning"
    and "w' = finish_jobs (master_manager (healthy env) net b) rid ids w"
  shows "store_valid (w_db w') \<and> w_disp w' = w_disp w
    \<and> nodes_of (w_db w') = set_rows rid (set ids) NodeStateSuccess (nodes_of (w_db w))
    \<and> runs_of (w_db w') = (if ids = [] then runs_of (w_db w)
        else completed_runs rid (nodes_of (w_db w')) (runs_of (w_db w)))"
  using assms(1-3) unfolding assms(4)
proof (induction ids arbitrary: w)
  case (Cons i ids)
  let ?M = "master_manager (healthy env) net b"
  obtain w1 where n: "NodeCompleted ?M rid i True w = (Inr (), w1)" using NodeCompleted_up [OF Cons.prems(1)] by blast
  note eff = mgr.NodeCompleted_ok [OF Cons.prems(1) n]
  have V1: "nodes_of (w_db w1) = set_rows rid {i} NodeStateSuccess (nodes_of (w_db w))"
    using eff by (simp add: completed_view_def set_rows_upd)
  have other: "row_states (nodes_of (w_db w1)) rid j = NodeStateRunning" if "j \<in> set ids" for j
  proof -
    have "j \<noteq> i" using that Cons.prems(2) by auto
    then show ?thesis using Cons.prems(3) [of j] that by (simp add: V1 row_states_def set_rows_def)
  qed
  have step: "finish_jobs ?M rid (i # ids) w = finish_jobs ?M rid ids w1" using n by (simp add: finish_jobs_def)
  have IH: "store_valid (w_db (finish_jobs ?M rid ids w1)) \<and> w_disp (finish_jobs ?M rid ids w1) = w_disp w1
    \<and> nodes_of (w_db (finish_jobs ?M rid ids w1)) = set_rows rid (set ids) NodeStateSuccess (nodes_of (w_db w1))
    \<and> runs_of (w_db (finish_jobs ?M rid ids w1)) = (if ids = [] then runs_of (w_db w1)
        else completed_runs rid (nodes_of (w_db (finish_jobs ?M rid ids w1))) (runs_of (w_db w1)))"
    by (rule Cons.IH) (use eff Cons.prems(2) other in simp_all)
  have nodes: "nodes_of (w_db (finish_jobs ?M rid ids w1)) = set_rows rid (set (i # ids)) NodeStateSuccess (nodes_of (w_db w))"
    using IH by (simp add: V1 set_rows_set_rows)
  have "runs_of (w_db (finish_jobs ?M rid ids w1))
      = completed_runs rid (nodes_of (w_db (finish_jobs ?M rid ids w1))) (runs_of (w_db w))"
  proof (cases "ids = []")
    case True
    then show ?thesis using IH eff by (simp add: finish_jobs_def)
  next
    case False
    then obtain j where "j \<in> set ids" by (cases ids) auto
    then have "row_states (nodes_of (w_db w1)) rid j = NodeStateRunning" by (rule other)
    then have "run_active (nodes_of (w_db w1)) rid"
      by (auto simp: run_active_def row_states_def split: option.splits)
    then have "runs_of (w_db w1) = runs_of (w_db w)" using eff by (simp add: completed_runs_def)
    then show ?thesis using IH False by simp
  qed
  then show ?case using IH eff nodes by (simp add: step)
qed (simp add: finish_jobs_def)

lemma due_step_apply:
  "due_step rid rc st n W k = (if node_due st n \<and> k = (rid, nd_Id n) then due_row rc n else W k)"
  by (auto simp: due_step_def)

lemma due_steps_other:
  "k \<notin> Pair rid ` nd_Id ` set nodes \<Longrightarrow> fold (due_step rid rc st) nodes W k = W k"
  by (induction nodes arbitrary: W) (auto simp: due_step_apply)

lemma advance_view_row:
  assumes "distinct (map nd_Id nodes)" and "n \<in> set nodes"
  shows "advance_view rid rc nodes V (rid, nd_Id n) =
    (if node_due (row_states V rid) n then due_row rc n else V (rid, nd_Id n))"
proof -
  have "fold (due_step rid rc st) nodes W (rid, nd_Id n) =
      (if node_due st n then due_row rc n else W (rid, nd_Id n))" for st W
    using assms
  proof (induction nodes arbitrary: W)
    case (Cons m nodes)
    show ?case
    proof (cases "n = m")
      case True
      then have "(rid, nd_Id n) \<notin> Pair rid ` nd_Id ` set nodes" using Cons.prems by auto
      then have "fold (due_step rid rc st) (m # nodes) W (rid, nd_Id n) = due_step rid rc st m W (rid, nd_Id n)"
        by (simp add: due_steps_other)
      then show ?thesis unfolding due_step_apply [of _ _ _ m] using True by simp
    next
      case False
      then have n: "n \<in> set nodes" using Cons.prems(2) by simp
      then have "nd_Id n \<in> nd_Id ` set nodes" by simp
      then have "nd_Id n \<noteq> nd_Id m" using Cons.prems(1) by auto
      then have "due_step rid rc st m W (rid, nd_Id n) = W (rid, nd_Id n)" by (simp add: due_step_apply)
      then show ?thesis using Cons.IH [of "due_step rid rc st m W"] Cons.prems(1) n by simp
    qed
  qed simp
  then show ?thesis by (simp add: advance_view_def)
qed

lemma advance_view_other:
  "k \<notin> Pair rid ` nd_Id ` set nodes \<Longrightarrow> advance_view rid rc nodes V k = V k"
  by (simp add: advance_view_def due_steps_other)

text \<open>The rows of a run between rounds: those of the nodes, none of them running or failed.\<close>

definition between_rounds ::
  "string \<Rightarrow> PipelineSpec \<Rightarrow> (string \<times> string \<Rightarrow> (string \<times> NodeState) option) \<Rightarrow> bool" where
  "between_rounds rid spec V \<longleftrightarrow>
     (\<forall>i. V (rid, i) \<noteq> None \<longrightarrow> i \<in> nd_Id ` set (ps_Nodes spec))
     \<and> (\<forall>i \<in> nd_Id ` set (ps_Nodes spec).
          row_states V rid i \<in> {NodeStatePending, NodeStateSuccess, NodeStateSkipped})"

text \<open>What a round makes of the row of a node.\<close>

definition round_row :: "(string \<Rightarrow> NodeState) \<Rightarrow> RunContext \<Rightarrow> Node \<Rightarrow> NodeState" where
  "round_row st rc n =
     (if node_due st n then (if evalConditions (nd_Conditions n) rc then NodeStateSuccess else NodeStateSkipped)
      else st (nd_Id n))"

lemma row_states_Some: "V (rid, i) = Some (j, st) \<Longrightarrow> row_states V rid i = st"
  by (simp add: row_states_def)

text \<open>What was sent is past pending, and the agents have room for what is pending.\<close>

definition agents_ready :: "string \<Rightarrow> PipelineSpec \<Rightarrow> (db_value, Registry, 'h) world \<Rightarrow> bool" where
  "agents_ready rid spec w \<longleftrightarrow>
     (let st = row_states (nodes_of (w_db w)) rid in
      registry_ok (w_disp w)
      \<and> (\<forall>x \<in> set (run_sent rid (registry_sent (w_disp w))).
           fst x \<in> nd_Id ` set (ps_Nodes spec) \<and> st (fst x) \<noteq> NodeStatePending)
      \<and> int (length (filter (\<lambda>n. st (nd_Id n) = NodeStatePending) (ps_Nodes spec))) \<le> free_slots (w_disp w))"

lemma ready_jobs_ids:
  assumes "\<forall>n \<in> set nodes. Node_GetJob n \<noteq> None"
  shows "map fst (ready_jobs st rc nodes) = map nd_Id (filter (node_ready st rc) nodes)"
  using assms
  by (induction nodes) (auto simp: ready_jobs_def node_jobs_def Node_GetJob_def split: option.splits Node_Kind.splits)

lemma length_filter_disjoint:
  assumes "\<And>x. P x \<Longrightarrow> R x \<and> \<not> Q x" and "\<And>x. Q x \<Longrightarrow> R x"
  shows "length (filter P xs) + length (filter Q xs) \<le> length (filter R xs)"
  by (induction xs) (use assms in auto)

text \<open>Of a round: the rows after \<open>Advance\<close>, and which jobs the agents then have.\<close>

lemma round_advance:
  assumes "store_valid (w_db w)" and "agents_ready rid spec w" and "\<forall>n. ne_send_fault net n = None"
    and "distinct (map nd_Id (ps_Nodes spec))" and "between_rounds rid spec (nodes_of (w_db w))"
    and "\<forall>n \<in> set (ps_Nodes spec). Node_GetJob n \<noteq> None"
    and "st = row_states (nodes_of (w_db w)) rid" and "w1 = Advance (master_scheduler (healthy env) net b) rid spec rc w"
  shows "n \<in> set (ps_Nodes spec) \<Longrightarrow> row_states (nodes_of (w_db w1)) rid (nd_Id n) =
      (if node_due st n then (if evalConditions (nd_Conditions n) rc then NodeStateRunning else NodeStateSkipped)
       else st (nd_Id n))"
    and "open_jobs rid w1 = map nd_Id (filter (node_ready st rc) (ps_Nodes spec))"
    and "run_sent rid (registry_sent (w_disp w1)) = run_sent rid (registry_sent (w_disp w)) @ ready_jobs st rc (ps_Nodes spec)"
    and "free_slots (w_disp w1) = free_slots (w_disp w) - int (length (filter (node_ready st rc) (ps_Nodes spec)))"
proof -
  have V1: "nodes_of (w_db w1) = advance_view rid rc (ps_Nodes spec) (nodes_of (w_db w))"
    and d1: "w_disp w1 = dispatch_all (registryDispatcher_Dispatch net) rid (ready_jobs st rc (ps_Nodes spec)) (w_disp w)"
    using master_up.Advance_world [OF assms(1), of env net b rid spec rc] by (simp_all add: assms(7,8))
  show row1: "row_states (nodes_of (w_db w1)) rid (nd_Id n) =
      (if node_due st n then (if evalConditions (nd_Conditions n) rc then NodeStateRunning else NodeStateSkipped)
       else st (nd_Id n))" if "n \<in> set (ps_Nodes spec)" for n
    using advance_view_row [OF assms(4) that] by (simp add: V1 assms(7) row_states_def due_row_def)
  have ids: "map fst (ready_jobs st rc (ps_Nodes spec)) = map nd_Id (filter (node_ready st rc) (ps_Nodes spec))"
    by (rule ready_jobs_ids [OF assms(6)])
  then have len: "length (ready_jobs st rc (ps_Nodes spec)) = length (filter (node_ready st rc) (ps_Nodes spec))"
    by (metis length_map)
  have "length (filter (node_ready st rc) (ps_Nodes spec))
      \<le> length (filter (\<lambda>n. st (nd_Id n) = NodeStatePending) (ps_Nodes spec))"
    using length_filter_disjoint [of "\<lambda>_. False" "\<lambda>n. st (nd_Id n) = NodeStatePending" "node_ready st rc"]
    by (simp add: node_ready_def node_due_def)
  then have fit: "int (length (ready_jobs st rc (ps_Nodes spec))) \<le> free_slots (w_disp w)"
    using assms(2) unfolding agents_ready_def Let_def assms(7) [symmetric] len by linarith
  have ok: "registry_ok (w_disp w)" using assms(2) by (simp add: agents_ready_def Let_def)
  note out = dispatch_all_room [OF ok assms(3) fit d1]
  then show sent: "run_sent rid (registry_sent (w_disp w1))
      = run_sent rid (registry_sent (w_disp w)) @ ready_jobs st rc (ps_Nodes spec)"
    by (simp add: run_sent_map)
  show "free_slots (w_disp w1) = free_slots (w_disp w) - int (length (filter (node_ready st rc) (ps_Nodes spec)))"
    using out by (simp add: len)
  let ?run = "\<lambda>i. row_states (nodes_of (w_db w1)) rid i = NodeStateRunning"
  have "\<not> ?run (fst x)" if "x \<in> set (run_sent rid (registry_sent (w_disp w)))" for x
  proof -
    obtain n where n: "n \<in> set (ps_Nodes spec)" "fst x = nd_Id n" "st (nd_Id n) \<noteq> NodeStatePending"
      using assms(2) \<open>x \<in> _\<close> by (auto simp: agents_ready_def Let_def assms(7))
    then have "st (nd_Id n) \<in> {NodeStateSuccess, NodeStateSkipped}"
      using assms(5) by (auto simp: between_rounds_def assms(7))
    then show ?thesis using row1 [OF n(1)] n(2,3) by (auto simp: node_due_def)
  qed
  then have "filter ?run (map fst (run_sent rid (registry_sent (w_disp w)))) = []" by (auto simp: filter_empty_conv)
  moreover have "filter ?run (map nd_Id (filter (node_ready st rc) (ps_Nodes spec)))
      = map nd_Id (filter (node_ready st rc) (ps_Nodes spec))"
    using row1 by (auto simp: filter_id_conv node_ready_def)
  ultimately show "open_jobs rid w1 = map nd_Id (filter (node_ready st rc) (ps_Nodes spec))"
    by (simp add: open_jobs_def sent ids)
qed

lemma pipeline_round_effect:
  assumes "store_valid (w_db w)" and "agents_ready rid spec w" and "\<forall>n. ne_send_fault net n = None"
    and "distinct (map nd_Id (ps_Nodes spec))" and "between_rounds rid spec (nodes_of (w_db w))"
    and "\<forall>n \<in> set (ps_Nodes spec). Node_GetJob n \<noteq> None"
    and "w' = pipeline_round (master_manager (healthy env) net b) rid spec rc w"
  shows "store_valid (w_db w')" and "agents_ready rid spec w'"
    and "n \<in> set (ps_Nodes spec) \<Longrightarrow>
      row_states (nodes_of (w_db w')) rid (nd_Id n) = round_row (row_states (nodes_of (w_db w)) rid) rc n"
    and "between_rounds rid spec (nodes_of (w_db w'))"
    and "runs_of (w_db w') =
      (if \<exists>n \<in> set (ps_Nodes spec). node_ready (row_states (nodes_of (w_db w)) rid) rc n
       then completed_runs rid (nodes_of (w_db w')) (runs_of (w_db w)) else runs_of (w_db w))"
proof -
  let ?S = "master_scheduler (healthy env) net b" and ?st = "row_states (nodes_of (w_db w)) rid"
  define w1 where "w1 = Advance ?S rid spec rc w"
  define ids where "ids = map nd_Id (filter (node_ready ?st rc) (ps_Nodes spec))"
  note adv = round_advance [OF assms(1-6) refl w1_def]
  have w': "w' = finish_jobs (master_manager (healthy env) net b) rid ids w1"
    using assms(7) adv(2) by (simp add: pipeline_round_def w1_def ids_def Let_def master_manager_def NewManager_def)
  have ok: "registry_ok (w_disp w)" using assms(2) by (simp add: agents_ready_def Let_def)
  have out: "store_valid (w_db w1) \<and> registry_ok (w_disp w1) \<and> runs_of (w_db w1) = runs_of (w_db w)"
    using master.Advance_outcome [OF assms(1) ok, of rid rc spec "healthy env" net b]
    by (simp add: w1_def loop_outcome_def)
  have V1: "nodes_of (w_db w1) = advance_view rid rc (ps_Nodes spec) (nodes_of (w_db w))"
    using master_up.Advance_world [OF assms(1), of env net b rid spec rc] by (simp add: w1_def)
  have st: "?st (nd_Id n) \<in> {NodeStatePending, NodeStateSuccess, NodeStateSkipped}" if "n \<in> set (ps_Nodes spec)" for n
    using assms(5) that by (simp add: between_rounds_def)
  have running: "nd_Id n \<in> set ids \<longleftrightarrow> node_ready ?st rc n" if "n \<in> set (ps_Nodes spec)" for n
    using assms(4) that by (auto simp: ids_def distinct_map inj_on_def)
  have d: "distinct ids" using assms(4) by (simp add: ids_def distinct_map inj_on_def)
  have "row_states (nodes_of (w_db w1)) rid i = NodeStateRunning" if "i \<in> set ids" for i
    using that adv(1) by (auto simp: ids_def node_ready_def)
  then have fin: "store_valid (w_db w') \<and> w_disp w' = w_disp w1
    \<and> nodes_of (w_db w') = set_rows rid (set ids) NodeStateSuccess (nodes_of (w_db w1))
    \<and> runs_of (w_db w') = (if ids = [] then runs_of (w_db w1)
        else completed_runs rid (nodes_of (w_db w')) (runs_of (w_db w1)))"
    using finish_jobs_effect [OF _ d _ w'] out by blast
  then show "store_valid (w_db w')" by simp
  show row: "row_states (nodes_of (w_db w')) rid (nd_Id n) = round_row ?st rc n" if "n \<in> set (ps_Nodes spec)" for n
    using fin running [OF that] adv(1) [OF that]
    by (auto simp: row_states_def set_rows_def round_row_def node_ready_def)
  have "i \<in> nd_Id ` set (ps_Nodes spec)" if "nodes_of (w_db w') (rid, i) \<noteq> None" for i
  proof (rule ccontr)
    assume i: "i \<notin> nd_Id ` set (ps_Nodes spec)"
    then have "i \<notin> set ids" by (auto simp: ids_def)
    then have "nodes_of (w_db w') (rid, i) = nodes_of (w_db w) (rid, i)"
      using fin i by (auto simp: set_rows_def V1 intro!: advance_view_other)
    then show False using that assms(5) i unfolding between_rounds_def by auto
  qed
  then show "between_rounds rid spec (nodes_of (w_db w'))"
    using row st by (auto simp: between_rounds_def round_row_def)
  have "ids = [] \<longleftrightarrow> \<not> (\<exists>n \<in> set (ps_Nodes spec). node_ready ?st rc n)"
    by (auto simp: ids_def filter_empty_conv)
  then show "runs_of (w_db w') =
      (if \<exists>n \<in> set (ps_Nodes spec). node_ready ?st rc n
       then completed_runs rid (nodes_of (w_db w')) (runs_of (w_db w)) else runs_of (w_db w))"
    using fin out by simp
  let ?pend = "\<lambda>w n. row_states (nodes_of (w_db w)) rid (nd_Id n) = NodeStatePending"
  have sent: "fst x \<in> nd_Id ` set (ps_Nodes spec) \<and> row_states (nodes_of (w_db w')) rid (fst x) \<noteq> NodeStatePending"
    if "x \<in> set (run_sent rid (registry_sent (w_disp w')))" for x
  proof -
    have "map fst (run_sent rid (registry_sent (w_disp w'))) = map fst (run_sent rid (registry_sent (w_disp w))) @ ids"
      using fin adv(3) ready_jobs_ids [OF assms(6), of ?st rc] by (simp add: ids_def)
    then have "fst x \<in> set (map fst (run_sent rid (registry_sent (w_disp w))) @ ids)"
      using that by (metis image_eqI set_map)
    then obtain n where n: "n \<in> set (ps_Nodes spec)" "fst x = nd_Id n"
        "?st (nd_Id n) \<noteq> NodeStatePending \<or> node_ready ?st rc n"
      using assms(2) by (auto simp: agents_ready_def Let_def ids_def)
    then show ?thesis using row [OF n(1)] by (auto simp: round_row_def node_ready_def node_due_def)
  qed
  have "filter (?pend w') (ps_Nodes spec) = filter (\<lambda>n. ?pend w n \<and> \<not> node_due ?st n) (ps_Nodes spec)"
    using row by (intro filter_cong) (auto simp: round_row_def)
  moreover have "length (filter (\<lambda>n. ?pend w n \<and> \<not> node_due ?st n) (ps_Nodes spec))
      + length (filter (node_ready ?st rc) (ps_Nodes spec)) \<le> length (filter (?pend w) (ps_Nodes spec))"
    by (rule length_filter_disjoint) (auto simp: node_ready_def node_due_def)
  ultimately have "int (length (filter (?pend w') (ps_Nodes spec))) \<le> free_slots (w_disp w')"
    using assms(2) adv(4) fin by (simp add: agents_ready_def Let_def)
  then show "agents_ready rid spec w'" using sent out fin by (simp add: agents_ready_def Let_def)
qed

section \<open>Rounds settle a run\<close>

definition passes :: "RunContext \<Rightarrow> Node \<Rightarrow> bool" where
  "passes rc n \<longleftrightarrow> evalConditions (nd_Conditions n) rc"

text \<open>
  After some rounds: the rows that are not pending are as the conditions say, among them those of the
  first nodes of an order, and if all conditions hold the run has ended exactly when no row is pending.
\<close>

definition settled_to ::
  "string \<Rightarrow> string \<Rightarrow> PipelineSpec \<Rightarrow> RunContext \<Rightarrow> Node list \<Rightarrow> (db_value, Registry, 'h) world \<Rightarrow> bool" where
  "settled_to project rid spec rc ns w \<longleftrightarrow>
     store_valid (w_db w) \<and> agents_ready rid spec w \<and> between_rounds rid spec (nodes_of (w_db w))
     \<and> (\<forall>n \<in> set (ps_Nodes spec). row_states (nodes_of (w_db w)) rid (nd_Id n) \<in>
          {NodeStatePending, if passes rc n then NodeStateSuccess else NodeStateSkipped})
     \<and> (\<forall>n \<in> set ns. row_states (nodes_of (w_db w)) rid (nd_Id n) \<noteq> NodeStatePending)
     \<and> ((\<forall>n \<in> set (ps_Nodes spec). passes rc n) \<longrightarrow>
          runs_of (w_db w) rid = Some (project,
            if \<exists>n \<in> set (ps_Nodes spec). row_states (nodes_of (w_db w)) rid (nd_Id n) = NodeStatePending
            then RunStateRunning else RunStateSuccess))"

lemma active_between:
  assumes "between_rounds rid spec V"
  shows "run_active V rid \<longleftrightarrow> (\<exists>n \<in> set (ps_Nodes spec). row_states V rid (nd_Id n) = NodeStatePending)"
    and "\<not> run_failed V rid"
proof -
  have row: "\<exists>n \<in> set (ps_Nodes spec). row_states V rid (nd_Id n) = st \<and> st \<in> {NodeStatePending, NodeStateSuccess, NodeStateSkipped}"
    if "V (rid, i) = Some (j, st)" for i j st
  proof -
    have "i \<in> nd_Id ` set (ps_Nodes spec)" using assms that unfolding between_rounds_def by blast
    then show ?thesis using assms row_states_Some [of V, OF that] unfolding between_rounds_def by fastforce
  qed
  have some: "\<exists>j. V (rid, i) = Some (j, st)" if "row_states V rid i = st" "st \<noteq> []" for i st
    using that by (auto simp: row_states_def split: option.splits)
  show "run_active V rid \<longleftrightarrow> (\<exists>n \<in> set (ps_Nodes spec). row_states V rid (nd_Id n) = NodeStatePending)"
  proof
    assume "run_active V rid"
    then obtain i j st where "V (rid, i) = Some (j, st)" "st \<in> {NodeStatePending, NodeStateRunning}"
      unfolding run_active_def by blast
    then show "\<exists>n \<in> set (ps_Nodes spec). row_states V rid (nd_Id n) = NodeStatePending"
      using row [of i j st] by auto
  next
    assume "\<exists>n \<in> set (ps_Nodes spec). row_states V rid (nd_Id n) = NodeStatePending"
    then show "run_active V rid" using some unfolding run_active_def by fastforce
  qed
  show "\<not> run_failed V rid" using row unfolding run_failed_def by fastforce
qed

lemma settled_round:
  assumes w: "settled_to project rid spec rc ns w" and sends: "\<forall>n. ne_send_fault net n = None"
    and d: "distinct (map nd_Id (ps_Nodes spec))" and jobs: "\<forall>n \<in> set (ps_Nodes spec). Node_GetJob n \<noteq> None"
    and n: "n \<in> set (ps_Nodes spec)" and deps: "set (nd_DependsOn n) \<subseteq> nd_Id ` set ns"
    and known: "set ns \<subseteq> set (ps_Nodes spec)"
  shows "settled_to project rid spec rc (ns @ [n]) (pipeline_round (master_manager (healthy env) net b) rid spec rc w)"
proof -
  define w' where "w' = pipeline_round (master_manager (healthy env) net b) rid spec rc w"
  let ?st = "row_states (nodes_of (w_db w)) rid" and ?st' = "row_states (nodes_of (w_db w')) rid"
  have parts: "store_valid (w_db w)" "agents_ready rid spec w" "between_rounds rid spec (nodes_of (w_db w))"
      "\<forall>n \<in> set (ps_Nodes spec). ?st (nd_Id n) \<in> {NodeStatePending, if passes rc n then NodeStateSuccess else NodeStateSkipped}"
      "\<forall>n \<in> set ns. ?st (nd_Id n) \<noteq> NodeStatePending"
    using w by (simp_all add: settled_to_def)
  note eff = pipeline_round_effect [OF parts(1,2) sends d parts(3) jobs w'_def]
  have exp: "?st' (nd_Id m) \<in> {NodeStatePending, if passes rc m then NodeStateSuccess else NodeStateSkipped}"
    if "m \<in> set (ps_Nodes spec)" for m
    using eff(3) [OF that] bspec [OF parts(4) that] by (auto simp: round_row_def passes_def)
  have keep: "?st' (nd_Id m) \<noteq> NodeStatePending" if "m \<in> set (ps_Nodes spec)" "?st (nd_Id m) \<noteq> NodeStatePending" for m
    using eff(3) [OF that(1)] that(2) by (simp add: round_row_def node_due_def)
  have new: "?st' (nd_Id n) \<noteq> NodeStatePending"
  proof (cases "?st (nd_Id n) = NodeStatePending")
    case True
    have "depsTerminal (nd_DependsOn n) ?st"
      unfolding depsTerminal_iff
    proof
      fix x
      assume "x \<in> set (nd_DependsOn n)"
      then obtain m where m: "m \<in> set ns" "x = nd_Id m" using deps by auto
      then have "?st (nd_Id m) \<in> {NodeStatePending, if passes rc m then NodeStateSuccess else NodeStateSkipped}"
          "?st (nd_Id m) \<noteq> NodeStatePending"
        using parts(4,5) known by auto
      then show "?st x \<in> {NodeStateSuccess, NodeStateSkipped}" using m by (auto split: if_splits)
    qed
    then show ?thesis using eff(3) [OF n] True by (simp add: round_row_def node_due_def)
  qed (rule keep [OF n])
  have run: "runs_of (w_db w') rid = Some (project,
      if \<exists>m \<in> set (ps_Nodes spec). ?st' (nd_Id m) = NodeStatePending then RunStateRunning else RunStateSuccess)"
    if all: "\<forall>m \<in> set (ps_Nodes spec). passes rc m"
  proof -
    have r: "runs_of (w_db w) rid = Some (project,
        if \<exists>m \<in> set (ps_Nodes spec). ?st (nd_Id m) = NodeStatePending then RunStateRunning else RunStateSuccess)"
      using w all by (simp add: settled_to_def)
    show ?thesis
    proof (cases "\<exists>m \<in> set (ps_Nodes spec). node_ready ?st rc m")
      case True
      then have "\<exists>m \<in> set (ps_Nodes spec). ?st (nd_Id m) = NodeStatePending"
        by (auto simp: node_ready_def node_due_def)
      then have "runs_of (w_db w) rid = Some (project, RunStateRunning)" using r by simp
      then show ?thesis
        using eff(5) True active_between [OF eff(4)] by (simp add: completed_runs_def)
    next
      case False
      then have "?st' (nd_Id m) = ?st (nd_Id m)" if "m \<in> set (ps_Nodes spec)" for m
        using eff(3) [OF that] that all by (auto simp: round_row_def node_ready_def passes_def)
      then show ?thesis using eff(5) False r by auto
    qed
  qed
  have "\<forall>m \<in> set (ns @ [n]). ?st' (nd_Id m) \<noteq> NodeStatePending"
    using keep parts(5) known new by auto
  then show ?thesis
    using eff(1,2,4) exp run unfolding settled_to_def w'_def [symmetric] by blast
qed

lemma seed_ids_jobs:
  assumes "\<forall>n \<in> set (ps_Nodes spec). Node_GetJob n \<noteq> None"
  shows "seed_ids spec = nd_Id ` set (ps_Nodes spec)"
proof -
  have "Node_GetStage n = None" if "n \<in> set (ps_Nodes spec)" for n
    using assms that by (auto simp: Node_GetJob_def Node_GetStage_def split: option.splits Node_Kind.splits)
  then show ?thesis by (auto simp: seed_ids_def node_rows_def)
qed

lemma settled_started:
  assumes "store_valid (w_db w)" and "registry_ok (w_disp w)" and "\<forall>i. nodes_of (w_db w) (rid, i) = None"
    and "run_sent rid (registry_sent (w_disp w)) = []" and "int (length (ps_Nodes spec)) \<le> free_slots (w_disp w)"
    and "Start (master_manager env net b) rid now spec project rc w = (Inr j, w0)"
    and "\<forall>n \<in> set (ps_Nodes spec). Node_GetJob n \<noteq> None" and "ps_Nodes spec \<noteq> []"
  shows "settled_to project rid spec rc [] w0"
proof -
  note st = mgr.Start_ok [OF assms(1,6)]
  have V: "nodes_of (w_db w0) = set_rows rid (nd_Id ` set (ps_Nodes spec)) NodeStatePending (nodes_of (w_db w))"
    using st(5) seed_ids_jobs [OF assms(7)] by simp
  have row: "row_states (nodes_of (w_db w0)) rid (nd_Id n) = NodeStatePending" if "n \<in> set (ps_Nodes spec)" for n
    using that by (simp add: V row_states_def set_rows_def)
  have "between_rounds rid spec (nodes_of (w_db w0))"
    using row assms(3) by (auto simp: between_rounds_def V set_rows_def)
  moreover have "agents_ready rid spec w0"
    using st(6) assms(2,4,5) order_trans [OF of_nat_mono [OF length_filter_le] assms(5)]
    by (simp add: agents_ready_def Let_def)
  moreover obtain n where "n \<in> set (ps_Nodes spec)" using assms(8) by (cases "ps_Nodes spec") auto
  ultimately show ?thesis using st(2,4,6) row by (auto simp: settled_to_def)
qed

lemma settled_rounds:
  assumes "settled_to project rid spec rc [] w" and "\<forall>n. ne_send_fault net n = None"
    and "distinct (map nd_Id (ps_Nodes spec))" and "\<forall>n \<in> set (ps_Nodes spec). Node_GetJob n \<noteq> None"
    and "deps_first {} ns" and "set ns \<subseteq> set (ps_Nodes spec)" and "k \<le> length ns"
  shows "settled_to project rid spec rc (take k ns)
    ((pipeline_round (master_manager (healthy env) net b) rid spec rc ^^ k) w)"
  using assms(7)
proof (induction k)
  case (Suc k)
  then have k: "k < length ns" by simp
  have "deps_first {} (take k ns @ ns ! k # drop (Suc k) ns)" using assms(5) k by (simp add: id_take_nth_drop [symmetric])
  then have "set (nd_DependsOn (ns ! k)) \<subseteq> nd_Id ` set (take k ns)" by (simp add: deps_first_append)
  moreover have "settled_to project rid spec rc (take k ns)
      ((pipeline_round (master_manager (healthy env) net b) rid spec rc ^^ k) w)" using Suc by simp
  moreover have "ns ! k \<in> set (ps_Nodes spec)" "set (take k ns) \<subseteq> set (ps_Nodes spec)"
    using k assms(6) by (auto dest: in_set_takeD)
  ultimately show ?case
    using settled_round [OF _ assms(2-4), where env = env and b = b] k
    by (simp add: take_Suc_conv_app_nth)
qed (use assms(1) in simp)

lemma settled_more_rounds:
  assumes "settled_to project rid spec rc ns w" and "\<forall>n. ne_send_fault net n = None"
    and "distinct (map nd_Id (ps_Nodes spec))" and "\<forall>n \<in> set (ps_Nodes spec). Node_GetJob n \<noteq> None"
    and "set ns = set (ps_Nodes spec)" and "ns \<noteq> []" and "deps_first {} ns"
  shows "settled_to project rid spec rc ns ((pipeline_round (master_manager (healthy env) net b) rid spec rc ^^ k) w)"
proof (induction k)
  case (Suc k)
  have n: "hd ns \<in> set (ps_Nodes spec)" "nd_DependsOn (hd ns) = []"
    using assms(5-7) by (cases ns; auto)+
  have "settled_to project rid spec rc (ns @ [hd ns])
      (pipeline_round (master_manager (healthy env) net b) rid spec rc
        ((pipeline_round (master_manager (healthy env) net b) rid spec rc ^^ k) w))"
    by (rule settled_round [OF Suc assms(2-4) n(1)]) (use n(2) assms(5) in simp_all)
  then have "settled_to project rid spec rc (ns @ [hd ns])
      ((pipeline_round (master_manager (healthy env) net b) rid spec rc ^^ Suc k) w)" by simp
  then show ?case unfolding settled_to_def set_append by blast
qed (use assms(1) in simp)

text \<open>
  Property C15: a pipeline of jobs that \<open>TopoSort\<close> accepts ends. It has at least one node, its nodes are all
  jobs and have distinct IDs; nothing is stored or was sent under the ID of the run; the store answers, sends
  do not fail, and the agents have as many free slots as there are nodes. When every job that reached an
  agent succeeds, rounds of \<open>Advance\<close> and of the completion of these jobs bring, after as many rounds as there
  are nodes, each node whose conditions hold to success and each other one to skipped, where they stay; and if
  no node is skipped the run is in state success from then on.
\<close>

theorem run_completes:
  assumes "store_valid (w_db w)" and "registry_ok (w_disp w)" and "\<forall>i. nodes_of (w_db w) (rid, i) = None"
    and "run_sent rid (registry_sent (w_disp w)) = []" and "int (length (ps_Nodes spec)) \<le> free_slots (w_disp w)"
    and "\<forall>n. ne_send_fault net n = None"
    and "Start (master_manager (healthy env) net b) rid now spec project rc w = (Inr j, w0)"
    and "TopoSort spec = Some (Inr ns)" and "distinct (map nd_Id (ps_Nodes spec))" and "ps_Nodes spec \<noteq> []"
    and "\<forall>n \<in> set (ps_Nodes spec). Node_GetJob n \<noteq> None" and "length (ps_Nodes spec) \<le> k"
    and "w' = (pipeline_round (master_manager (healthy env) net b) rid spec rc ^^ k) w0"
  shows "(\<forall>n \<in> set (ps_Nodes spec). row_states (nodes_of (w_db w')) rid (nd_Id n) =
      (if evalConditions (nd_Conditions n) rc then NodeStateSuccess else NodeStateSkipped))
    \<and> ((\<forall>n \<in> set (ps_Nodes spec). evalConditions (nd_Conditions n) rc) \<longrightarrow>
         runs_of (w_db w') rid = Some (project, RunStateSuccess))"
proof -
  note t = TopoSort_order [OF assms(8)]
  have mem: "set ns = set (ps_Nodes spec)"
  proof
    show "set ns \<subseteq> set (ps_Nodes spec)" using t nodes_byID_Some by blast
    show "set (ps_Nodes spec) \<subseteq> set ns"
    proof
      fix n
      assume n: "n \<in> set (ps_Nodes spec)"
      then obtain m where m: "m \<in> set ns" "nd_Id m = nd_Id n" using t by (metis imageE imageI)
      then have "spec_byID spec (nd_Id n) = Some m" using t by metis
      then show "n \<in> set ns" using nodes_byID_distinct [OF assms(9) n] m(1) by simp
    qed
  qed
  have len: "length ns = length (ps_Nodes spec)"
    using t assms(9) mem by (metis distinct_card distinct_map)
  have ne: "ns \<noteq> []" using mem assms(10) by auto
  let ?round = "pipeline_round (master_manager (healthy env) net b) rid spec rc"
  have "settled_to project rid spec rc (take (length ns) ns) ((?round ^^ length ns) w0)"
    by (rule settled_rounds [OF settled_started [OF assms(1-5,7,11,10)] assms(6,9,11)]) (use t mem in auto)
  then have full: "settled_to project rid spec rc ns ((?round ^^ length ns) w0)" by simp
  have "settled_to project rid spec rc ns ((?round ^^ (k - length ns)) ((?round ^^ length ns) w0))"
    by (rule settled_more_rounds [OF full assms(6,9,11) mem ne]) (use t in simp)
  moreover have "(?round ^^ (k - length ns)) ((?round ^^ length ns) w0) = w'"
    using assms(12,13) len by (simp add: funpow_add [symmetric, unfolded comp_def, THEN fun_cong])
  ultimately have s: "settled_to project rid spec rc ns w'" by simp
  then have st: "row_states (nodes_of (w_db w')) rid (nd_Id n) =
      (if evalConditions (nd_Conditions n) rc then NodeStateSuccess else NodeStateSkipped)"
      if "n \<in> set (ps_Nodes spec)" for n
    using that mem by (fastforce simp: settled_to_def passes_def)
  moreover have "runs_of (w_db w') rid = Some (project, RunStateSuccess)"
    if "\<forall>n \<in> set (ps_Nodes spec). evalConditions (nd_Conditions n) rc"
    using s that st by (auto simp: settled_to_def passes_def)
  ultimately show ?thesis by blast
qed

lemma ex_topo: "TopoSort ex_spec = Some (Inr [ex_build, ex_test])"
  by (simp add: TopoSort_def nodes_byID_def visit.simps ex_spec_def ex_build_def ex_test_def)

lemma ex_healthy: "healthy ex_env = ex_env"
  by (simp add: healthy_def ex_env_def)

theorem run_completes_witness:
  "runs_of (w_db ((pipeline_round ex_manager ''r'' ex_spec ex_rc ^^ 2) ex_started)) ''r'' = Some (''api'', RunStateSuccess)
   \<and> row_states (nodes_of (w_db ((pipeline_round ex_manager ''r'' ex_spec ex_rc ^^ 2) ex_started))) ''r'' ''test''
     = NodeStateSuccess"
proof -
  have none: "\<forall>i. nodes_of (w_db ex_world) (''r'', i) = None" by (simp add: ex_world_def open_store_empty)
  have nodes: "distinct (map nd_Id (ps_Nodes ex_spec))" "ps_Nodes ex_spec \<noteq> []" "length (ps_Nodes ex_spec) \<le> 2"
    "\<forall>n \<in> set (ps_Nodes ex_spec). Node_GetJob n \<noteq> None"
    by (simp_all add: ex_spec_def ex_build_def ex_test_def Node_GetJob_def)
  have agents: "run_sent ''r'' (registry_sent (w_disp ex_world)) = []"
    "int (length (ps_Nodes ex_spec)) \<le> free_slots (w_disp ex_world)"
    by code_simp+
  have sends: "\<forall>n. ne_send_fault ex_net n = None" by (simp add: ex_net_def)
  have pass: "\<forall>n \<in> set (ps_Nodes ex_spec). evalConditions (nd_Conditions n) ex_rc"
    by (simp add: ex_spec_def ex_build_def ex_test_def)
  have test: "ex_test \<in> set (ps_Nodes ex_spec)" "nd_Id ex_test = ''test''" by (simp_all add: ex_spec_def ex_test_def)
  note r = run_completes [where env = ex_env and net = ex_net and b = ex_bus, unfolded ex_healthy ex_manager_def [symmetric],
      OF ex_world_ok none agents sends ex_Start ex_topo nodes(1,2,4,3) refl]
  show ?thesis using r pass test by force
qed

text \<open>
  A run whose last nodes are skipped does not end: only a completion looks whether the run is done, and
  a skipped node has none. Here the second node is skipped after the first has succeeded.
\<close>

definition ex_skip_spec :: PipelineSpec where
  "ex_skip_spec = \<lparr>ps_Workflow = None,
     ps_Nodes = [ex_build, Node ''deploy'' [''build''] [''branch == main''] (Some (Node_Job ex_job))]\<rparr>"

lemma skipped_run_stays_running:
  "(let w0 = snd (Start ex_manager ''r'' 0 ex_skip_spec ''api'' ex_rc ex_world);
        w = (pipeline_round ex_manager ''r'' ex_skip_spec ex_rc ^^ 2) w0 in
    (runs_of (w_db w) ''r'', row_states (nodes_of (w_db w)) ''r'' ''build'', row_states (nodes_of (w_db w)) ''r'' ''deploy''))
   = (Some (''api'', RunStateRunning), NodeStateSuccess, NodeStateSkipped)"
  by code_simp

end
