(* ===== verification/OAuth.thy ===== *)
theory OAuth
  imports Go_Prelude "HOL-Library.Char_ord" "HOL-Library.List_Lexorder"
begin

text \<open>
  \<open>internal/auth/oauth.go\<close>: the login by GitHub. The URL encoding is that of \<open>net/url\<close>; HTTP and the
  JSON decoder are parameters.
\<close>

section \<open>Package net/url\<close>

definition upper_hex :: "nat \<Rightarrow> char" where
  "upper_hex n = (if n < 10 then char_of (48 + n) else char_of (55 + n))"

text \<open>The bytes that \<open>url.QueryEscape\<close> leaves as they are: letters, digits and \<open>-_.~\<close>.\<close>

definition unreserved :: "char \<Rightarrow> bool" where
  "unreserved c \<longleftrightarrow>
     (let n = of_char c :: nat in
      65 \<le> n \<and> n \<le> 90 \<or> 97 \<le> n \<and> n \<le> 122 \<or> 48 \<le> n \<and> n \<le> 57
      \<or> n = 45 \<or> n = 95 \<or> n = 46 \<or> n = 126)"

fun QueryEscape :: "string \<Rightarrow> string" where
  "QueryEscape [] = []"
| "QueryEscape (c # cs) =
     (if unreserved c then [c]
      else if c = CHR '' '' then ''+''
      else [CHR ''%'', upper_hex (of_char c div 16), upper_hex (of_char c mod 16)]) @ QueryEscape cs"

fun join_with :: "char \<Rightarrow> string list \<Rightarrow> string" where
  "join_with sep [] = []"
| "join_with sep [x] = x"
| "join_with sep (x # y # ys) = x @ sep # join_with sep (y # ys)"

text \<open>\<open>Values.Encode\<close> for keys with one value each: sorted by key.\<close>

definition url_Encode :: "(string \<times> string) list \<Rightarrow> string" where
  "url_Encode v =
     join_with CHR ''&'' (map (\<lambda>(k, x). QueryEscape k @ ''='' @ QueryEscape x) (sort_key fst v))"

section \<open>The flow\<close>

record OAuthConfig =
  oc_ClientID :: string
  oc_ClientSecret :: string
  oc_RedirectURL :: string

definition AuthorizeURL :: "OAuthConfig \<Rightarrow> string \<Rightarrow> string" where
  "AuthorizeURL c state =
     ''https://github.com/login/oauth/authorize?'' @ url_Encode
       [(''client_id'', oc_ClientID c), (''redirect_uri'', oc_RedirectURL c), (''scope'', ''read:user''),
        (''state'', state)]"

record oauth_request =
  or_Method :: string
  or_URL :: string
  or_Header :: "(string \<times> string) list"
  or_Body :: string

record oauth_response =
  os_StatusCode :: nat
  os_Body :: string

type_synonym 's oauth_http = "oauth_request \<Rightarrow> 's \<Rightarrow> oauth_response result \<times> 's"

text \<open>
  \<open>Exchange\<close>: the decoder gives the fields \<open>access_token\<close> and \<open>error\<close>, empty where the answer has
  none. The constant URLs are valid, so \<open>http.NewRequest\<close> gives no error.
\<close>

definition Exchange ::
  "'s oauth_http \<Rightarrow> (string \<Rightarrow> (string \<times> string) result) \<Rightarrow> OAuthConfig \<Rightarrow> string \<Rightarrow> 's \<Rightarrow> string result \<times> 's"
where
  "Exchange http decode c code s =
     (let v = [(''client_id'', oc_ClientID c), (''client_secret'', oc_ClientSecret c), (''code'', code)] in
      case http \<lparr>or_Method = ''POST'', or_URL = ''https://github.com/login/oauth/access_token'',
             or_Header = [(''Accept'', ''application/json''), (''Content-Type'', ''application/x-www-form-urlencoded'')],
             or_Body = url_Encode v\<rparr> s of
        (Inl e, s1) \<Rightarrow> (Inl (Wrapf ''exchange code'' [] e), s1)
      | (Inr resp, s1) \<Rightarrow>
          ((case decode (os_Body resp) of
              Inl e \<Rightarrow> Inl (Wrapf ''decode token response'' [] e)
            | Inr (token, error) \<Rightarrow>
                if error \<noteq> [] then Inl (Errorf ''github oauth error: %s'' [error]) else Inr token), s1))"

record GitHubUser =
  gu_ID :: "64 word"
  gu_Login :: string

definition GetUser ::
  "'s oauth_http \<Rightarrow> (string \<Rightarrow> GitHubUser result) \<Rightarrow> string \<Rightarrow> 's \<Rightarrow> GitHubUser result \<times> 's" where
  "GetUser http decode accessToken s =
     (case http \<lparr>or_Method = ''GET'', or_URL = ''https://api.github.com/user'',
            or_Header = [(''Authorization'', ''Bearer '' @ accessToken), (''Accept'', ''application/vnd.github+json'')],
            or_Body = []\<rparr> s of
        (Inl e, s1) \<Rightarrow> (Inl (Wrapf ''get github user'' [] e), s1)
      | (Inr resp, s1) \<Rightarrow>
          (if os_StatusCode resp \<noteq> 200
           then (Inl (Errorf ''github user: status %d'' [decimal (os_StatusCode resp)]), s1)
           else ((case decode (os_Body resp) of
                    Inl e \<Rightarrow> Inl (Wrapf ''decode user'' [] e)
                  | Inr u \<Rightarrow> Inr u), s1)))"

text \<open>
  \<open>Exchange\<close> does not look at the status: an answer that is not a token, such as an error page whose JSON
  has other fields, is an empty token without an error.
\<close>

lemma Exchange_ignores_status:
  assumes "\<And>q. http q s = (Inr \<lparr>os_StatusCode = 500, os_Body = body\<rparr>, s1)" and "decode body = Inr ([], [])"
  shows "Exchange http decode c code s = (Inr [], s1)"
  using assms by (simp add: Exchange_def Let_def)

section \<open>The query says what was put into it\<close>

text \<open>The reader of a query, by its standard: fields between ampersands, each cut at its first equals sign.\<close>

fun unescape :: "string \<Rightarrow> string option" where
  "unescape [] = Some []"
| "unescape (c # cs) =
     (if c = CHR ''+'' then map_option (Cons CHR '' '') (unescape cs)
      else if c = CHR ''%'' then
        (case cs of
           a # b # r \<Rightarrow>
             (case (hex_value a, hex_value b) of
                (Some x, Some y) \<Rightarrow> map_option (Cons (char_of (16 * x + y))) (unescape r)
              | _ \<Rightarrow> None)
         | _ \<Rightarrow> None)
      else map_option (Cons c) (unescape cs))"

fun split_on :: "char \<Rightarrow> string \<Rightarrow> string list" where
  "split_on sep [] = [[]]"
| "split_on sep (c # cs) =
     (if c = sep then [] # split_on sep cs
      else case split_on sep cs of [] \<Rightarrow> [[c]] | x # xs \<Rightarrow> (c # x) # xs)"

definition read_field :: "string \<Rightarrow> (string \<times> string) option" where
  "read_field f =
     (let k = takeWhile (\<lambda>c. c \<noteq> CHR ''='') f; v = drop (Suc (length k)) f in
      case (unescape k, unescape v) of (Some a, Some b) \<Rightarrow> Some (a, b) | _ \<Rightarrow> None)"

definition read_query :: "string \<Rightarrow> (string \<times> string) option list" where
  "read_query q = map read_field (split_on CHR ''&'' q)"

lemma upper_hex_value: "n < 16 \<Longrightarrow> hex_value (upper_hex n) = Some n"
  by (auto simp: hex_value_def upper_hex_def Let_def)

lemma upper_hex_unreserved: "n < 16 \<Longrightarrow> unreserved (upper_hex n)"
  by (auto simp: unreserved_def upper_hex_def Let_def)

lemma QueryEscape_chars:
  "c \<in> set (QueryEscape s) \<Longrightarrow> unreserved c \<or> c = CHR ''+'' \<or> c = CHR ''%''"
proof (induction s)
  case (Cons d s)
  have "(of_char d :: nat) < 256" by simp
  then have "(of_char d :: nat) div 16 < 16" by linarith
  then show ?case using Cons upper_hex_unreserved by (auto split: if_splits)
qed simp

lemma unreserved_not: "\<not> unreserved CHR ''+''" "\<not> unreserved CHR ''%''" "\<not> unreserved CHR ''&''"
  "\<not> unreserved CHR ''=''"
  by (simp_all add: unreserved_def)

lemma unescape_QueryEscape: "unescape (QueryEscape s) = Some s"
proof (induction s)
  case (Cons c s)
  have n: "(of_char c :: nat) < 256" by simp
  then have h: "(of_char c :: nat) div 16 < 16" by linarith
  have bk: "char_of (16 * (of_char c div 16) + of_char c mod 16 :: nat) = c" by simp
  show ?case
  proof (cases "unreserved c \<or> c = CHR '' ''")
    case True
    then have "c \<noteq> CHR ''+''" "c \<noteq> CHR ''%''" using unreserved_not by auto
    then show ?thesis using True Cons by auto
  next
    case False
    then have "unescape (QueryEscape (c # s)) =
        map_option (Cons (char_of (16 * (of_char c div 16) + of_char c mod 16 :: nat))) (unescape (QueryEscape s))"
      using h by (simp add: upper_hex_value del: mult_div_mod_eq)
    then show ?thesis unfolding bk by (simp add: Cons)
  qed
qed simp

lemma split_on_not_Nil [simp]: "split_on sep s \<noteq> []"
  by (cases s) (auto split: list.splits)

lemma split_on_plain: "sep \<notin> set x \<Longrightarrow> split_on sep x = [x]"
  by (induction x) auto

lemma split_on_append: "sep \<notin> set x \<Longrightarrow> split_on sep (x @ sep # s) = x # split_on sep s"
  by (induction x) auto

lemma split_on_join:
  "xs \<noteq> [] \<Longrightarrow> \<forall>x \<in> set xs. sep \<notin> set x \<Longrightarrow> split_on sep (join_with sep xs) = xs"
  by (induction sep xs rule: join_with.induct) (simp_all add: split_on_plain split_on_append)

lemma read_field_Escape: "read_field (QueryEscape k @ ''='' @ QueryEscape v) = Some (k, v)"
proof -
  have "CHR ''='' \<notin> set (QueryEscape k)" using QueryEscape_chars [of "CHR ''=''" k] unreserved_not by auto
  then have "takeWhile (\<lambda>c. c \<noteq> CHR ''='') (QueryEscape k @ ''='' @ QueryEscape v) = QueryEscape k"
    by (subst takeWhile_append2) auto
  then show ?thesis by (simp add: read_field_def Let_def unescape_QueryEscape)
qed

lemma read_url_Encode: "v \<noteq> [] \<Longrightarrow> read_query (url_Encode v) = map Some (sort_key fst v)"
proof -
  assume v: "v \<noteq> []"
  let ?fs = "map (\<lambda>(k, x). QueryEscape k @ ''='' @ QueryEscape x) (sort_key fst v)"
  have "CHR ''&'' \<notin> set (QueryEscape s)" for s using QueryEscape_chars [of "CHR ''&''" s] unreserved_not by auto
  then have p: "\<forall>x \<in> set ?fs. CHR ''&'' \<notin> set x" by auto
  have "sort_key fst v \<noteq> []" using v by (metis length_0_conv length_sort)
  then have "split_on CHR ''&'' (url_Encode v) = ?fs"
    unfolding url_Encode_def by (intro split_on_join p) simp
  then show ?thesis using read_field_Escape by (auto simp: read_query_def)
qed

text \<open>
  Property C40: the parameters of the login URL are what they were meant to be. Whatever bytes the state, the
  client ID and the redirect URL consist of, the query after the question mark reads as exactly the four
  parameters with these values, so none of them can add or replace another.
\<close>

theorem AuthorizeURL_query:
  "\<exists>q. AuthorizeURL c state = ''https://github.com/login/oauth/authorize?'' @ q
     \<and> read_query q = map Some [(''client_id'', oc_ClientID c), (''redirect_uri'', oc_RedirectURL c),
         (''scope'', ''read:user''), (''state'', state)]"
proof -
  let ?v = "[(''client_id'', oc_ClientID c), (''redirect_uri'', oc_RedirectURL c), (''scope'', ''read:user''), (''state'', state)]"
  have "sort_key fst ?v = ?v" by (rule sort_key_id_if_sorted) code_simp
  then show ?thesis using read_url_Encode [of ?v] by (auto simp: AuthorizeURL_def)
qed

text \<open>A state that tries to.\<close>

lemma AuthorizeURL_query_example:
  "AuthorizeURL \<lparr>oc_ClientID = ''id'', oc_ClientSecret = ''s'', oc_RedirectURL = ''http://h/cb''\<rparr> ''x&scope=repo''
   = ''https://github.com/login/oauth/authorize?client_id=id&redirect_uri=http%3A%2F%2Fh%2Fcb&scope=read%3Auser&state=x%26scope%3Drepo''"
  by code_simp

end
