(* ===== verification/Runner.thy ===== *)
theory Runner
  imports Go_Prelude Proto_Msgs
begin

text \<open>
  \<open>internal/runner\<close>: the interface of an execution backend and its two implementations, which answer
  every call with an error. The master does not use them: it dispatches to its registry.
\<close>

record 'r Runner =
  rn_Dispatch :: "JobDispatch \<Rightarrow> 'r \<Rightarrow> unit result \<times> 'r"
  rn_Cancel :: "string \<Rightarrow> 'r \<Rightarrow> unit result \<times> 'r"

record NomadRunner =
  nm_addr :: string

definition NewNomadRunner :: "string \<Rightarrow> NomadRunner" where
  "NewNomadRunner addr = \<lparr>nm_addr = addr\<rparr>"

definition Nomad_Dispatch :: "JobDispatch \<Rightarrow> NomadRunner \<Rightarrow> unit result \<times> NomadRunner" where
  "Nomad_Dispatch job n = (Inl (Errorf ''nomad runner: not implemented (job %s)'' [jd_JobId job]), n)"

definition Nomad_Cancel :: "string \<Rightarrow> NomadRunner \<Rightarrow> unit result \<times> NomadRunner" where
  "Nomad_Cancel jobID n = (Inl (Errorf ''nomad runner: not implemented (job %s)'' [jobID]), n)"

record K8sRunner =
  ks_namespace :: string
  ks_image :: string

definition NewK8sRunner :: "string \<Rightarrow> string \<Rightarrow> K8sRunner" where
  "NewK8sRunner namespace img = \<lparr>ks_namespace = namespace, ks_image = img\<rparr>"

definition K8s_Dispatch :: "JobDispatch \<Rightarrow> K8sRunner \<Rightarrow> unit result \<times> K8sRunner" where
  "K8s_Dispatch job k = (Inl (Errorf ''k8s runner: not implemented (job %s)'' [jd_JobId job]), k)"

definition K8s_Cancel :: "string \<Rightarrow> K8sRunner \<Rightarrow> unit result \<times> K8sRunner" where
  "K8s_Cancel jobID k = (Inl (Errorf ''k8s runner: not implemented (job %s)'' [jobID]), k)"

text \<open>The two as values of the interface.\<close>

definition Nomad_Runner :: "NomadRunner Runner" where
  "Nomad_Runner = \<lparr>rn_Dispatch = Nomad_Dispatch, rn_Cancel = Nomad_Cancel\<rparr>"

definition K8s_Runner :: "K8sRunner Runner" where
  "K8s_Runner = \<lparr>rn_Dispatch = K8s_Dispatch, rn_Cancel = K8s_Cancel\<rparr>"

end
