(* ===== verification/Master_Main.thy ===== *)
theory Master_Main
  imports Master_Props Config
begin

text \<open>
  The function \<open>run\<close> of \<open>cmd/master/main.go\<close>: what the master is made of when it starts serving, how it
  ends, and what becomes of the runs that a database holds when a master starts on it.
\<close>

section \<open>The start\<close>

text \<open>
  The operating system: environment variables (empty where unset), files, the result of \<open>net.Listen\<close> for an
  address, and the databases behind the two drivers.
\<close>

record operating_system =
  op_Getenv :: "string \<Rightarrow> string"
  op_files :: "string \<Rightarrow> file_status"
  op_Listen :: "string \<Rightarrow> unit result"
  op_sqlite :: "SQLiteDB sql_driver"
  op_postgres :: "PostgresDB sql_driver"

definition open_db :: "operating_system \<Rightarrow> Config \<Rightarrow> db_value result" where
  "open_db os cfg =
     (let dbURL = op_Getenv os ''DATABASE_URL'';
          store = (if dbURL \<noteq> [] then map_sum id DB_Postgres (OpenPostgres (op_postgres os) dbURL)
                   else map_sum id DB_SQLite (OpenSQLite (op_sqlite os) (dc_SQLitePath (cfg_DB cfg)))) in
      case store of
        Inl e \<Rightarrow> Inl (Wrapf ''open db'' [] e)
      | Inr s \<Rightarrow> Inr s)"

text \<open>
  A master that serves: the state of its parts, the addresses and the webhook's handler, which starts runs
  with an ID and at a time that come from outside. \<open>grpc.NewServer\<close> is given no interceptor.
\<close>

record 'h serving =
  sv_world :: "(db_value, Registry, 'h) world"
  sv_grpc :: string
  sv_http :: string
  sv_brazier :: "(db_value, Registry, 'h) BrazierServer"
  sv_agent :: "db_value AgentServer"
  sv_webhook :: "string \<Rightarrow> time \<Rightarrow> (db_value, Registry, 'h) world webhook_Handler"
  sv_AuthEnabled :: bool

definition run_serve ::
  "yaml_decoder \<Rightarrow> operating_system \<Rightarrow> sql_env \<Rightarrow> net_env \<Rightarrow> 'h Bus \<Rightarrow> 'h \<Rightarrow> 'h serving result" where
  "run_serve yaml os env net b h =
     (case run_config yaml (op_files os) (op_Getenv os ''BRAZIER_CONFIG'') of
        Inl e \<Rightarrow> Inl e
      | Inr cfg \<Rightarrow>
          (case open_db os cfg of
             Inl e \<Rightarrow> Inl e
           | Inr store \<Rightarrow>
               (let w = \<lparr>w_db = store, w_disp = registry_New, w_subs = h, w_tasks = []\<rparr>;
                    mgr = master_manager env net b;
                    grpcPort = sc_GRPCPort (cfg_Server cfg);
                    httpPort = sc_HTTPPort (cfg_Server cfg);
                    webhookSecret = op_Getenv os ''GITHUB_WEBHOOK_SECRET'' in
                case op_Listen os ('':'' @ grpcPort) of
                  Inl e \<Rightarrow> Inl (Wrapf ''listen grpc'' [] e)
                | Inr _ \<Rightarrow>
                    Inr \<lparr>sv_world = w, sv_grpc = '':'' @ grpcPort, sv_http = '':'' @ httpPort,
                         sv_brazier = NewBrazierServer (store_DB env) mgr, sv_agent = NewAgentServer (store_DB env),
                         sv_webhook = (\<lambda>runID now. webhook_New webhookSecret (webhook_trigger mgr runID now)),
                         sv_AuthEnabled = False\<rparr>)))"

text \<open>The pattern under which \<open>http.ServeMux\<close> finds a path, if any, decides who answers.\<close>

definition mux_ServeHTTP ::
  "(string \<Rightarrow> string \<Rightarrow> string) \<Rightarrow> (string \<Rightarrow> githubPushPayload result) \<Rightarrow> 'k webhook_Handler \<Rightarrow>
   string option \<Rightarrow> http_request \<Rightarrow> 'k \<Rightarrow> nat \<times> 'k" where
  "mux_ServeHTTP hmac json h pattern r k =
     (if pattern = Some ''/webhook'' then webhook_ServeHTTP hmac json h r k
      else if pattern = Some ''/healthz'' then (200, k)
      else (404, k))"

section \<open>The end\<close>

text \<open>
  The \<open>select\<close>: a signal, after which the servers are shut down, or the first return of one of the two. \<open>Serve\<close> returns nil
  only after it was stopped.
\<close>

datatype serve_end = Signalled | Server_returned "go_error option"

definition run_end :: "serve_end \<Rightarrow> unit result" where
  "run_end ev =
     (case ev of
        Signalled \<Rightarrow> Inr ()
      | Server_returned (Some e) \<Rightarrow> Inl e
      | Server_returned None \<Rightarrow> Inr ())"

definition master_run ::
  "yaml_decoder \<Rightarrow> operating_system \<Rightarrow> sql_env \<Rightarrow> net_env \<Rightarrow> 'h Bus \<Rightarrow> 'h \<Rightarrow> serve_end \<Rightarrow> unit result" where
  "master_run yaml os env net b h ev =
     (case run_serve yaml os env net b h of Inl e \<Rightarrow> Inl e | Inr _ \<Rightarrow> run_end ev)"

text \<open>The status of the process.\<close>

definition master_main ::
  "yaml_decoder \<Rightarrow> operating_system \<Rightarrow> sql_env \<Rightarrow> net_env \<Rightarrow> 'h Bus \<Rightarrow> 'h \<Rightarrow> serve_end \<Rightarrow> nat" where
  "master_main yaml os env net b h ev =
     (case master_run yaml os env net b h ev of Inl _ \<Rightarrow> 1 | Inr _ \<Rightarrow> 0)"

lemma run_serve_Inr:
  assumes "run_serve yaml os env net b h = Inr sv"
  obtains cfg s where "run_config yaml (op_files os) (op_Getenv os ''BRAZIER_CONFIG'') = Inr cfg"
    and "open_db os cfg = Inr s"
    and "sv_world sv = \<lparr>w_db = s, w_disp = registry_New, w_subs = h, w_tasks = []\<rparr>"
  using assms by (auto simp: run_serve_def Let_def split: sum.splits)

text \<open>The database that a driver holds, if it is valid, or the empty one.\<close>

definition driver_valid :: "('t \<Rightarrow> bool) \<Rightarrow> 't sql_driver \<Rightarrow> bool" where
  "driver_valid V drv \<longleftrightarrow> (\<forall>path t. sd_tables drv path = Some t \<longrightarrow> V t)"

lemma open_db_valid:
  assumes "driver_valid SQLite_valid (op_sqlite os)" and "driver_valid Postgres_valid (op_postgres os)"
    and "open_db os cfg = Inr s"
  shows "store_valid s"
  using assms SQLite_valid_new Postgres_valid_new
  by (auto simp: open_db_def OpenSQLite_def OpenPostgres_def SQLite_migrate_def Postgres_migrate_def
      migrated_def driver_valid_def Let_def split: sum.splits if_splits option.splits)

section \<open>Runs that were there before\<close>

text \<open>
  What the steps of a master keep of a run that was there when it started: its rows, its state (unless it is cancelled), that no
  goroutine and no job that was sent is one of it.
\<close>

definition stranded ::
  "string \<Rightarrow> string \<Rightarrow> RunState \<Rightarrow> (string \<Rightarrow> (string \<times> NodeState) option) \<Rightarrow>
   (db_value, Registry, 'h) world \<Rightarrow> bool" where
  "stranded rid p st rows w \<longleftrightarrow>
     store_valid (w_db w) \<and> registry_ok (w_disp w)
     \<and> runs_of (w_db w) rid \<in> {Some (p, st), Some (p, RunStateCancelled)}
     \<and> (\<forall>i. nodes_of (w_db w) (rid, i) = rows i)
     \<and> rid \<notin> at_runID ` set (w_tasks w) \<and> rid \<notin> fst ` set (registry_sent (w_disp w))"

lemma stranded_reads:
  assumes "stranded rid p st rows w" and "reads_only store_valid runs_of nodes_of (w_db w) s"
  shows "stranded rid p st rows (w\<lparr>w_db := s\<rparr>)"
  using assms by (simp add: stranded_def reads_only_def)

lemma stranded_start:
  assumes w: "stranded rid p st rows w"
    and start: "Start (master_manager env net b) r now spec project rc w = (q, w')"
  shows "stranded rid p st rows w'"
proof -
  have v: "store_valid (w_db w)" using w by (simp add: stranded_def)
  have ne: "r \<noteq> rid" if "runs_of (w_db w) r = None" using w that by (auto simp: stranded_def)
  show ?thesis
  proof (cases q)
    case (Inl e)
    then show ?thesis using mgr.Start_err [OF v start [unfolded Inl]] w ne
      by (auto simp: stranded_def set_rows_def)
  next
    case (Inr i)
    note eff = mgr.Start_ok [OF v start [unfolded Inr]]
    show ?thesis using w ne [OF eff(3)] eff(2) by (auto simp: stranded_def set_rows_def eff(4-7))
  qed
qed

lemma stranded_goroutine:
  assumes w: "stranded rid p st rows w" and ts: "w_tasks w = ts1 @ t # ts2"
  shows "stranded rid p st rows (run_task (master_manager env net b) t (w\<lparr>w_tasks := ts1 @ ts2\<rparr>))"
proof -
  let ?w0 = "w\<lparr>w_tasks := ts1 @ ts2\<rparr>" and ?r = "at_runID t"
  let ?w' = "Advance (master_scheduler env net b) ?r (at_spec t) (at_rc t) ?w0"
  have v: "store_valid (w_db ?w0)" "registry_ok (w_disp ?w0)" using w by (simp_all add: stranded_def)
  have ne: "?r \<noteq> rid" using w ts by (auto simp: stranded_def)
  note out = master.Advance_outcome [OF v, of ?r "at_rc t" "at_spec t" env net b, unfolded loop_outcome_def]
  have "nodes_of (w_db ?w') (rid, i) = nodes_of (w_db w) (rid, i)" for i
    using out ne by (auto simp: row_due_def)
  moreover have "rid \<notin> fst ` set (registry_sent (w_disp ?w'))"
    using out w ne by (auto simp: sent_ready_def stranded_def)
  ultimately have "stranded rid p st rows ?w'" using out w ts by (auto simp: stranded_def)
  then show ?thesis by (simp add: run_task_def master_manager_def NewManager_def)
qed

lemma stranded_cancel:
  assumes w: "stranded rid p st rows w"
  shows "stranded rid p st rows (w\<lparr>w_db := snd (CancelRun (store_DB env) r (w_db w))\<rparr>)"
proof -
  have v: "store_valid (w_db w)" using w by (simp add: stranded_def)
  obtain q s where c: "db_UpdateRunState (store_DB env) r RunStateCancelled (w_db w) = (q, s)"
    by (metis surj_pair)
  have s: "snd (CancelRun (store_DB env) r (w_db w)) = s" using c by (cases q) (simp_all add: CancelRun_def)
  show ?thesis
  proof (cases q)
    case (Inl e)
    with store.update_run_err [OF v c [unfolded Inl]] show ?thesis unfolding s by (intro stranded_reads [OF w])
  next
    case (Inr u)
    note eff = store.update_run_ok [OF v c [unfolded Inr]]
    show ?thesis unfolding s using eff w by (auto simp: stranded_def split: if_splits)
  qed
qed

lemma stranded_step:
  assumes "master_step env net b w w'" and w: "stranded rid p st rows w"
  shows "stranded rid p st rows w'"
proof -
  have v: "store_valid (w_db w)" "registry_ok (w_disp w)" using w by (simp_all add: stranded_def)
  from assms(1) v show ?thesis
  proof (cases rule: master_step_cases)
    case start
    then show ?thesis by (rule stranded_start [OF w])
  next
    case (goroutine ts1 t ts2)
    show ?thesis unfolding goroutine(2) by (rule stranded_goroutine [OF w goroutine(1)])
  next
    case cancel
    then show ?thesis using stranded_cancel [OF w] by simp
  next
    case reads
    then show ?thesis using stranded_reads [OF w] by simp
  next
    case (agents d)
    then show ?thesis using w by (simp add: stranded_def)
  qed
qed

text \<open>
  Property C17: a master does not take up the runs it finds. When it starts on a database of an earlier one
  (with tables as a master leaves them), then whatever its clients, its agents and GitHub do: of a run that was there no job is
  sent to an agent and no row of a node changes, and its state stays what it was or becomes cancelled. A
  run that was pending or running when a master stopped does not go on.
\<close>

theorem restart_strands_runs:
  assumes "run_serve yaml os env net b h = Inr sv"
    and "driver_valid SQLite_valid (op_sqlite os)" and "driver_valid Postgres_valid (op_postgres os)"
    and "(master_step env net b)\<^sup>*\<^sup>* (sv_world sv) w"
    and "runs_of (w_db (sv_world sv)) rid = Some (p, st)"
  shows "(\<forall>x \<in> set (registry_sent (w_disp w)). fst x \<noteq> rid)
    \<and> (\<forall>i. nodes_of (w_db w) (rid, i) = nodes_of (w_db (sv_world sv)) (rid, i))
    \<and> runs_of (w_db w) rid \<in> {Some (p, st), Some (p, RunStateCancelled)}"
proof -
  let ?rows = "\<lambda>i. nodes_of (w_db (sv_world sv)) (rid, i)"
  obtain cfg s where "open_db os cfg = Inr s"
    and sv: "sv_world sv = \<lparr>w_db = s, w_disp = registry_New, w_subs = h, w_tasks = []\<rparr>"
    using run_serve_Inr [OF assms(1)] by metis
  then have "store_valid s" using open_db_valid assms(2,3) by blast
  moreover have "registry_sent registry_New = []" by (simp add: registry_sent_def registry_New_def)
  ultimately have "stranded rid p st ?rows (sv_world sv)"
    using assms(5) by (simp add: stranded_def sv registry_ok_New)
  with assms(4) have "stranded rid p st ?rows w"
    by (induction rule: rtranclp_induct) (auto intro: stranded_step)
  then show ?thesis unfolding stranded_def by (auto simp: image_iff)
qed

text \<open>A master is stopped after it has started a run and before the goroutine ran; the next one gets an agent.\<close>

definition ex_os :: operating_system where
  "ex_os =
     \<lparr>op_Getenv = (\<lambda>_. []), op_files = (\<lambda>_. File_missing), op_Listen = (\<lambda>_. Inr ()),
      op_sqlite = \<lparr>sd_Open = (\<lambda>_. Inr ()),
                   sd_tables = (\<lambda>_. case w_db wired2 of DB_SQLite db \<Rightarrow> Some db | DB_Postgres _ \<Rightarrow> None),
                   sd_Exec = (\<lambda>_. Inr ())\<rparr>,
      op_postgres = \<lparr>sd_Open = (\<lambda>_. Inr ()), sd_tables = (\<lambda>_. None), sd_Exec = (\<lambda>_. Inr ())\<rparr>\<rparr>"

definition ex_serving :: "Event list serving" where
  "ex_serving = projr (run_serve (\<lambda>_ c. Inr c) ex_os ex_env ex_net ex_bus [])"

definition ex_restarted where
  "ex_restarted = (sv_world ex_serving)\<lparr>w_disp := Register_connect ex_agent 0 (w_disp (sv_world ex_serving))\<rparr>"

lemma ex_stored: "w_db (sv_world ex_serving) = w_db wired2"
  by code_simp

lemma ex_serves: "run_serve (\<lambda>_ c. Inr c) ex_os ex_env ex_net ex_bus [] = Inr ex_serving"
  by (simp add: ex_serving_def run_serve_def run_config_def LoadOptional_def open_db_def OpenSQLite_def
      SQLite_migrate_def migrated_def ex_os_def Let_def)

theorem restart_strands_runs_witness:
  "registry_sent (w_disp ex_restarted) = [] \<and> runs_of (w_db wired2) ''r'' = Some (''api'', RunStateRunning)
   \<and> nodes_of (w_db ex_restarted) (''r'', ''build'') = Some ([], NodeStatePending)"
proof -
  note run = ex_serves
  have "store_valid (w_db wired2)" by (rule wired_valid [OF master_reach_inv [OF wired2_reach]])
  then have lite: "driver_valid SQLite_valid (op_sqlite ex_os)"
    by (auto simp: driver_valid_def ex_os_def split: db_value.splits)
  have pg: "driver_valid Postgres_valid (op_postgres ex_os)" by (simp add: driver_valid_def ex_os_def)
  have "master_step ex_env ex_net ex_bus (sv_world ex_serving) ex_restarted"
    unfolding ex_restarted_def by (rule master_step.agent_connects)
  then have step: "(master_step ex_env ex_net ex_bus)\<^sup>*\<^sup>* (sv_world ex_serving) ex_restarted" by (rule r_into_rtranclp)
  have r: "runs_of (w_db wired2) ''r'' = Some (''api'', RunStateRunning)"
    and row: "nodes_of (w_db wired2) (''r'', ''build'') = Some ([], NodeStatePending)" by code_simp+
  note all = restart_strands_runs [OF run lite pg step r [folded ex_stored]]
  have "registry_sent (w_disp ex_restarted) = []" by code_simp
  with all r row show ?thesis by (simp add: ex_stored)
qed

end
