(* ===== verification/Sdk_Examples.thy ===== *)
theory Sdk_Examples
  imports Workflow Topo_Sort
begin

text \<open>
  The two programs of \<open>sdk/go/examples\<close>, as the values that they give to \<open>Run\<close> and \<open>RunWorkflow\<close>.
\<close>

definition zero_JobSpec :: sdk_JobSpec where
  "zero_JobSpec = \<lparr>sdk_Commands = [], sdk_Env = [], sdk_Secrets = [], sdk_ArtifactPaths = []\<rparr>"

definition example_Brazierfile :: Pipeline where
  "example_Brazierfile =
     NewPipeline ([UseWorkflow ''build-test-deploy'' ''v1.2.0''] @
       sdk_Nodes
         [Nodeable_Job (sdk_Job ''lint'' (zero_JobSpec\<lparr>sdk_Commands := [''go vet ./...'', ''golangci-lint run'']\<rparr>)),
          Nodeable_Stage (StageNode_DependsOn
            (sdk_Stage ''test''
               [sdk_Job ''unit'' (zero_JobSpec\<lparr>sdk_Commands := [''go test ./...'']\<rparr>),
                sdk_Job ''integration'' (zero_JobSpec\<lparr>sdk_Commands := [''go test -tags=integration ./...'']\<rparr>)])
            [''lint'']),
          Nodeable_Job (JobNode_DependsOn
            (sdk_Job ''build'' (zero_JobSpec\<lparr>sdk_Commands := [''go build -o bin/app ./cmd/app''],
                                             sdk_ArtifactPaths := [''bin/app'']\<rparr>))
            [''test'']),
          Nodeable_Job (JobNode_When
            (JobNode_DependsOn
               (sdk_Job ''deploy'' (zero_JobSpec\<lparr>sdk_Commands := [''./scripts/deploy.sh''],
                                                 sdk_Secrets := [''DEPLOY_TOKEN'']\<rparr>))
               [''build''])
            [OnBranch ''main''])])"

definition example_workflow :: WorkflowDAG where
  "example_workflow =
     NewWorkflow ''build-test-deploy'' ''v1.2.0''
       [WorkflowNodes
         [sdk_Node ''lint'',
          WorkflowNode_DependsOn (sdk_Node ''test'') [''lint''],
          WorkflowNode_DependsOn (sdk_Node ''build'') [''test''],
          WorkflowNode_When (WorkflowNode_DependsOn (sdk_Node ''deploy'') [''build'']) [OnBranch ''main'']]]"

text \<open>The workflow that the pipeline names is its shape: the same nodes with their dependencies and conditions.\<close>

definition node_shape :: "Node \<Rightarrow> string \<times> string list \<times> string list" where
  "node_shape n = (nd_Id n, nd_DependsOn n, nd_Conditions n)"

lemma example_shape:
  "map node_shape (ps_Nodes example_Brazierfile) = map node_shape (wd_Nodes example_workflow)
   \<and> ps_Workflow example_Brazierfile
     = Some \<lparr>wr_Name = wd_Name example_workflow, wr_Version = wd_Version example_workflow\<rparr>"
  by code_simp

text \<open>The two \<open>main\<close> functions: the programs end with \<open>Run\<close> and \<open>RunWorkflow\<close>.\<close>

definition Brazierfile_main ::
  "(PipelineSpec \<Rightarrow> string result) \<Rightarrow> (string \<Rightarrow> (nat \<times> string) option) \<Rightarrow> (go_error \<Rightarrow> string) \<Rightarrow> process_end"
where
  "Brazierfile_main marshal write Error = sdk_Run marshal write Error example_Brazierfile"

definition workflow_main ::
  "(WorkflowDAG \<Rightarrow> string result) \<Rightarrow> (string \<Rightarrow> (nat \<times> string) option) \<Rightarrow> (go_error \<Rightarrow> string) \<Rightarrow> process_end"
where
  "workflow_main marshal write Error = sdk_RunWorkflow marshal write Error example_workflow"

end
