(* ===== verification/Stage_Props.thy ===== *)
theory Stage_Props
  imports Pipeline_Props Sdk_Examples
begin

text \<open>
  What becomes of a stage. Its jobs are dispatched, and complete, under IDs of their own
  (\<open>stage/job\<close>); the row of the stage itself has the ID of the node, under which nothing is dispatched.
\<close>

section \<open>The row of a stage\<close>

lemma stage_job_rows:
  assumes "Node_GetStage s \<noteq> None" and "distinct (node_rows s)" and "(i, j) \<in> set (node_jobs s)"
  shows "i \<noteq> nd_Id s"
  using assms by (auto simp: node_jobs_def node_rows_def Node_GetStage_def split: option.splits Node_Kind.splits)

lemma distinct_node_rows:
  "distinct_rows spec \<Longrightarrow> s \<in> set (ps_Nodes spec) \<Longrightarrow> distinct (node_rows s)"
proof -
  have "distinct (concat xss) \<Longrightarrow> xs \<in> set xss \<Longrightarrow> distinct xs" for xss :: "string list list" and xs
    by (induction xss) auto
  then show "distinct_rows spec \<Longrightarrow> s \<in> set (ps_Nodes spec) \<Longrightarrow> distinct (node_rows s)"
    unfolding distinct_rows_def by auto
qed

text \<open>Nothing that was sent for the run has the ID of a stage.\<close>

lemma stage_not_sent:
  assumes "distinct_rows spec" and "s \<in> set (ps_Nodes spec)" and "Node_GetStage s \<noteq> None"
    and "sent_ok spec rid V sl" and "(nid, j) \<in> set (run_sent rid sl)"
  shows "nid \<noteq> nd_Id s"
proof
  assume eq: "nid = nd_Id s"
  from assms(4,5) obtain m where m: "m \<in> set (ps_Nodes spec)" "(nid, j) \<in> set (node_jobs m)"
    by (auto simp: sent_ok_def)
  have "m = s" using rows_unique [OF assms(1) m(1) assms(2)] node_jobs_rows [OF m(2)] eq by simp
  with m(2) eq stage_job_rows [OF assms(3) distinct_node_rows [OF assms(1,2)]] show False by blast
qed

definition stage_open :: "RunContext \<Rightarrow> string \<Rightarrow> Node \<Rightarrow> (db_value, Registry, 'h) world \<Rightarrow> bool" where
  "stage_open rc rid s w \<longleftrightarrow>
     row_states (nodes_of (w_db w)) rid (nd_Id s)
       \<in> {NodeStatePending, if evalConditions (nd_Conditions s) rc then NodeStateRunning else NodeStateSkipped}"

lemma stage_open_step:
  assumes "pipeline_step env net b rid spec rc w w'" and d: "distinct_rows spec"
    and s: "s \<in> set (ps_Nodes spec)" "Node_GetStage s \<noteq> None"
    and inv: "run_inv spec rid w" and op: "stage_open rc rid s w"
  shows "stage_open rc rid s w'"
proof -
  have known: "run_known rid w" using inv by (simp add: run_inv_def)
  from assms(1) known show ?thesis
  proof (cases rule: pipeline_step_cases)
    case advance
    show ?thesis
    proof (cases "nodes_of (w_db w') (rid, nd_Id s) = nodes_of (w_db w) (rid, nd_Id s)")
      case True
      then show ?thesis using op by (simp add: stage_open_def row_states_def)
    next
      case False
      with advance have "row_due rid rc (row_states (nodes_of (w_db w)) rid) (ps_Nodes spec) (rid, nd_Id s)
          (nodes_of (w_db w') (rid, nd_Id s))"
        unfolding loop_outcome_def by blast
      then obtain n where n: "n \<in> set (ps_Nodes spec)" "nd_Id n = nd_Id s"
          "nodes_of (w_db w') (rid, nd_Id s) = due_row rc n"
        unfolding row_due_def by auto
      have "n = s" using rows_unique [OF d n(1) s(1), of "nd_Id s"] n(2) nd_Id_rows by metis
      with n(3) show ?thesis by (simp add: stage_open_def row_states_def due_row_def)
    qed
  next
    case (completed nid j ok)
    have "nid \<noteq> nd_Id s"
      using stage_not_sent [OF d s _ completed(1)] inv by (auto simp: run_inv_def)
    then show ?thesis using completed(5) op by (auto simp: stage_open_def row_states_completed)
  next
    case frame
    then show ?thesis using op by (simp add: stage_open_def run_frame_def)
  qed
qed

lemma stage_open_reach:
  assumes "pipeline_reach env net b rid spec rc w" and d: "distinct_rows spec"
    and s: "s \<in> set (ps_Nodes spec)" "Node_GetStage s \<noteq> None"
  shows "stage_open rc rid s w"
  using assms(1)
proof induction
  case (started w now project i w')
  have "nd_Id s \<in> seed_ids spec" using s(1) nd_Id_rows unfolding seed_ids_def by blast
  then show ?case
    using mgr.Start_ok(5) [OF started.hyps(1,4)] by (simp add: stage_open_def row_states_seeded)
next
  case (step w w')
  from stage_open_step [OF step.hyps(2) d s pipeline_reach_inv [OF step.hyps(1) d] step.IH] show ?case .
qed

text \<open>Nothing of a node that is pending was sent, and no job that was sent has its ID.\<close>

lemma sent_node:
  assumes inv: "run_inv spec rid w" and d: "distinct_rows spec" and n: "n \<in> set (ps_Nodes spec)"
    and "(i, j) \<in> set (run_sent rid (registry_sent (w_disp w)))" and "i \<in> set (node_rows n)"
  shows "row_states (nodes_of (w_db w)) rid (nd_Id n) \<noteq> NodeStatePending"
proof -
  obtain m where m: "m \<in> set (ps_Nodes spec)" "(i, j) \<in> set (node_jobs m)"
      "row_states (nodes_of (w_db w)) rid (nd_Id m) \<noteq> NodeStatePending"
    using inv assms(4) by (auto simp: run_inv_def sent_ok_def)
  have "m = n" using rows_unique [OF d m(1) n node_jobs_rows [OF m(2)] assms(5)] .
  with m(3) show ?thesis by simp
qed

lemma pending_not_sent:
  assumes "run_inv spec rid w" and "distinct_rows spec" and "n \<in> set (ps_Nodes spec)"
    and "row_states (nodes_of (w_db w)) rid (nd_Id n) = NodeStatePending"
  shows "set (node_jobs n) \<inter> set (run_sent rid (registry_sent (w_disp w))) = {}"
  using sent_node [OF assms(1-3)] node_jobs_rows assms(4) by fastforce

text \<open>What depends on a node that is neither a success nor skipped waits, and nothing of it was sent.\<close>

lemma waits_for:
  assumes inv: "run_inv spec rid w" and d: "distinct_rows spec"
    and n: "n \<in> set (ps_Nodes spec)" "i \<in> set (nd_DependsOn n)"
    and op: "row_states (nodes_of (w_db w)) rid i \<in> {NodeStatePending, NodeStateRunning}"
  shows "row_states (nodes_of (w_db w)) rid (nd_Id n) = NodeStatePending"
    and "set (node_jobs n) \<inter> set (run_sent rid (registry_sent (w_disp w))) = {}"
proof -
  let ?V = "nodes_of (w_db w)"
  show pending: "row_states ?V rid (nd_Id n) = NodeStatePending"
  proof (rule ccontr)
    assume "row_states ?V rid (nd_Id n) \<noteq> NodeStatePending"
    then have "row_states ?V rid i \<in> {NodeStateSuccess, NodeStateSkipped}"
      using inv n by (auto simp: run_inv_def dag_ok_def depsTerminal_iff)
    then show False using op by auto
  qed
  show "set (node_jobs n) \<inter> set (run_sent rid (registry_sent (w_disp w))) = {}"
    by (rule pending_not_sent [OF inv d n(1) pending])
qed

text \<open>As long as another row is pending or running, a completion leaves the state of the run.\<close>

lemma completion_keeps_run:
  assumes "store_valid (w_db w)" and "nid \<noteq> i"
    and op: "row_states (nodes_of (w_db w)) rid i \<in> {NodeStatePending, NodeStateRunning}"
  shows "runs_of (w_db (snd (NodeCompleted (master_manager env net b) rid nid ok w))) rid = runs_of (w_db w) rid"
proof -
  let ?V = "nodes_of (w_db w)"
  obtain q w' where c: "NodeCompleted (master_manager env net b) rid nid ok w = (q, w')" by (metis surj_pair)
  have "row_states (completed_view rid nid ok ?V) rid i = row_states ?V rid i"
    using assms(2) by (simp add: row_states_completed)
  then have "run_active (completed_view rid nid ok ?V) rid"
    using op by (auto simp: run_active_def row_states_def split: option.splits)
  then show ?thesis
    using mgr.NodeCompleted_ok [OF assms(1), of env net b rid nid ok]
      mgr.NodeCompleted_err [OF assms(1), of env net b rid nid ok] c
    by (cases q) (simp_all add: completed_runs_def)
qed

text \<open>
  Property C25: a stage never completes, in the package \<open>pipeline\<close> as its comments intend it to be called,
  for a spec in which no two rows (nodes, and jobs inside stages) share an ID, which \<open>Start\<close> does not check.
  Whatever calls follow the start of a run, with every job that was dispatched completing or failing as it
  may: the row of a stage whose conditions hold stays pending or running. So a node that depends on it
  stays pending, none of its jobs is sent, and no completion of a dispatched job gives the run a new state.
\<close>

theorem stages_never_complete:
  assumes "pipeline_reach env net b rid spec rc w" and "distinct_rows spec"
    and "s \<in> set (ps_Nodes spec)" and "Node_GetStage s \<noteq> None" and "evalConditions (nd_Conditions s) rc"
  shows "row_states (nodes_of (w_db w)) rid (nd_Id s) \<in> {NodeStatePending, NodeStateRunning}
    \<and> (\<forall>n \<in> set (ps_Nodes spec). nd_Id s \<in> set (nd_DependsOn n) \<longrightarrow>
         row_states (nodes_of (w_db w)) rid (nd_Id n) = NodeStatePending
         \<and> set (node_jobs n) \<inter> set (run_sent rid (registry_sent (w_disp w))) = {})
    \<and> (\<forall>(nid, j) \<in> set (run_sent rid (registry_sent (w_disp w))). \<forall>ok.
         runs_of (w_db (snd (NodeCompleted (master_manager env net b) rid nid ok w))) rid = runs_of (w_db w) rid)"
proof -
  note inv = pipeline_reach_inv [OF assms(1,2)]
  then have v: "store_valid (w_db w)" and sent: "sent_ok spec rid (nodes_of (w_db w)) (registry_sent (w_disp w))"
    by (simp_all add: run_inv_def run_known_def)
  have op: "row_states (nodes_of (w_db w)) rid (nd_Id s) \<in> {NodeStatePending, NodeStateRunning}"
    using stage_open_reach [OF assms(1-4)] assms(5) by (simp add: stage_open_def)
  show ?thesis
  proof (intro conjI ballI impI op)
    fix n
    assume n: "n \<in> set (ps_Nodes spec)" "nd_Id s \<in> set (nd_DependsOn n)"
    show "row_states (nodes_of (w_db w)) rid (nd_Id n) = NodeStatePending"
      and "set (node_jobs n) \<inter> set (run_sent rid (registry_sent (w_disp w))) = {}"
      by (rule waits_for [OF inv assms(2) n op])+
  next
    fix x
    assume x: "x \<in> set (run_sent rid (registry_sent (w_disp w)))"
    obtain nid j where nj: "x = (nid, j)" by (cases x)
    then have "nid \<noteq> nd_Id s" using stage_not_sent [OF assms(2-4) sent] x by blast
    from completion_keeps_run [OF v this op]
    show "case x of (nid, j) \<Rightarrow> \<forall>ok. runs_of (w_db (snd (NodeCompleted (master_manager env net b) rid nid ok w))) rid
        = runs_of (w_db w) rid"
      by (simp add: nj)
  qed
qed

section \<open>The example of the SDK\<close>

text \<open>
  The pipeline of \<open>sdk/go/examples/Brazierfile.go\<close> on the branch \<open>main\<close>, with one agent: all jobs that are
  dispatched succeed, and after the stage nothing follows.
\<close>

definition main_rc :: RunContext where
  "main_rc = \<lparr>rc_Branch = ''main'', rc_Tag = [], rc_Event = ''push''\<rparr>"

definition stg_started :: "(db_value, Registry, Event list) world" where
  "stg_started = snd (Start ex_manager ''r'' 0 example_Brazierfile ''web'' main_rc ex_world)"

definition stg_advance :: "(db_value, Registry, Event list) world \<Rightarrow> (db_value, Registry, Event list) world" where
  "stg_advance w = Advance ex_scheduler ''r'' example_Brazierfile main_rc w"

definition stg_completed ::
  "string \<Rightarrow> (db_value, Registry, Event list) world \<Rightarrow> (db_value, Registry, Event list) world" where
  "stg_completed nid w = snd (NodeCompleted ex_manager ''r'' nid True w)"

definition stg_done :: "(db_value, Registry, Event list) world \<Rightarrow> (db_value, Registry, Event list) world" where
  "stg_done w = w\<lparr>w_disp := JobDone ''a1'' (w_disp w)\<rparr>"

definition stg_linted :: "(db_value, Registry, Event list) world" where
  "stg_linted = stg_advance (stg_done (stg_completed ''lint'' (stg_advance stg_started)))"

definition stg_tested :: "(db_value, Registry, Event list) world" where
  "stg_tested = stg_advance (stg_completed ''test/integration'' (stg_completed ''test/unit'' stg_linted))"

abbreviation (input) stg_reach :: "(db_value, Registry, Event list) world \<Rightarrow> bool" where
  "stg_reach \<equiv> pipeline_reach ex_env ex_net ex_bus ''r'' example_Brazierfile main_rc"

lemma stg_reach_advance: "stg_reach w \<Longrightarrow> stg_reach (stg_advance w)"
  unfolding stg_advance_def ex_scheduler_def by (erule pipeline_reach.step) (rule pipeline_step.advance)

lemma stg_reach_done: "stg_reach w \<Longrightarrow> stg_reach (stg_done w)"
  unfolding stg_done_def by (erule pipeline_reach.step) (rule pipeline_step.job_done)

lemma stg_reach_completed:
  assumes "stg_reach w" and "nid \<in> fst ` set (run_sent ''r'' (registry_sent (w_disp w)))"
    and "row_states (nodes_of (w_db w)) ''r'' nid \<in> {NodeStatePending, NodeStateRunning}"
  shows "stg_reach (stg_completed nid w)"
proof -
  obtain j where "(nid, j) \<in> set (run_sent ''r'' (registry_sent (w_disp w)))" using assms(2) by auto
  from pipeline_reach.step [OF assms(1) pipeline_step.completed [OF this assms(3)]]
  show ?thesis by (simp add: stg_completed_def ex_manager_def)
qed

lemma stg_sent:
  "run_sent ''r'' (registry_sent (w_disp ex_world)) = []"
  "''lint'' \<in> fst ` set (run_sent ''r'' (registry_sent (w_disp (stg_advance stg_started))))"
  "row_states (nodes_of (w_db (stg_advance stg_started))) ''r'' ''lint'' = NodeStateRunning"
  "''test/unit'' \<in> fst ` set (run_sent ''r'' (registry_sent (w_disp stg_linted)))"
  "row_states (nodes_of (w_db stg_linted)) ''r'' ''test/unit'' = NodeStatePending"
  "''test/integration'' \<in> fst ` set (run_sent ''r'' (registry_sent (w_disp (stg_completed ''test/unit'' stg_linted))))"
  "row_states (nodes_of (w_db (stg_completed ''test/unit'' stg_linted))) ''r'' ''test/integration'' = NodeStatePending"
  "fst (Start ex_manager ''r'' 0 example_Brazierfile ''web'' main_rc ex_world) = Inr ''r''"
  by code_simp+

lemma stg_tested_reach: "stg_reach stg_tested"
proof -
  have "Start ex_manager ''r'' 0 example_Brazierfile ''web'' main_rc ex_world = (Inr ''r'', stg_started)"
    using stg_sent(8) by (simp add: stg_started_def prod_eq_iff)
  then have "stg_reach stg_started"
    using pipeline_reach.started [OF ex_world_ok stg_sent(1)] by (simp add: ex_manager_def)
  then have "stg_reach stg_linted" unfolding stg_linted_def
    by (intro stg_reach_advance stg_reach_done stg_reach_completed) (simp_all add: stg_sent)
  then show ?thesis unfolding stg_tested_def
    by (intro stg_reach_advance stg_reach_completed) (simp_all add: stg_sent)
qed

theorem stages_never_complete_witness:
  "row_states (nodes_of (w_db stg_tested)) ''r'' ''test/unit'' = NodeStateSuccess
   \<and> row_states (nodes_of (w_db stg_tested)) ''r'' ''test/integration'' = NodeStateSuccess
   \<and> row_states (nodes_of (w_db stg_tested)) ''r'' ''test'' \<in> {NodeStatePending, NodeStateRunning}
   \<and> row_states (nodes_of (w_db stg_tested)) ''r'' ''build'' = NodeStatePending"
proof -
  define s where "s = ps_Nodes example_Brazierfile ! 1"
  define n where "n = ps_Nodes example_Brazierfile ! 2"
  have d: "distinct_rows example_Brazierfile" by code_simp
  have "length (ps_Nodes example_Brazierfile) = 4" by code_simp
  then have s: "s \<in> set (ps_Nodes example_Brazierfile)" and n: "n \<in> set (ps_Nodes example_Brazierfile)"
    by (simp_all add: s_def n_def)
  have g: "Node_GetStage s \<noteq> None" "evalConditions (nd_Conditions s) main_rc" "nd_Id s = ''test''"
    and dep: "nd_Id s \<in> set (nd_DependsOn n)" "nd_Id n = ''build''"
    unfolding s_def n_def by code_simp+
  have unit: "row_states (nodes_of (w_db stg_tested)) ''r'' ''test/unit'' = NodeStateSuccess"
    "row_states (nodes_of (w_db stg_tested)) ''r'' ''test/integration'' = NodeStateSuccess"
    by code_simp+
  from stages_never_complete [OF stg_tested_reach d s g(1,2)] n dep g(3) unit show ?thesis by auto
qed

end
