(* ===== verification/Graph_Props.thy ===== *)
theory Graph_Props
  imports Stage_Props
begin

text \<open>
  Pipelines that \<open>TopoSort\<close> rejects. Nothing but the tests calls \<open>TopoSort\<close>: \<open>Start\<close> takes any graph, and
  \<open>Advance\<close> waits for the nodes on a cycle, and for those below it, for ever.
\<close>

section \<open>Nodes that wait for each other\<close>

text \<open>Each ID of the set is that of a node that depends on the set itself, or on an ID that no row has.\<close>

definition stuck_set :: "PipelineSpec \<Rightarrow> string set \<Rightarrow> bool" where
  "stuck_set spec S \<longleftrightarrow>
     (\<forall>i \<in> S. \<exists>n \<in> set (ps_Nodes spec). nd_Id n = i \<and> (\<exists>d \<in> set (nd_DependsOn n). d \<in> S \<or> d \<notin> seed_ids spec))"

lemma stuck_set_rows:
  assumes "stuck_set spec S"
  shows "S \<subseteq> seed_ids spec"
proof
  fix i
  assume "i \<in> S"
  then obtain n where n: "n \<in> set (ps_Nodes spec)" "nd_Id n = i" using assms unfolding stuck_set_def by blast
  have "nd_Id n \<in> set (node_rows n)" by (rule nd_Id_rows)
  with n show "i \<in> seed_ids spec" unfolding seed_ids_def by blast
qed

text \<open>No dependency names a job inside a stage, which has a row but is not a node to \<open>TopoSort\<close>.\<close>

definition node_deps :: "PipelineSpec \<Rightarrow> bool" where
  "node_deps spec \<longleftrightarrow>
     (\<forall>n \<in> set (ps_Nodes spec). set (nd_DependsOn n) \<inter> seed_ids spec \<subseteq> nd_Id ` set (ps_Nodes spec))"

lemma cycle_stuck:
  assumes "\<not> acyclic (dep_edges (spec_byID spec))"
  shows "\<exists>S. S \<noteq> {} \<and> stuck_set spec S"
proof -
  let ?E = "dep_edges (spec_byID spec)"
  obtain x where x: "(x, x) \<in> ?E\<^sup>+" using assms by (auto simp: acyclic_def)
  have "\<exists>n \<in> set (ps_Nodes spec). nd_Id n = i \<and> (\<exists>d \<in> set (nd_DependsOn n). (x, d) \<in> ?E\<^sup>+)"
    if xi: "(x, i) \<in> ?E\<^sup>+" for i
  proof -
    obtain d where d: "(x, d) \<in> ?E\<^sup>*" "(d, i) \<in> ?E" using tranclD2 [OF xi] by blast
    have "(x, d) \<in> ?E\<^sup>+" using d(1) x by (auto simp: rtrancl_eq_or_trancl)
    moreover obtain n where n: "spec_byID spec i = Some n" "d \<in> set (nd_DependsOn n)"
      using d(2) by (auto simp: dep_edges_def)
    ultimately show ?thesis using nodes_byID_Some [OF n(1)] n(2) by blast
  qed
  then have "stuck_set spec {i. (x, i) \<in> ?E\<^sup>+}" unfolding stuck_set_def mem_Collect_eq by blast
  moreover have "x \<in> {i. (x, i) \<in> ?E\<^sup>+}" using x by simp
  ultimately show ?thesis by (intro exI [of _ "{i. (x, i) \<in> ?E\<^sup>+}"]) auto
qed

lemma unknown_stuck:
  assumes "\<not> deps_known (spec_byID spec)" and "node_deps spec"
  shows "\<exists>S. S \<noteq> {} \<and> stuck_set spec S"
proof -
  obtain i n d where n: "spec_byID spec i = Some n" "d \<in> set (nd_DependsOn n)" "d \<notin> dom (spec_byID spec)"
    using assms(1) by (auto simp: deps_known_def)
  have "nd_Id n = i" "n \<in> set (ps_Nodes spec)" using nodes_byID_Some [OF n(1)] by simp_all
  moreover from this have "d \<notin> seed_ids spec"
    using assms(2) n(2,3) by (auto simp: node_deps_def nodes_byID_dom)
  ultimately have "stuck_set spec {i}" using n(2) by (auto simp: stuck_set_def)
  then show ?thesis by blast
qed

lemma unsortable_stuck:
  assumes "TopoSort spec = Some (Inl e)" and "node_deps spec"
  obtains S n where "stuck_set spec S" and "n \<in> set (ps_Nodes spec)" and "nd_Id n \<in> S"
proof -
  have "\<exists>S. S \<noteq> {} \<and> stuck_set spec S"
  proof (cases "acyclic (dep_edges (spec_byID spec))")
    case True
    then have "\<not> deps_known (spec_byID spec)" using TopoSort_fails [OF assms(1)] by simp
    then show ?thesis using assms(2) by (rule unknown_stuck)
  qed (rule cycle_stuck)
  then obtain S i where S: "stuck_set spec S" "i \<in> S" by blast
  then obtain n where "n \<in> set (ps_Nodes spec)" "nd_Id n = i" unfolding stuck_set_def by blast
  with S show thesis by (intro that [of S n]) simp_all
qed

section \<open>They stay pending\<close>

definition waiting :: "PipelineSpec \<Rightarrow> string set \<Rightarrow> string \<Rightarrow> (db_value, Registry, 'h) world \<Rightarrow> bool" where
  "waiting spec S rid w \<longleftrightarrow>
     (\<forall>i \<in> S. row_states (nodes_of (w_db w)) rid i = NodeStatePending)
     \<and> (\<forall>d. d \<notin> seed_ids spec \<longrightarrow> row_states (nodes_of (w_db w)) rid d \<notin> {NodeStateSuccess, NodeStateSkipped})"

text \<open>A node of the set is not due.\<close>

lemma waiting_not_due:
  assumes d: "distinct_rows spec" and S: "stuck_set spec S" and w: "waiting spec S rid w"
    and m: "m \<in> set (ps_Nodes spec)" "nd_Id m \<in> S"
  shows "\<not> node_due (row_states (nodes_of (w_db w)) rid) m"
proof
  assume "node_due (row_states (nodes_of (w_db w)) rid) m"
  then have deps: "\<forall>d \<in> set (nd_DependsOn m). row_states (nodes_of (w_db w)) rid d \<in> {NodeStateSuccess, NodeStateSkipped}"
    by (auto simp: node_due_def depsTerminal_iff)
  obtain n k where n: "n \<in> set (ps_Nodes spec)" "nd_Id n = nd_Id m" "k \<in> set (nd_DependsOn n)"
      "k \<in> S \<or> k \<notin> seed_ids spec"
    using S m(2) by (fastforce simp: stuck_set_def)
  have "n = m" using rows_unique [OF d n(1) m(1), of "nd_Id m"] n(2) nd_Id_rows by metis
  with deps n(3) have "row_states (nodes_of (w_db w)) rid k \<in> {NodeStateSuccess, NodeStateSkipped}" by simp
  with w n(4) show False by (auto simp: waiting_def)
qed

lemma waiting_step:
  assumes "pipeline_step env net b rid spec rc w w'" and d: "distinct_rows spec" and S: "stuck_set spec S"
    and inv: "run_inv spec rid w" and w: "waiting spec S rid w"
  shows "waiting spec S rid w'"
proof -
  let ?V = "nodes_of (w_db w)"
  have known: "run_known rid w" using inv by (simp add: run_inv_def)
  from assms(1) known show ?thesis
  proof (cases rule: pipeline_step_cases)
    case advance
    have "row_states (nodes_of (w_db w')) rid i = row_states ?V rid i" if "i \<in> S \<or> i \<notin> seed_ids spec" for i
    proof (rule ccontr)
      assume "row_states (nodes_of (w_db w')) rid i \<noteq> row_states ?V rid i"
      then obtain m where m: "m \<in> set (ps_Nodes spec)" "nd_Id m = i" "node_due (row_states ?V rid) m"
        using loop_outcome_rows [OF advance] by blast
      moreover have "nd_Id m \<in> seed_ids spec" using m(1) nd_Id_rows unfolding seed_ids_def by blast
      ultimately show False using waiting_not_due [OF d S w] that by blast
    qed
    then show ?thesis using w by (simp add: waiting_def)
  next
    case (completed nid j ok)
    obtain m where m: "m \<in> set (ps_Nodes spec)" "(nid, j) \<in> set (node_jobs m)"
        "row_states ?V rid (nd_Id m) \<noteq> NodeStatePending"
      using inv completed(1) by (auto simp: run_inv_def sent_ok_def)
    have row: "nid \<in> set (node_rows m)" using m(2) by (rule node_jobs_rows)
    then have "nid \<in> seed_ids spec" using m(1) unfolding seed_ids_def by blast
    moreover have "nid \<notin> S"
    proof
      assume S': "nid \<in> S"
      then obtain n where n: "n \<in> set (ps_Nodes spec)" "nd_Id n = nid" using S by (auto simp: stuck_set_def)
      have "n = m" using rows_unique [OF d n(1) m(1)] n(2) row nd_Id_rows by metis
      with m(3) n(2) S' w show False by (simp add: waiting_def)
    qed
    ultimately have "row_states (nodes_of (w_db w')) rid i = row_states ?V rid i" if "i \<in> S \<or> i \<notin> seed_ids spec" for i
      using that completed(5) by (auto simp: row_states_completed)
    then show ?thesis using w by (simp add: waiting_def)
  next
    case frame
    then show ?thesis using w by (simp add: waiting_def run_frame_def)
  qed
qed

lemma waiting_started:
  assumes "store_valid (w_db w)" and "\<forall>i. nodes_of (w_db w) (rid, i) = None"
    and "Start (master_manager env net b) rid now spec project rc w = (Inr r, w0)" and "stuck_set spec S"
  shows "waiting spec S rid w0"
  unfolding waiting_def
proof (intro conjI ballI allI impI)
  fix i
  assume "i \<in> S"
  then have "i \<in> seed_ids spec" using stuck_set_rows [OF assms(4)] by blast
  then show "row_states (nodes_of (w_db w0)) rid i = NodeStatePending"
    by (simp add: mgr.Start_ok(5) [OF assms(1,3)] row_states_seeded)
next
  fix d
  assume "d \<notin> seed_ids spec"
  then have "row_states (nodes_of (w_db w0)) rid d = row_states (nodes_of (w_db w)) rid d"
    by (simp add: mgr.Start_ok(5) [OF assms(1,3)] row_states_seeded)
  also have "\<dots> = []" using assms(2) by (simp add: row_states_def)
  finally show "row_states (nodes_of (w_db w0)) rid d \<notin> {NodeStateSuccess, NodeStateSkipped}"
    by (simp add: NodeStateSuccess_def NodeStateSkipped_def)
qed

lemma waiting_reach:
  assumes "pipeline_reach env net b rid spec rc w0" and "waiting spec S rid w0"
    and d: "distinct_rows spec" and S: "stuck_set spec S"
    and steps: "(pipeline_step env net b rid spec rc)\<^sup>*\<^sup>* w0 w"
  shows "pipeline_reach env net b rid spec rc w \<and> waiting spec S rid w"
  using steps
proof induction
  case base
  then show ?case using assms(1,2) by simp
next
  case (step w w')
  note r = step.IH [THEN conjunct1] and wt = step.IH [THEN conjunct2]
  show ?case
    by (intro conjI pipeline_reach.step [OF r step.hyps(2)]
        waiting_step [OF step.hyps(2) d S pipeline_reach_inv [OF r d] wt])
qed

text \<open>
  Property C16: \<open>Start\<close> takes a pipeline that \<open>TopoSort\<close> rejects, and such a run never ends. That is so for a
  spec in which no two rows (nodes, and jobs inside stages) share an ID and no dependency names a job inside a
  stage, which has a row but is not a node to \<open>TopoSort\<close>; \<open>Start\<close> checks neither. Under a run ID for which nothing
  was stored or sent: when the graph has a cycle, or a node depends on an ID that nothing has, there is a
  node that stays pending, whatever calls follow the start of the run (in the package \<open>pipeline\<close>, as its
  comments intend it to be called, with jobs that complete or fail): none of its jobs is ever sent, and no
  completion of a job gives the run a new state. Only the tests call \<open>TopoSort\<close>.
\<close>

theorem unsortable_never_ends:
  assumes "store_valid (w_db w)" and "registry_ok (w_disp w)" and "run_sent rid (registry_sent (w_disp w)) = []"
    and "\<forall>i. nodes_of (w_db w) (rid, i) = None"
    and "Start (master_manager env net b) rid now spec project rc w = (Inr r, w0)"
    and "TopoSort spec = Some (Inl e)" and "distinct_rows spec" and "node_deps spec"
  shows "\<exists>n \<in> set (ps_Nodes spec). \<forall>w'. (pipeline_step env net b rid spec rc)\<^sup>*\<^sup>* w0 w' \<longrightarrow>
    row_states (nodes_of (w_db w')) rid (nd_Id n) = NodeStatePending
    \<and> set (node_jobs n) \<inter> set (run_sent rid (registry_sent (w_disp w'))) = {}
    \<and> (\<forall>(nid, j) \<in> set (run_sent rid (registry_sent (w_disp w'))). \<forall>ok.
         runs_of (w_db (snd (NodeCompleted (master_manager env net b) rid nid ok w'))) rid = runs_of (w_db w') rid)"
proof -
  obtain S n where S: "stuck_set spec S" and n: "n \<in> set (ps_Nodes spec)" "nd_Id n \<in> S"
    by (rule unsortable_stuck [OF assms(6,8)])
  have start: "pipeline_reach env net b rid spec rc w0"
    by (rule pipeline_reach.started [OF assms(1-3,5)])
  note reach = waiting_reach [OF start waiting_started [OF assms(1,4,5) S] assms(7) S]
  show ?thesis
  proof (intro bexI [OF _ n(1)] allI impI)
    fix w'
    assume "(pipeline_step env net b rid spec rc)\<^sup>*\<^sup>* w0 w'"
    from reach [OF this] have r: "pipeline_reach env net b rid spec rc w'" and wt: "waiting spec S rid w'" by simp_all
    note inv = pipeline_reach_inv [OF r assms(7)]
    have pending: "row_states (nodes_of (w_db w')) rid (nd_Id n) = NodeStatePending"
      using wt n(2) by (simp add: waiting_def)
    note unsent = pending_not_sent [OF inv assms(7) n(1) pending]
    have "runs_of (w_db (snd (NodeCompleted (master_manager env net b) rid nid ok w'))) rid = runs_of (w_db w') rid"
      if "(nid, j) \<in> set (run_sent rid (registry_sent (w_disp w')))" for nid j ok
    proof (rule completion_keeps_run [of _ nid "nd_Id n"])
      show "nid \<noteq> nd_Id n" using sent_node [OF inv assms(7) n(1) that] pending nd_Id_rows by blast
    qed (use inv pending in \<open>simp_all add: run_inv_def run_known_def\<close>)
    with pending unsent show "row_states (nodes_of (w_db w')) rid (nd_Id n) = NodeStatePending
      \<and> set (node_jobs n) \<inter> set (run_sent rid (registry_sent (w_disp w'))) = {}
      \<and> (\<forall>(nid, j) \<in> set (run_sent rid (registry_sent (w_disp w'))). \<forall>ok.
           runs_of (w_db (snd (NodeCompleted (master_manager env net b) rid nid ok w'))) rid = runs_of (w_db w') rid)"
      by blast
  qed
qed

text \<open>Two nodes that wait for each other beside one that succeeds: the run goes on for ever.\<close>

definition cyc_spec :: PipelineSpec where
  "cyc_spec = \<lparr>ps_Workflow = None, ps_Nodes =
     [Node ''lint'' [] [] (Some (Node_Job ex_job)), Node ''a'' [''b''] [] (Some (Node_Job ex_job)),
      Node ''b'' [''a''] [] (Some (Node_Job ex_job))]\<rparr>"

definition cyc_started :: "(db_value, Registry, Event list) world" where
  "cyc_started = snd (Start ex_manager ''r'' 0 cyc_spec ''web'' ex_rc ex_world)"

definition cyc_advanced :: "(db_value, Registry, Event list) world" where
  "cyc_advanced = Advance ex_scheduler ''r'' cyc_spec ex_rc cyc_started"

definition cyc_linted :: "(db_value, Registry, Event list) world" where
  "cyc_linted = snd (NodeCompleted ex_manager ''r'' ''lint'' True cyc_advanced)"

lemma cyc_facts:
  "fst (Start ex_manager ''r'' 0 cyc_spec ''web'' ex_rc ex_world) = Inr ''r''"
  "run_sent ''r'' (registry_sent (w_disp ex_world)) = []"
  "run_sent ''r'' (registry_sent (w_disp cyc_advanced)) = [(''lint'', Some ex_job)]"
  "row_states (nodes_of (w_db cyc_advanced)) ''r'' ''lint'' = NodeStateRunning"
  "distinct_rows cyc_spec"
  by code_simp+

lemma cyc_sort: "TopoSort cyc_spec = Some (Inl (Errorf ''cycle detected at node %q'' [''a'']))"
  by (simp add: cyc_spec_def TopoSort_def nodes_byID_def visit.simps)

lemma cyc_steps: "(pipeline_step ex_env ex_net ex_bus ''r'' cyc_spec ex_rc)\<^sup>*\<^sup>* cyc_started cyc_linted"
proof -
  have "pipeline_step ex_env ex_net ex_bus ''r'' cyc_spec ex_rc cyc_started cyc_advanced"
    unfolding cyc_advanced_def ex_scheduler_def by (rule pipeline_step.advance)
  moreover have "pipeline_step ex_env ex_net ex_bus ''r'' cyc_spec ex_rc cyc_advanced cyc_linted"
    unfolding cyc_linted_def ex_manager_def
    by (rule pipeline_step.completed [where j = "Some ex_job"]) (simp_all add: cyc_facts)
  ultimately show ?thesis by (meson converse_rtranclp_into_rtranclp r_into_rtranclp)
qed

theorem unsortable_never_ends_witness:
  "runs_of (w_db cyc_linted) ''r'' = Some (''web'', RunStateRunning)
   \<and> row_states (nodes_of (w_db cyc_linted)) ''r'' ''lint'' = NodeStateSuccess
   \<and> NodeStatePending \<in> row_states (nodes_of (w_db cyc_linted)) ''r'' ` nd_Id ` set (ps_Nodes cyc_spec)"
proof -
  have start: "Start (master_manager ex_env ex_net ex_bus) ''r'' 0 cyc_spec ''web'' ex_rc ex_world = (Inr ''r'', cyc_started)"
    using cyc_facts(1) by (simp add: cyc_started_def ex_manager_def prod_eq_iff)
  have none: "\<forall>i. nodes_of (w_db ex_world) (''r'', i) = None" by (simp add: ex_world_def open_store_empty)
  have deps: "node_deps cyc_spec" by (auto simp: node_deps_def cyc_spec_def)
  have "runs_of (w_db cyc_linted) ''r'' = Some (''web'', RunStateRunning)"
    "row_states (nodes_of (w_db cyc_linted)) ''r'' ''lint'' = NodeStateSuccess"
    by code_simp+
  moreover obtain n where n: "n \<in> set (ps_Nodes cyc_spec)"
      "row_states (nodes_of (w_db cyc_linted)) ''r'' (nd_Id n) = NodeStatePending"
    using unsortable_never_ends [OF ex_world_ok cyc_facts(2) none start cyc_sort cyc_facts(5) deps] cyc_steps by metis
  have "NodeStatePending \<in> row_states (nodes_of (w_db cyc_linted)) ''r'' ` nd_Id ` set (ps_Nodes cyc_spec)"
    unfolding n(2) [symmetric] using n(1) by (intro imageI)
  ultimately show ?thesis by simp
qed

end
