(* ===== verification/Agent_Conn.thy ===== *)
theory Agent_Conn
  imports Agent_Client "HOL-Library.Sublist"
begin

text \<open>
  The goroutines of an agent and its connections, step by step (\<open>internal/client/agent.go\<close>): \<open>connect\<close>
  closes its connection when the stream of dispatches ends, while the goroutines that it has started go on
  with their jobs and with that connection. What \<open>handleJob\<close> then sends is lost, and it only logs that; the
  same goes for a log stream that did not open or broke.
\<close>

section \<open>Goroutines and connections\<close>

text \<open>
  A goroutine has the connection it was started on; its chunks are still to be written (\<open>gr_todo\<close>) or have reached the
  master (\<open>gr_sent\<close>). \<open>gr_stream\<close> says that its log stream is open, \<open>gr_done\<close> that \<open>handleJob\<close> has returned,
  \<open>gr_reported\<close> that its result has reached the master.
\<close>

record job_goroutine =
  gr_conn :: nat
  gr_dispatch :: JobDispatch
  gr_result :: "bool \<times> int"
  gr_stream :: bool
  gr_todo :: "pb_LogChunk list"
  gr_sent :: "pb_LogChunk list"
  gr_done :: bool
  gr_reported :: bool

text \<open>The connection that is open, if one is, the number of the next one, and all goroutines so far.\<close>

record conn_state =
  cs_open :: "nat option"
  cs_next :: nat
  cs_jobs :: "job_goroutine list"

definition go_handleJob :: "nat \<Rightarrow> JobDispatch \<Rightarrow> (bool \<times> int) \<times> pb_LogChunk list \<Rightarrow> bool \<Rightarrow> job_goroutine" where
  "go_handleJob c dispatch out opened =
     \<lparr>gr_conn = c, gr_dispatch = dispatch, gr_result = fst out, gr_stream = opened, gr_todo = snd out,
      gr_sent = [], gr_done = False, gr_reported = False\<rparr>"

definition conn_up :: "conn_state \<Rightarrow> job_goroutine \<Rightarrow> bool" where
  "conn_up st g \<longleftrightarrow> cs_open st = Some (gr_conn g)"

text \<open>
  A line is written to the log stream, if it is open. It arrives if the chunk can be marshalled, the connection
  is open, and the network (\<open>ok\<close>) delivers it; otherwise that was the end of the stream, and this line and all
  further ones are lost. The result is sent over the connection, whatever became of the log stream.
\<close>

definition write_line :: "conn_state \<Rightarrow> bool \<Rightarrow> job_goroutine \<Rightarrow> job_goroutine" where
  "write_line st ok g =
     (case gr_todo g of
        [] \<Rightarrow> g
      | c # cs \<Rightarrow>
          if gr_stream g \<and> chunk_utf8 c \<and> conn_up st g \<and> ok
          then g\<lparr>gr_todo := cs, gr_sent := gr_sent g @ [c]\<rparr>
          else g\<lparr>gr_todo := cs, gr_stream := False\<rparr>)"

definition send_result :: "conn_state \<Rightarrow> bool \<Rightarrow> job_goroutine \<Rightarrow> job_goroutine" where
  "send_result st ok g = g\<lparr>gr_done := True, gr_reported := (conn_up st g \<and> ok)\<rparr>"

text \<open>
  The steps, in any order: \<open>connect\<close> registers on a new connection, receives a dispatch and starts its
  goroutine, which opens its log stream or fails to, or ends with the stream and closes; a goroutine
  writes a line, or, after the last one, sends its result.
\<close>

inductive conn_step :: "os \<Rightarrow> conn_state \<Rightarrow> conn_state \<Rightarrow> bool" for sys where
  register:
    "cs_open st = None \<Longrightarrow>
     conn_step sys st (st\<lparr>cs_open := Some (cs_next st), cs_next := Suc (cs_next st)\<rparr>)"
| receive:
    "cs_open st = Some c \<Longrightarrow> job_outcome sys dispatch = Some out \<Longrightarrow>
     conn_step sys st (st\<lparr>cs_jobs := cs_jobs st @ [go_handleJob c dispatch out opened]\<rparr>)"
| stream_ends:
    "cs_open st = Some c \<Longrightarrow> conn_step sys st (st\<lparr>cs_open := None\<rparr>)"
| line:
    "i < length (cs_jobs st) \<Longrightarrow> gr_todo (cs_jobs st ! i) \<noteq> [] \<Longrightarrow>
     conn_step sys st (st\<lparr>cs_jobs := (cs_jobs st)[i := write_line st ok (cs_jobs st ! i)]\<rparr>)"
| result:
    "i < length (cs_jobs st) \<Longrightarrow> gr_todo (cs_jobs st ! i) = [] \<Longrightarrow> \<not> gr_done (cs_jobs st ! i) \<Longrightarrow>
     conn_step sys st (st\<lparr>cs_jobs := (cs_jobs st)[i := send_result st ok (cs_jobs st ! i)]\<rparr>)"

definition conn_init :: conn_state where
  "conn_init = \<lparr>cs_open = None, cs_next = 0, cs_jobs = []\<rparr>"

definition conn_reach :: "os \<Rightarrow> conn_state \<Rightarrow> bool" where
  "conn_reach sys st \<longleftrightarrow> (conn_step sys)\<^sup>*\<^sup>* conn_init st"

lemma conn_reach_step: "conn_reach sys st \<Longrightarrow> conn_step sys st st' \<Longrightarrow> conn_reach sys st'"
  by (simp add: conn_reach_def)

section \<open>The invariant\<close>

text \<open>
  What a goroutine has sent and what it still has to write are its output, up to a gap; there is none as
  long as its log stream is open.
\<close>

definition goroutine_ok :: "os \<Rightarrow> nat \<Rightarrow> job_goroutine \<Rightarrow> bool" where
  "goroutine_ok sys next_conn g \<longleftrightarrow>
     gr_conn g < next_conn
     \<and> (\<exists>gap. job_outcome sys (gr_dispatch g) = Some (gr_result g, gr_sent g @ gap @ gr_todo g)
          \<and> (gr_stream g \<longrightarrow> gap = []))
     \<and> list_all chunk_utf8 (gr_sent g)
     \<and> (gr_done g \<longrightarrow> gr_todo g = []) \<and> (gr_reported g \<longrightarrow> gr_done g)"

definition conn_inv :: "os \<Rightarrow> conn_state \<Rightarrow> bool" where
  "conn_inv sys st \<longleftrightarrow>
     (\<forall>c. cs_open st = Some c \<longrightarrow> c < cs_next st)
     \<and> (\<forall>i < length (cs_jobs st). goroutine_ok sys (cs_next st) (cs_jobs st ! i))"

lemma goroutine_ok_mono: "goroutine_ok sys n g \<Longrightarrow> n \<le> m \<Longrightarrow> goroutine_ok sys m g"
  unfolding goroutine_ok_def by auto

lemma write_line_ok:
  assumes "goroutine_ok sys n g" and "gr_todo g \<noteq> []"
  shows "goroutine_ok sys n (write_line st ok g)"
proof -
  obtain c cs where t: "gr_todo g = c # cs" using assms(2) by (cases "gr_todo g") auto
  obtain gap where g: "job_outcome sys (gr_dispatch g) = Some (gr_result g, gr_sent g @ gap @ c # cs)"
      "gr_stream g \<longrightarrow> gap = []"
    using assms(1) t by (auto simp: goroutine_ok_def)
  have not_done: "\<not> gr_done g" "\<not> gr_reported g" using assms by (auto simp: goroutine_ok_def)
  show ?thesis
  proof (cases "gr_stream g \<and> chunk_utf8 c \<and> conn_up st g \<and> ok")
    case True
    then have "gap = []" using g(2) by blast
    with True assms(1) t g(1) not_done show ?thesis
      by (auto simp: goroutine_ok_def write_line_def intro!: exI [of _ "[]"])
  next
    case False
    with assms(1) t g(1) not_done show ?thesis
      by (auto simp: goroutine_ok_def write_line_def intro!: exI [of _ "gap @ [c]"])
  qed
qed

lemma send_result_ok:
  assumes "goroutine_ok sys n g" and "gr_todo g = []"
  shows "goroutine_ok sys n (send_result st ok g)"
  using assms by (auto simp: goroutine_ok_def send_result_def)

lemma conn_inv_update:
  "conn_inv sys st \<Longrightarrow> goroutine_ok sys (cs_next st) g \<Longrightarrow> conn_inv sys (st\<lparr>cs_jobs := (cs_jobs st)[i := g]\<rparr>)"
  by (cases "i < length (cs_jobs st)") (auto simp: conn_inv_def nth_list_update list_update_beyond)

lemma conn_step_inv:
  assumes "conn_step sys st st'" and inv: "conn_inv sys st"
  shows "conn_inv sys st'"
  using assms(1)
proof cases
  case register
  then show ?thesis using inv goroutine_ok_mono by (fastforce simp: conn_inv_def)
next
  case (receive c dispatch out opened)
  have "goroutine_ok sys (cs_next st) (go_handleJob c dispatch out opened)"
    using inv receive by (auto simp: conn_inv_def goroutine_ok_def go_handleJob_def intro: exI [of _ "[]"])
  then show ?thesis using inv by (auto simp: conn_inv_def receive nth_append less_Suc_eq)
next
  case (stream_ends c)
  then show ?thesis using inv by (simp add: conn_inv_def)
next
  case (line i ok)
  have "goroutine_ok sys (cs_next st) (write_line st ok (cs_jobs st ! i))"
    using inv line by (intro write_line_ok) (simp_all add: conn_inv_def)
  then show ?thesis unfolding line(1) by (rule conn_inv_update [OF inv])
next
  case (result i ok)
  have "goroutine_ok sys (cs_next st) (send_result st ok (cs_jobs st ! i))"
    using inv result by (intro send_result_ok) (simp_all add: conn_inv_def)
  then show ?thesis unfolding result(1) by (rule conn_inv_update [OF inv])
qed

lemma conn_reach_inv: "conn_reach sys st \<Longrightarrow> conn_inv sys st"
  unfolding conn_reach_def
proof (induction rule: rtranclp_induct)
  case base
  show ?case by (simp add: conn_inv_def conn_init_def)
next
  case (step st st')
  from conn_step_inv [OF step.hyps(2) step.IH] show ?case .
qed

section \<open>What becomes of a goroutine\<close>

text \<open>
  A goroutine at two times, with the states it is in: what has arrived stays, and nothing is added once the
  stream has broken or the connection is closed, nor is then a result; what has ended stays as it is.
\<close>

definition goroutine_later :: "conn_state \<Rightarrow> job_goroutine \<Rightarrow> conn_state \<Rightarrow> job_goroutine \<Rightarrow> bool" where
  "goroutine_later st g st' g' \<longleftrightarrow>
     gr_conn g' = gr_conn g \<and> gr_dispatch g' = gr_dispatch g \<and> gr_result g' = gr_result g
     \<and> prefix (gr_sent g) (gr_sent g')
     \<and> (\<not> gr_stream g \<longrightarrow> gr_sent g' = gr_sent g \<and> \<not> gr_stream g')
     \<and> (gr_done g \<longrightarrow> g' = g)
     \<and> (\<not> conn_up st g \<longrightarrow> \<not> conn_up st' g' \<and> gr_sent g' = gr_sent g \<and> (gr_reported g' \<longrightarrow> gr_reported g))"

lemma goroutine_later_trans:
  "goroutine_later st g st' g' \<Longrightarrow> goroutine_later st' g' st'' g'' \<Longrightarrow> goroutine_later st g st'' g''"
  unfolding goroutine_later_def by (metis prefix_order.trans)

lemma goroutine_later_same: "(conn_up st' g \<Longrightarrow> conn_up st g) \<Longrightarrow> goroutine_later st g st' g"
  unfolding goroutine_later_def by auto

lemma write_line_later:
  "gr_todo g \<noteq> [] \<Longrightarrow> \<not> gr_done g \<Longrightarrow> goroutine_later st g (st\<lparr>cs_jobs := js\<rparr>) (write_line st ok g)"
  by (auto simp: goroutine_later_def write_line_def conn_up_def split: list.split)

lemma send_result_later:
  "\<not> gr_done g \<Longrightarrow> goroutine_later st g (st\<lparr>cs_jobs := js\<rparr>) (send_result st ok g)"
  by (auto simp: goroutine_later_def send_result_def conn_up_def)

lemma conn_step_later:
  assumes "conn_step sys st st'" and inv: "conn_inv sys st" and i: "i < length (cs_jobs st)"
  shows "i < length (cs_jobs st') \<and> goroutine_later st (cs_jobs st ! i) st' (cs_jobs st' ! i)"
  using assms(1)
proof cases
  case register
  have "gr_conn (cs_jobs st ! i) < cs_next st" using inv i by (simp add: conn_inv_def goroutine_ok_def)
  then show ?thesis using i by (auto simp: register conn_up_def intro!: goroutine_later_same)
next
  case (receive c dispatch out opened)
  then show ?thesis using i by (auto simp: nth_append conn_up_def intro!: goroutine_later_same)
next
  case (stream_ends c)
  then show ?thesis using i by (auto simp: conn_up_def intro!: goroutine_later_same)
next
  case (line j ok)
  have "\<not> gr_done (cs_jobs st ! j)" using inv line by (auto simp: conn_inv_def goroutine_ok_def)
  then show ?thesis
    using i line by (auto simp: nth_list_update conn_up_def intro: write_line_later goroutine_later_same)
next
  case (result j ok)
  then show ?thesis
    using i by (auto simp: nth_list_update conn_up_def intro: send_result_later goroutine_later_same)
qed

lemma conn_steps_later:
  assumes "(conn_step sys)\<^sup>*\<^sup>* st st'" and "conn_reach sys st" and "i < length (cs_jobs st)"
  shows "i < length (cs_jobs st') \<and> goroutine_later st (cs_jobs st ! i) st' (cs_jobs st' ! i) \<and> conn_reach sys st'"
  using assms
proof (induction rule: rtranclp_induct)
  case base
  then show ?case by (simp add: goroutine_later_same)
next
  case (step s s')
  then have i: "i < length (cs_jobs s)" and g: "goroutine_later st (cs_jobs st ! i) s (cs_jobs s ! i)"
    and r: "conn_reach sys s" by simp_all
  from conn_step_later [OF step.hyps(2) conn_reach_inv [OF r] i] g r step.hyps(2) show ?case
    by (auto intro: goroutine_later_trans conn_reach_step)
qed

text \<open>While nothing fails, a goroutine can write the rest of its lines and report.\<close>

lemma lines_go_through:
  assumes "i < length (cs_jobs st)" and "gr_todo (cs_jobs st ! i) = cs" and "gr_stream (cs_jobs st ! i)"
    and "conn_up st (cs_jobs st ! i)" and "list_all chunk_utf8 cs" and "\<not> gr_done (cs_jobs st ! i)"
  shows "\<exists>st'. (conn_step sys)\<^sup>*\<^sup>* st st' \<and> i < length (cs_jobs st') \<and> gr_todo (cs_jobs st' ! i) = []
    \<and> gr_sent (cs_jobs st' ! i) = gr_sent (cs_jobs st ! i) @ cs \<and> conn_up st' (cs_jobs st' ! i)
    \<and> \<not> gr_done (cs_jobs st' ! i)"
  using assms
proof (induction cs arbitrary: st)
  case Nil
  then show ?case by (intro exI [of _ st]) simp
next
  case (Cons c cs)
  define s where "s = st\<lparr>cs_jobs := (cs_jobs st)[i := write_line st True (cs_jobs st ! i)]\<rparr>"
  have step: "conn_step sys st s"
    unfolding s_def by (rule conn_step.line) (use Cons.prems in simp_all)
  have g: "cs_jobs s ! i = (cs_jobs st ! i)\<lparr>gr_todo := cs, gr_sent := gr_sent (cs_jobs st ! i) @ [c]\<rparr>"
    using Cons.prems by (simp add: s_def write_line_def)
  have "\<exists>st'. (conn_step sys)\<^sup>*\<^sup>* s st' \<and> i < length (cs_jobs st') \<and> gr_todo (cs_jobs st' ! i) = []
      \<and> gr_sent (cs_jobs st' ! i) = gr_sent (cs_jobs s ! i) @ cs \<and> conn_up st' (cs_jobs st' ! i)
      \<and> \<not> gr_done (cs_jobs st' ! i)"
    by (rule Cons.IH) (use Cons.prems g in \<open>simp_all add: conn_up_def s_def\<close>)
  then obtain st' where st': "(conn_step sys)\<^sup>*\<^sup>* s st'" "i < length (cs_jobs st')" "gr_todo (cs_jobs st' ! i) = []"
      "gr_sent (cs_jobs st' ! i) = gr_sent (cs_jobs s ! i) @ cs" "conn_up st' (cs_jobs st' ! i)"
      "\<not> gr_done (cs_jobs st' ! i)" by blast
  have "(conn_step sys)\<^sup>*\<^sup>* st st'" using step st'(1) by (rule converse_rtranclp_into_rtranclp)
  then show ?case using st'(2-6) by (intro exI [of _ st']) (simp add: g)
qed

lemma job_goes_through:
  assumes "i < length (cs_jobs st)" and "gr_stream (cs_jobs st ! i)" and "conn_up st (cs_jobs st ! i)"
    and "list_all chunk_utf8 (gr_todo (cs_jobs st ! i))" and "\<not> gr_done (cs_jobs st ! i)"
  shows "\<exists>st'. (conn_step sys)\<^sup>*\<^sup>* st st' \<and> gr_reported (cs_jobs st' ! i)
    \<and> gr_sent (cs_jobs st' ! i) = gr_sent (cs_jobs st ! i) @ gr_todo (cs_jobs st ! i)"
proof -
  obtain s where s: "(conn_step sys)\<^sup>*\<^sup>* st s" "i < length (cs_jobs s)" "gr_todo (cs_jobs s ! i) = []"
      "gr_sent (cs_jobs s ! i) = gr_sent (cs_jobs st ! i) @ gr_todo (cs_jobs st ! i)"
      "conn_up s (cs_jobs s ! i)" "\<not> gr_done (cs_jobs s ! i)"
    using lines_go_through [OF assms(1) refl assms(2-5)] by blast
  have "conn_step sys s (s\<lparr>cs_jobs := (cs_jobs s)[i := send_result s True (cs_jobs s ! i)]\<rparr>)"
    by (rule conn_step.result) (use s in simp_all)
  then have "(conn_step sys)\<^sup>*\<^sup>* st (s\<lparr>cs_jobs := (cs_jobs s)[i := send_result s True (cs_jobs s ! i)]\<rparr>)"
    by (rule rtranclp.rtrancl_into_rtrancl [OF s(1)])
  then show ?thesis using s by (intro exI conjI) (assumption, simp_all add: send_result_def)
qed

text \<open>
  Property C36: what the master learns of a job. In every state that an agent can reach, over however many
  connections and whatever the network does: the lines of a job that have arrived are the first ones of
  what it writes, each valid UTF-8, and while its log stream is open none is lost. From then on, what has
  arrived only grows; nothing more arrives once the log stream has broken (as a line that is not valid
  UTF-8 breaks it), and neither a line nor the result arrives once the connection that the job was started on is
  closed, though the agent connects again; a job that has ended unreported stays so. But while its stream
  and its connection are open and what it has to write is valid UTF-8, a job can get all its lines and its
  result to the master.
\<close>

theorem agent_reports:
  assumes "conn_reach sys st" and "i < length (cs_jobs st)" and "g = cs_jobs st ! i"
  shows "(\<exists>cs. job_outcome sys (gr_dispatch g) = Some (gr_result g, cs) \<and> prefix (gr_sent g) cs
      \<and> list_all chunk_utf8 (gr_sent g) \<and> (gr_stream g \<longrightarrow> cs = gr_sent g @ gr_todo g))
    \<and> (\<forall>st' g'. (conn_step sys)\<^sup>*\<^sup>* st st' \<and> g' = cs_jobs st' ! i \<longrightarrow>
         i < length (cs_jobs st') \<and> gr_dispatch g' = gr_dispatch g \<and> prefix (gr_sent g) (gr_sent g')
         \<and> (\<not> gr_stream g \<longrightarrow> gr_sent g' = gr_sent g)
         \<and> (\<not> conn_up st g \<longrightarrow> gr_sent g' = gr_sent g \<and> (gr_reported g' \<longrightarrow> gr_reported g))
         \<and> (gr_done g \<and> \<not> gr_reported g \<longrightarrow> \<not> gr_reported g'))
    \<and> (gr_stream g \<and> conn_up st g \<and> list_all chunk_utf8 (gr_todo g) \<and> \<not> gr_done g \<longrightarrow>
         (\<exists>st'. (conn_step sys)\<^sup>*\<^sup>* st st' \<and> gr_reported (cs_jobs st' ! i)
            \<and> gr_sent (cs_jobs st' ! i) = gr_sent g @ gr_todo g))"
proof (intro conjI)
  have ok: "goroutine_ok sys (cs_next st) g"
    using conn_reach_inv [OF assms(1)] assms(2,3) by (simp add: conn_inv_def)
  then obtain gap where "job_outcome sys (gr_dispatch g) = Some (gr_result g, gr_sent g @ gap @ gr_todo g)"
      "gr_stream g \<longrightarrow> gap = []" "list_all chunk_utf8 (gr_sent g)"
    unfolding goroutine_ok_def by blast
  then show "\<exists>cs. job_outcome sys (gr_dispatch g) = Some (gr_result g, cs) \<and> prefix (gr_sent g) cs
      \<and> list_all chunk_utf8 (gr_sent g) \<and> (gr_stream g \<longrightarrow> cs = gr_sent g @ gr_todo g)"
    by (intro exI [of _ "gr_sent g @ gap @ gr_todo g"]) simp
  show "\<forall>st' g'. (conn_step sys)\<^sup>*\<^sup>* st st' \<and> g' = cs_jobs st' ! i \<longrightarrow>
         i < length (cs_jobs st') \<and> gr_dispatch g' = gr_dispatch g \<and> prefix (gr_sent g) (gr_sent g')
         \<and> (\<not> gr_stream g \<longrightarrow> gr_sent g' = gr_sent g)
         \<and> (\<not> conn_up st g \<longrightarrow> gr_sent g' = gr_sent g \<and> (gr_reported g' \<longrightarrow> gr_reported g))
         \<and> (gr_done g \<and> \<not> gr_reported g \<longrightarrow> \<not> gr_reported g')"
  proof (intro allI impI)
    fix st' g'
    assume a: "(conn_step sys)\<^sup>*\<^sup>* st st' \<and> g' = cs_jobs st' ! i"
    then have "i < length (cs_jobs st') \<and> goroutine_later st g st' g'"
      using conn_steps_later [OF _ assms(1,2)] assms(3) by blast
    then show "i < length (cs_jobs st') \<and> gr_dispatch g' = gr_dispatch g \<and> prefix (gr_sent g) (gr_sent g')
         \<and> (\<not> gr_stream g \<longrightarrow> gr_sent g' = gr_sent g)
         \<and> (\<not> conn_up st g \<longrightarrow> gr_sent g' = gr_sent g \<and> (gr_reported g' \<longrightarrow> gr_reported g))
         \<and> (gr_done g \<and> \<not> gr_reported g \<longrightarrow> \<not> gr_reported g')"
      unfolding goroutine_later_def by blast
  qed
  show "gr_stream g \<and> conn_up st g \<and> list_all chunk_utf8 (gr_todo g) \<and> \<not> gr_done g \<longrightarrow>
         (\<exists>st'. (conn_step sys)\<^sup>*\<^sup>* st st' \<and> gr_reported (cs_jobs st' ! i)
            \<and> gr_sent (cs_jobs st' ! i) = gr_sent g @ gr_todo g)"
    using job_goes_through [OF assms(2)] assms(3) by blast
qed

text \<open>
  The job of the executor's example writes two lines; the stream of dispatches ends after the first. The second
  is lost, and the result too, though the agent has connected again.
\<close>

lemma demo_job_outcome:
  obtains c1 c2 where "job_outcome demo_os env_job = Some ((False, 2), [c1, c2])" and "chunk_utf8 c1"
proof -
  have l: "scan_lines (l @ [CHR 0x0A]) = [l]" if "CHR 0x0A \<notin> set l" "length l < max_token" "dropCR l = l" for l
    using scan_lines_line [OF that(1,2), of "[]"] that(3) by simp
  have lines: "scan_lines (''make'' @ [CHR 0x0A]) = [''make'']" "scan_lines (''no'' @ [CHR 0x0A]) = [''no'']"
    using l [of "''make''"] l [of "''no''"] by (simp_all add: max_token_def dropCR_def)
  obtain c1 c2 where out: "job_outcome demo_os env_job = Some ((False, 2), [c1, c2])" "pl_Line c1 = ''make''"
    using lines [simplified]
    by (simp add: job_outcome_def Executor_Run_def env_job_def runCommand_def demo_os_def Let_def line_chunk_def)
  have ids: "jd_JobId env_job = ''j''" "jd_RunId env_job = ''r''" by (simp_all add: env_job_def)
  have "list_all utf8_valid [''make'', ''j'', ''r'']" by code_simp
  then have "chunk_utf8 c1"
    using job_outcome_ids [OF out(1), of c1] out(2) ids by (simp add: chunk_utf8_def)
  with out(1) show thesis by (rule that)
qed

theorem agent_reports_witness:
  "\<exists>st c1 c2. conn_reach demo_os st \<and> conn_up (st\<lparr>cs_open := Some 0\<rparr>) (cs_jobs st ! 0) \<and> cs_open st = Some 1
    \<and> job_outcome demo_os env_job = Some ((False, 2), [c1, c2])
    \<and> map gr_sent (cs_jobs st) = [[c1]] \<and> map gr_done (cs_jobs st) = [True] \<and> map gr_reported (cs_jobs st) = [False]
    \<and> {st'. (conn_step demo_os)\<^sup>*\<^sup>* st st' \<and> gr_reported (cs_jobs st' ! 0)} = {}"
proof -
  obtain c1 c2 where out: "job_outcome demo_os env_job = Some ((False, 2), [c1, c2])" and c1: "chunk_utf8 c1"
    by (rule demo_job_outcome)
  let ?g = "go_handleJob 0 env_job ((False, 2), [c1, c2]) True"
  let ?st = "\<lambda>up n gs. \<lparr>cs_open = up, cs_next = n, cs_jobs = gs\<rparr>"
  let ?g2 = "?g\<lparr>gr_todo := [c2], gr_sent := [c1]\<rparr>"
  let ?g3 = "?g\<lparr>gr_todo := [], gr_sent := [c1], gr_stream := False\<rparr>"
  let ?g4 = "?g3\<lparr>gr_done := True\<rparr>"
  let ?last = "?st (Some 1) 2 [?g4]"
  have s1: "conn_step demo_os conn_init (?st (Some 0) 1 [])"
    using conn_step.register [of conn_init] by (simp add: conn_init_def)
  have s2: "conn_step demo_os (?st (Some 0) 1 []) (?st (Some 0) 1 [?g])"
    using conn_step.receive [of "?st (Some 0) 1 []", OF _ out, of 0 True] by simp
  have s3: "conn_step demo_os (?st (Some 0) 1 [?g]) (?st (Some 0) 1 [?g2])"
    using conn_step.line [of 0 "?st (Some 0) 1 [?g]" _ True]
    by (simp add: go_handleJob_def write_line_def conn_up_def c1)
  have s4: "conn_step demo_os (?st (Some 0) 1 [?g2]) (?st None 1 [?g2])"
    using conn_step.stream_ends [of "?st (Some 0) 1 [?g2]"] by simp
  have s5: "conn_step demo_os (?st None 1 [?g2]) (?st None 1 [?g3])"
    using conn_step.line [of 0 "?st None 1 [?g2]"] by (simp add: go_handleJob_def write_line_def conn_up_def)
  have s6: "conn_step demo_os (?st None 1 [?g3]) (?st None 1 [?g4])"
    using conn_step.result [of 0 "?st None 1 [?g3]"]
    by (simp add: go_handleJob_def send_result_def conn_up_def)
  have s7: "conn_step demo_os (?st None 1 [?g4]) ?last"
    using conn_step.register [of "?st None 1 [?g4]"] by (simp add: numeral_2_eq_2)
  have "conn_reach demo_os conn_init" by (simp add: conn_reach_def)
  note reach = this [THEN conn_reach_step, OF s1, THEN conn_reach_step, OF s2, THEN conn_reach_step, OF s3,
      THEN conn_reach_step, OF s4, THEN conn_reach_step, OF s5, THEN conn_reach_step, OF s6,
      THEN conn_reach_step, OF s7]
  have never: "\<not> gr_reported (cs_jobs st' ! 0)" if "(conn_step demo_os)\<^sup>*\<^sup>* ?last st'" for st'
    using agent_reports [OF reach, of 0 ?g4] that by (auto simp: go_handleJob_def)
  show ?thesis
    by (rule exI [of _ ?last], rule exI [of _ c1], rule exI [of _ c2])
      (use reach out never in \<open>auto simp: conn_up_def go_handleJob_def\<close>)
qed

text \<open>
  The result does not wait for the lines: when the log stream does not open, or a line breaks it, the master gets
  the result of a job of which it lacks lines, over a connection that stays open.
\<close>

lemma report_without_lines:
  "\<exists>st. conn_reach demo_os st \<and> map gr_sent (cs_jobs st) = [[]] \<and> map gr_reported (cs_jobs st) = [True]
    \<and> conn_up st (cs_jobs st ! 0)"
proof -
  obtain c1 c2 where out: "job_outcome demo_os env_job = Some ((False, 2), [c1, c2])"
    by (rule demo_job_outcome)
  let ?st = "\<lambda>g. \<lparr>cs_open = Some 0, cs_next = 1, cs_jobs = [g]\<rparr>"
  let ?g = "go_handleJob 0 env_job ((False, 2), [c1, c2]) False"
  have s1: "conn_step demo_os conn_init \<lparr>cs_open = Some 0, cs_next = 1, cs_jobs = []\<rparr>"
    using conn_step.register [of conn_init] by (simp add: conn_init_def)
  have s2: "conn_step demo_os \<lparr>cs_open = Some 0, cs_next = 1, cs_jobs = []\<rparr> (?st ?g)"
    using conn_step.receive [of "\<lparr>cs_open = Some 0, cs_next = 1, cs_jobs = []\<rparr>", OF _ out, of 0 False] by simp
  have s3: "conn_step demo_os (?st ?g) (?st (?g\<lparr>gr_todo := [c2]\<rparr>))"
    using conn_step.line [of 0 "?st ?g"] by (simp add: go_handleJob_def write_line_def)
  have s4: "conn_step demo_os (?st (?g\<lparr>gr_todo := [c2]\<rparr>)) (?st (?g\<lparr>gr_todo := []\<rparr>))"
    using conn_step.line [of 0 "?st (?g\<lparr>gr_todo := [c2]\<rparr>)"] by (simp add: go_handleJob_def write_line_def)
  have s5: "conn_step demo_os (?st (?g\<lparr>gr_todo := []\<rparr>)) (?st (?g\<lparr>gr_todo := [], gr_done := True, gr_reported := True\<rparr>))"
    using conn_step.result [of 0 "?st (?g\<lparr>gr_todo := []\<rparr>)" _ True]
    by (simp add: go_handleJob_def send_result_def conn_up_def)
  have "conn_reach demo_os conn_init" by (simp add: conn_reach_def)
  from this [THEN conn_reach_step, OF s1, THEN conn_reach_step, OF s2, THEN conn_reach_step, OF s3,
      THEN conn_reach_step, OF s4, THEN conn_reach_step, OF s5]
  show ?thesis by (intro exI conjI) (assumption, simp_all add: go_handleJob_def conn_up_def)
qed

end
