(* ===== verification/Cli.thy ===== *)
theory Cli
  imports Workflow_Props Master_Props Auth_Props Agent_Client
begin

text \<open>
  \<open>cmd/cli/cmd\<close>: the commands of the command line client. cobra's parsing is left out: a command takes
  the values of its flags and its arguments. The gRPC client is a parameter \<open>grpc_client\<close>, and is
  instantiated with the services of the master below.
\<close>

section \<open>The connection\<close>

text \<open>The outgoing metadata of a context, and the client that \<open>grpc.NewClient\<close> and the stubs make.\<close>

type_synonym metadata = "(string \<times> string) list"

datatype recv_event = Recv_chunk pb_LogChunk | Recv_EOF | Recv_error go_error

record 'k grpc_client =
  gr_NewClient :: "string \<Rightarrow> unit result"
  gr_SubmitPipeline :: "metadata \<Rightarrow> PipelineSpec \<Rightarrow> 'k \<Rightarrow> string result \<times> 'k"
  gr_GetRun :: "metadata \<Rightarrow> string \<Rightarrow> 'k \<Rightarrow> RunStatus result \<times> 'k"
  gr_StreamLogs :: "metadata \<Rightarrow> string \<Rightarrow> 'k \<Rightarrow> recv_event list result \<times> 'k"

text \<open>The persistent flags \<open>--master\<close> and \<open>--api-key\<close>, with the environment of the process.\<close>

record cli_flags =
  cf_masterAddr :: string
  cf_apiKey :: string
  cf_Getenv :: "string \<Rightarrow> string"

definition dial :: "'k grpc_client \<Rightarrow> string \<Rightarrow> string \<Rightarrow> unit result" where
  "dial c addr key = gr_NewClient c addr"

definition authCtx :: "metadata \<Rightarrow> string \<Rightarrow> metadata" where
  "authCtx ctx key = (if key = [] then ctx else ctx @ [(''authorization'', ''Bearer '' @ key)])"

definition resolveAPIKey :: "cli_flags \<Rightarrow> string" where
  "resolveAPIKey f = (if cf_apiKey f \<noteq> [] then cf_apiKey f else cf_Getenv f ''BRAZIER_API_KEY'')"

section \<open>The commands\<close>

text \<open>A command gives an error or none, and what it wrote. \<open>cobra.ExactArgs(1)\<close> guards three of them.\<close>

definition nl :: string where "nl = [CHR 0x0A]"

definition arg_error :: "string list \<Rightarrow> go_error" where
  "arg_error args = Errorf ''accepts %d arg(s), received %d'' [decimal 1, decimal (length args)]"

definition exact_arg :: "string list \<Rightarrow> (string \<Rightarrow> unit result \<times> string \<times> 'k) \<Rightarrow> 'k \<Rightarrow> unit result \<times> string \<times> 'k" where
  "exact_arg args body k =
     (case args of
        [a] \<Rightarrow> body a
      | _ \<Rightarrow> (Inl (arg_error args), [], k))"

definition submitPipeline :: "'k grpc_client \<Rightarrow> cli_flags \<Rightarrow> PipelineSpec \<Rightarrow> 'k \<Rightarrow> string result \<times> 'k" where
  "submitPipeline c f spec k =
     (case dial c (cf_masterAddr f) (resolveAPIKey f) of
        Inl e \<Rightarrow> (Inl e, k)
      | Inr _ \<Rightarrow>
          (case gr_SubmitPipeline c (authCtx [] (resolveAPIKey f)) spec k of
             (Inl e, k1) \<Rightarrow> (Inl (Wrapf ''submit pipeline'' [] e), k1)
           | (Inr runID, k1) \<Rightarrow> (Inr runID, k1)))"

definition newRunCmd ::
  "'s host \<Rightarrow> (string \<Rightarrow> PipelineSpec result) \<Rightarrow> 'k grpc_client \<Rightarrow> cli_flags \<Rightarrow> string \<Rightarrow> 's \<times> 'k \<Rightarrow>
   unit result \<times> string \<times> 's \<times> 'k" where
  "newRunCmd h unmarshal c f dir = (\<lambda>(s, k).
     (case ExecBrazierfile h unmarshal None dir s of
        (Inl e, s1) \<Rightarrow> (Inl (Wrapf ''exec brazierfile'' [] e), [], s1, k)
      | (Inr spec, s1) \<Rightarrow>
          (case submitPipeline c f spec k of
             (Inl e, k1) \<Rightarrow> (Inl e, [], s1, k1)
           | (Inr runID, k1) \<Rightarrow> (Inr (), ''Run started: '' @ runID @ nl, s1, k1))))"

definition newTriggerCmd :: "'k grpc_client \<Rightarrow> cli_flags \<Rightarrow> string list \<Rightarrow> 'k \<Rightarrow> unit result \<times> string \<times> 'k" where
  "newTriggerCmd c f args k =
     exact_arg args (\<lambda>project.
       (let spec = \<lparr>ps_Workflow = Some \<lparr>wr_Name = project, wr_Version = []\<rparr>, ps_Nodes = []\<rparr> in
        case submitPipeline c f spec k of
          (Inl e, k1) \<Rightarrow> (Inl e, [], k1)
        | (Inr runID, k1) \<Rightarrow> (Inr (), ''Triggered run: '' @ runID @ nl, k1))) k"

definition print_status :: "RunStatus \<Rightarrow> string" where
  "print_status st =
     ''Run:   '' @ rs_RunId st @ nl @ ''State: '' @ rs_State st @ nl
     @ (if length (rs_Nodes st) > 0
        then ''Nodes:'' @ nl @ concat (map (\<lambda>n. ''  - '' @ n @ nl) (rs_Nodes st)) else [])"

definition newStatusCmd :: "'k grpc_client \<Rightarrow> cli_flags \<Rightarrow> string list \<Rightarrow> 'k \<Rightarrow> unit result \<times> string \<times> 'k" where
  "newStatusCmd c f args k =
     exact_arg args (\<lambda>runID.
       (case dial c (cf_masterAddr f) (resolveAPIKey f) of
          Inl e \<Rightarrow> (Inl e, [], k)
        | Inr _ \<Rightarrow>
            (case gr_GetRun c (authCtx [] (resolveAPIKey f)) runID k of
               (Inl e, k1) \<Rightarrow> (Inl (Wrapf ''get run'' [] e), [], k1)
             | (Inr st, k1) \<Rightarrow> (Inr (), print_status st, k1)))) k"

text \<open>
  The loop of \<open>logs\<close> over what \<open>Recv\<close> gives; \<open>None\<close> says that the command still waits for the next.
\<close>

definition log_line :: "pb_LogChunk \<Rightarrow> string" where
  "log_line c =
     ''['' @ pl_JobId c @ ''] '' @ (if pl_Stderr c then ''[stderr] '' else []) @ pl_Line c @ nl"

fun logs_loop :: "recv_event list \<Rightarrow> unit result option \<times> string" where
  "logs_loop [] = (None, [])"
| "logs_loop (Recv_EOF # evs) = (Some (Inr ()), [])"
| "logs_loop (Recv_error e # evs) = (Some (Inl (Wrapf ''recv log'' [] e)), [])"
| "logs_loop (Recv_chunk c # evs) = (case logs_loop evs of (q, out) \<Rightarrow> (q, log_line c @ out))"

definition newLogsCmd ::
  "'k grpc_client \<Rightarrow> cli_flags \<Rightarrow> string list \<Rightarrow> 'k \<Rightarrow> (unit result option \<times> string) \<times> 'k" where
  "newLogsCmd c f args k =
     (case args of
        [runID] \<Rightarrow>
          (case dial c (cf_masterAddr f) (resolveAPIKey f) of
             Inl e \<Rightarrow> ((Some (Inl e), []), k)
           | Inr _ \<Rightarrow>
               (case gr_StreamLogs c (authCtx [] (resolveAPIKey f)) runID k of
                  (Inl e, k1) \<Rightarrow> ((Some (Inl (Wrapf ''stream logs'' [] e)), []), k1)
                | (Inr evs, k1) \<Rightarrow> (logs_loop evs, k1)))
      | _ \<Rightarrow> ((Some (Inl (arg_error args)), []), k))"

text \<open>
  \<open>agent start\<close>, with the clock at \<open>now\<close> (nanoseconds): an error, or the client with the result of its
  loop.
\<close>

definition newAgentID :: "nat \<Rightarrow> string" where
  "newAgentID now = ''agent-'' @ decimal now"

definition newAgentStartCmd ::
  "cli_flags \<Rightarrow> string \<Rightarrow> int32 \<Rightarrow> string list \<Rightarrow> int \<Rightarrow> nat \<Rightarrow> (bool \<times> attempt \<times> bool) list \<Rightarrow> agent_state \<Rightarrow>
   go_error + (string \<times> bool \<times> agent_state)" where
  "newAgentStartCmd f agentName capacity labels jobTimeout now turns st =
     (if agentName = [] then Inl (Errorf ''--name is required'' [])
      else
        (let reg = \<lparr>ar_AgentId = newAgentID now, ar_Name = agentName, ar_Labels = labels,
                    ar_Capacity = capacity\<rparr>;
             a = NewAgentClient (cf_masterAddr f) reg jobTimeout in
         Inr (''Agent '' @ ar_AgentId reg @ '' connecting to '' @ cf_masterAddr f @ ''...'' @ nl,
              agent_Run a turns st)))"

section \<open>The API key\<close>

text \<open>What \<open>metadata.FromIncomingContext\<close> and \<open>Get\<close> make of the metadata on the server.\<close>

definition incoming :: "metadata \<Rightarrow> string list option" where
  "incoming md = Some (map snd (filter (\<lambda>(k, _). k = ''authorization'') md))"

definition word_char :: "char \<Rightarrow> bool" where
  "word_char c \<longleftrightarrow> 33 \<le> (of_char c :: nat) \<and> (of_char c :: nat) < 128"

lemma word_chars_no_lead:
  assumes "s = [] \<or> word_char (hd s)" and "ws = space_encodings \<or> ws = map rev space_encodings"
  shows "trim_lead ws s = s"
proof (rule trim_lead_id)
  have "\<forall>w \<in> set ws. w \<noteq> [] \<and> \<not> word_char (hd w)"
    using assms(2) by (elim disjE; simp only:) code_simp+
  then show "lead_word ws s = None"
    using assms(1) by (metis hd_append2 lead_word_Some HasPrefix_iff append_is_Nil_conv option.exhaust)
qed

lemma TrimSpace_word: "\<forall>c \<in> set s. word_char c \<Longrightarrow> TrimSpace s = s"
proof -
  assume s: "\<forall>c \<in> set s. word_char c"
  then have "s = [] \<or> word_char (hd s)" "rev s = [] \<or> word_char (hd (rev s))"
    by (metis hd_in_set, metis hd_in_set set_rev)
  then show ?thesis by (simp add: TrimSpace_def word_chars_no_lead)
qed

lemma hex_digit_word: "n < 16 \<Longrightarrow> word_char (hex_digit n)"
  by (auto simp: hex_digit_def word_char_def)

lemma hex_word: "c \<in> set (hex_EncodeToString s) \<Longrightarrow> word_char c"
proof (induction s)
  case (Cons d s)
  have "(of_char d :: nat) < 256" by simp
  then have "(of_char d :: nat) div 16 < 16" by linarith
  then show ?case using Cons hex_digit_word by (auto split: if_splits)
qed simp

text \<open>
  Property C20: the client authenticates with the key it was given. A raw key that \<open>Generate\<close> returned, set by
  the flag or, without it, by the environment variable, passes the interceptor of the server, so that the
  RPC is handled; a client that has none is refused, and the RPC is not handled.
\<close>

theorem cli_key_accepted:
  assumes "Generate bc env (Inr bytes) salt idbuf name db = (Inr raw, db1)"
    and "\<forall>s p h. bc_generate bc s p = Inr h \<longrightarrow> bc_compare bc h p"
    and "env_fault env (st_stmts db1) = None" and "ae_cut env (st_stmts db1) = None"
  shows "(cf_apiKey f = raw \<or> cf_apiKey f = [] \<and> cf_Getenv f ''BRAZIER_API_KEY'' = raw \<longrightarrow>
       (\<exists>db2. GRPCInterceptor True bc env now handler (incoming (authCtx [] (resolveAPIKey f))) (db1, k)
          = (Inr (fst (handler k)), db2, snd (handler k))))
    \<and> (cf_apiKey f = [] \<and> cf_Getenv f ''BRAZIER_API_KEY'' = [] \<longrightarrow>
       GRPCInterceptor True bc env now handler (incoming (authCtx [] (resolveAPIKey f))) (db1, k)
         = (Inl ''missing authorization'', db1, k))"
proof (intro conjI impI)
  obtain hash where raw: "raw = ''bz_'' @ hex_EncodeToString bytes" and "bc_generate bc salt raw = Inr hash"
    and "hash \<in> kr_hash ` set (au_keys db1)"
    using Generate_row [OF assms(1)] by force
  then have "\<exists>r \<in> set (au_keys db1). bc_compare bc (kr_hash r) raw" using assms(2) by force
  moreover obtain q db2 where v: "APIKey_Validate bc env raw db1 = (q, db2)" by (metis surj_pair)
  ultimately obtain key where "q = Inr key" using APIKey_Validate_exact [OF v] assms(3,4) by blast
  have "\<forall>c \<in> set raw. word_char c" unfolding raw using hex_word by (auto simp: word_char_def)
  then have "extractBearer (''Bearer '' @ raw) = raw"
    using TrimSpace_word TrimPrefix_append [of "''Bearer ''" raw] by (simp add: extractBearer_def HasPrefix_iff)
  then have ok: "validateGRPC bc env now (Some [''Bearer '' @ raw]) db1 = (None, db2)"
    using v \<open>q = Inr key\<close> by (simp add: validateGRPC_def Let_def raw apiKeyPrefix_def HasPrefix_iff)
  assume "cf_apiKey f = raw \<or> cf_apiKey f = [] \<and> cf_Getenv f ''BRAZIER_API_KEY'' = raw"
  then have "resolveAPIKey f = raw" using raw by (auto simp: resolveAPIKey_def)
  then have "incoming (authCtx [] (resolveAPIKey f)) = Some [''Bearer '' @ raw]"
    by (simp add: incoming_def authCtx_def raw)
  then show "\<exists>db2. GRPCInterceptor True bc env now handler (incoming (authCtx [] (resolveAPIKey f))) (db1, k)
      = (Inr (fst (handler k)), db2, snd (handler k))"
    using ok by (simp add: GRPCInterceptor_def split: prod.split)
next
  assume "cf_apiKey f = [] \<and> cf_Getenv f ''BRAZIER_API_KEY'' = []"
  then show "GRPCInterceptor True bc env now handler (incoming (authCtx [] (resolveAPIKey f))) (db1, k)
      = (Inl ''missing authorization'', db1, k)"
    by (simp add: resolveAPIKey_def authCtx_def incoming_def GRPCInterceptor_def validateGRPC_def)
qed

definition toy_flags :: cli_flags where
  "toy_flags = \<lparr>cf_masterAddr = ''localhost:9000'', cf_apiKey = [],
     cf_Getenv = (\<lambda>v. if v = ''BRAZIER_API_KEY'' then ''bz_6162'' else [])\<rparr>"

theorem cli_key_accepted_witness:
  "\<exists>db2. GRPCInterceptor True toy_bcrypt toy_env 0 (\<lambda>n. (n, Suc n)) (incoming (authCtx [] (resolveAPIKey toy_flags)))
      (snd toy_key, 4) = (Inr 4, db2, 5)"
proof -
  have law: "\<forall>s p h. bc_generate toy_bcrypt s p = Inr h \<longrightarrow> bc_compare toy_bcrypt h p"
    by (auto simp: toy_bcrypt_def)
  have up: "env_fault toy_env n = None" "ae_cut toy_env n = None" for n by (simp_all add: toy_env_def)
  have "cf_apiKey toy_flags = [] \<and> cf_Getenv toy_flags ''BRAZIER_API_KEY'' = ''bz_6162''" by (simp add: toy_flags_def)
  then show ?thesis
    using cli_key_accepted [OF toy_key_eq law up, of toy_flags 0 "\<lambda>n. (n, Suc n)" 4] by simp
qed

section \<open>What a submission relies on\<close>

text \<open>
  A server that is ready answers a submission with the ID \<open>rid\<close> of a new run; \<open>started\<close> is what that does.
\<close>

locale submit_contract =
  fixes c :: "'k grpc_client"
    and ready :: "'k \<Rightarrow> bool"
    and rid :: string
    and started :: "PipelineSpec \<Rightarrow> 'k \<Rightarrow> 'k \<Rightarrow> bool"
  assumes connects: "gr_NewClient c addr = Inr ()"
    and submits: "ready k \<Longrightarrow> \<exists>k'. gr_SubmitPipeline c md spec k = (Inr rid, k') \<and> started spec k k'"
begin

lemma submitPipeline_ok:
  "ready k \<Longrightarrow> \<exists>k'. submitPipeline c f spec k = (Inr rid, k') \<and> started spec k k'"
  using submits [of k "authCtx [] (resolveAPIKey f)" spec] by (auto simp: submitPipeline_def dial_def connects)

lemma run_cmd_ok:
  assumes "ready k" and "ExecBrazierfile h unmarshal None dir s = (Inr spec, s1)"
  shows "\<exists>k'. newRunCmd h unmarshal c f dir (s, k) = (Inr (), ''Run started: '' @ rid @ nl, s1, k') \<and> started spec k k'"
  using submitPipeline_ok [OF assms(1), of f spec] assms(2) by (auto simp: newRunCmd_def)

lemma trigger_cmd_ok:
  assumes "ready k"
  shows "\<exists>k'. newTriggerCmd c f [project] k = (Inr (), ''Triggered run: '' @ rid @ nl, k')
    \<and> started \<lparr>ps_Workflow = Some \<lparr>wr_Name = project, wr_Version = []\<rparr>, ps_Nodes = []\<rparr> k k'"
proof -
  obtain k' where "submitPipeline c f \<lparr>ps_Workflow = Some \<lparr>wr_Name = project, wr_Version = []\<rparr>, ps_Nodes = []\<rparr> k
      = (Inr rid, k')" and "started \<lparr>ps_Workflow = Some \<lparr>wr_Name = project, wr_Version = []\<rparr>, ps_Nodes = []\<rparr> k k'"
    using submitPipeline_ok [OF assms] by blast
  then show ?thesis by (simp add: newTriggerCmd_def exact_arg_def)
qed

text \<open>A command that is given the wrong number of arguments does not get as far as the server.\<close>

lemma trigger_cmd_args: "length args \<noteq> 1 \<Longrightarrow> newTriggerCmd c f args k = (Inl (arg_error args), [], k)"
  by (auto simp: newTriggerCmd_def exact_arg_def split: list.split)

end

section \<open>The client of the wired master\<close>

text \<open>
  The stubs, answered by the services of \<open>internal/api\<close>: without an interceptor the metadata is not looked
  at. \<open>err\<close> makes an error of a status; \<open>ticks\<close> is what happens to the store before each of the ticks of a log
  stream so far. A stream on which no tick has found the end of the run, nor an error, is still open: the
  server only leaves its loop for these, or when the client has gone.
\<close>

fun stream_waits ::
  "'s DB \<Rightarrow> string \<Rightarrow> ('s \<Rightarrow> 's) list \<Rightarrow> nat \<Rightarrow> 's \<times> pb_LogChunk list \<Rightarrow> bool" where
  "stream_waits D rid [] seen sk = True"
| "stream_waits D rid (f # fs) seen (s, k) =
     (case StreamLogs_tick D collect rid seen (f s, k) of
        (Inl e, sk) \<Rightarrow> False
      | (Inr (stop, seen'), sk) \<Rightarrow> \<not> stop \<and> stream_waits D rid fs seen' sk)"

definition master_client ::
  "sql_env \<Rightarrow> net_env \<Rightarrow> 'h Bus \<Rightarrow> (grpc_error \<Rightarrow> go_error) \<Rightarrow> (db_value \<Rightarrow> db_value) list \<Rightarrow> string \<Rightarrow> time \<Rightarrow>
   (db_value, Registry, 'h) world grpc_client" where
  "master_client env net b err ticks runID now =
     \<lparr>gr_NewClient = (\<lambda>_. Inr ()),
      gr_SubmitPipeline = (\<lambda>md spec w.
        case SubmitPipeline (master_manager env net b) runID now spec w of (q, w1) \<Rightarrow> (map_sum err id q, w1)),
      gr_GetRun = (\<lambda>md rid w.
        case GetRun (store_DB env) rid (w_db w) of (q, s) \<Rightarrow> (map_sum err id q, w\<lparr>w_db := s\<rparr>)),
      gr_StreamLogs = (\<lambda>md rid w.
        case StreamLogs (store_DB env) collect rid ticks 0 (w_db w, []) of (q, s, cs) \<Rightarrow>
          (Inr (map Recv_chunk cs @
             (case q of
                Inl e \<Rightarrow> [Recv_error (err e)]
              | Inr _ \<Rightarrow> if stream_waits (store_DB env) rid ticks 0 (w_db w, []) then [] else [Recv_EOF])),
           w\<lparr>w_db := s\<rparr>))\<rparr>"

abbreviation (input) manual_rc :: RunContext where
  "manual_rc \<equiv> \<lparr>rc_Branch = [], rc_Tag = [], rc_Event = ''manual''\<rparr>"

text \<open>What \<open>Start\<close> does for a client.\<close>

definition api_started ::
  "string \<Rightarrow> PipelineSpec \<Rightarrow> (db_value, Registry, 'h) world \<Rightarrow> (db_value, Registry, 'h) world \<Rightarrow> bool" where
  "api_started rid spec w w' \<longleftrightarrow>
     store_valid (w_db w') \<and> w_disp w' = w_disp w
     \<and> runs_of (w_db w') = (runs_of (w_db w))(rid \<mapsto> (''api'', RunStateRunning))
     \<and> nodes_of (w_db w') = set_rows rid (seed_ids spec) NodeStatePending (nodes_of (w_db w))
     \<and> w_tasks w' = w_tasks w @ [\<lparr>at_runID = rid, at_spec = spec, at_rc = manual_rc\<rparr>]"

interpretation master_cli: submit_contract "master_client (healthy env) net b err ticks rid now"
  "\<lambda>w. store_valid (w_db w) \<and> runs_of (w_db w) rid = None" rid "api_started rid"
  for env net b err ticks rid now
proof unfold_locales
  show "gr_NewClient (master_client (healthy env) net b err ticks rid now) addr = Inr ()" for addr
    by (simp add: master_client_def)
next
  fix w :: "(db_value, Registry, 'a) world" and md spec
  assume "store_valid (w_db w) \<and> runs_of (w_db w) rid = None"
  then have v: "store_valid (w_db w)" and "runs_of (w_db w) rid = None" by simp_all
  then obtain w' where st: "Start (master_manager (healthy env) net b) rid now spec ''api'' manual_rc w = (Inr rid, w')"
    using Start_up by blast
  then have "gr_SubmitPipeline (master_client (healthy env) net b err ticks rid now) md spec w = (Inr rid, w')"
    by (simp add: master_client_def SubmitPipeline_def)
  moreover have "api_started rid spec w w'" using mgr.Start_ok [OF v st] by (simp add: api_started_def)
  ultimately show "\<exists>w'. gr_SubmitPipeline (master_client (healthy env) net b err ticks rid now) md spec w = (Inr rid, w')
      \<and> api_started rid spec w w'" by blast
qed

text \<open>
  Property C18: \<open>brazier run\<close> starts the pipeline that the Brazierfile builds. When a Brazierfile is found, its
  program ends as \<open>Run\<close> of the SDK ends it and the store of the master answers, the command prints the ID of a new run, which is running,
  has exactly the rows of the nodes of that pipeline, all pending, and waits for its first \<open>Advance\<close>. When
  the program could not encode or write the pipeline, nothing is submitted.
\<close>

theorem cli_run_starts:
  assumes "\<And>p b. marshal p = Inr b \<Longrightarrow> unmarshal b = Inr p"
    and "detectBrazierfile h dir s = Inr (path, lang)"
    and "h_Run h (brazierfile_cmd None dir path lang) s
      = ((pe_stdout (sdk_Run marshal write msg (NewPipeline opts)),
          if pe_status (sdk_Run marshal write msg (NewPipeline opts)) = 0 then None
          else Some (DriverErr ''exit status 1'')), s1)"
    and "store_valid (w_db w)" and "runs_of (w_db w) rid = None"
  shows "\<exists>q out w'. newRunCmd h unmarshal (master_client (healthy env) net b err ticks rid now) f dir (s, w)
        = (q, out, s1, w')
    \<and> (if \<exists>c. marshal (NewPipeline opts) = Inr c \<and> write c = None
       then q = Inr () \<and> out = ''Run started: '' @ rid @ [CHR 0x0A]
         \<and> runs_of (w_db w') = (runs_of (w_db w))(rid \<mapsto> (''api'', RunStateRunning))
         \<and> nodes_of (w_db w') = set_rows rid (seed_ids (NewPipeline opts)) NodeStatePending (nodes_of (w_db w))
         \<and> w_disp w' = w_disp w
         \<and> w_tasks w' = w_tasks w @ [\<lparr>at_runID = rid, at_spec = NewPipeline opts,
              at_rc = \<lparr>rc_Branch = [], rc_Tag = [], rc_Event = ''manual''\<rparr>\<rparr>]
       else (\<exists>e. q = Inl (Wrapf ''exec brazierfile'' [] e)) \<and> out = [] \<and> w' = w)"
proof (cases "\<exists>c. marshal (NewPipeline opts) = Inr c \<and> write c = None")
  case True
  then have ex: "ExecBrazierfile h unmarshal None dir s = (Inr (NewPipeline opts), s1)"
    using Brazierfile_roundtrip [where marshal = marshal and msg = msg, OF assms(1-3)] by simp
  obtain w' where run: "newRunCmd h unmarshal (master_client (healthy env) net b err ticks rid now) f dir (s, w)
      = (Inr (), ''Run started: '' @ rid @ [CHR 0x0A], s1, w')" and "api_started rid (NewPipeline opts) w w'"
    using master_cli.run_cmd_ok [OF conjI [OF assms(4,5)] ex, unfolded nl_def] by blast
  then show ?thesis using True by (simp add: api_started_def)
next
  case False
  then have "\<exists>e. ExecBrazierfile h unmarshal None dir s = (Inl e, s1)"
    using Brazierfile_roundtrip [where marshal = marshal and msg = msg, OF assms(1-3)] by simp
  then show ?thesis using False by (auto simp: newRunCmd_def)
qed

text \<open>The example of \<open>Workflow_Props\<close>, submitted to a fresh master.\<close>

theorem cli_run_starts_witness:
  "\<exists>w'. newRunCmd (toy_dir (\<lambda>_. None)) toy_spec_of
        (master_client (healthy ex_env) ex_net ex_bus (\<lambda>_. ErrNoRows) [] ''r'' 0) toy_flags ''/src'' ((), ex_world)
      = (Inr (), ''Run started: r'' @ [CHR 0x0A], (), w')
    \<and> length (w_tasks w') = 1 \<and> nodes_of (w_db w') (''r'', ''test'') = Some ([], NodeStatePending)"
proof -
  have inv: "\<And>p b. toy_marshal p = Inr b \<Longrightarrow> toy_spec_of b = Inr p"
    by (auto simp: toy_marshal_def toy_spec_of_def split: if_splits)
  have run: "h_Run (toy_dir w) c () = ((pe_stdout (sdk_Run toy_marshal w (\<lambda>e. ''error'') (NewPipeline toy_pipeline)),
      if pe_status (sdk_Run toy_marshal w (\<lambda>e. ''error'') (NewPipeline toy_pipeline)) = 0 then None
      else Some (DriverErr ''exit status 1'')), ())" for w c
    by (simp add: toy_dir_def Let_def)
  have m: "\<exists>c. toy_marshal (NewPipeline toy_pipeline) = Inr c \<and> (\<lambda>_. None) c = (None :: (nat \<times> string) option)"
    by (simp add: toy_marshal_def)
  have new: "runs_of (w_db ex_world) ''r'' = None" by (simp add: ex_world_def open_store_empty)
  have ids: "''test'' \<in> seed_ids (NewPipeline toy_pipeline)" by code_simp
  have t: "w_tasks ex_world = []" by (simp add: ex_world_def)
  note all = cli_run_starts [of toy_marshal toy_spec_of "toy_dir (\<lambda>_. None)" "''/src''" "()" "''/src/Brazierfile.go''"
        "''go''" "\<lambda>_. None" "\<lambda>e. ''error''" toy_pipeline, where env = ex_env and net = ex_net and b = ex_bus and err = "\<lambda>_. ErrNoRows" and ticks = "[]" and now = 0
      and f = toy_flags, OF inv toy_detect run ex_world_ok(1) new, unfolded if_P [OF m]]
  show ?thesis
    using all ids t
    by (auto simp: set_rows_def)
qed

text \<open>
  Property C19: \<open>brazier trigger\<close> runs nothing. Whatever the project, on a master whose store answers the
  command reports a triggered run; but that run has no nodes and does not bear the name of the project, and its goroutine
  changes no row and sends nothing. No Brazierfile is fetched.
\<close>

theorem cli_trigger_runs_nothing:
  assumes "store_valid (w_db w)" and "registry_ok (w_disp w)" and "runs_of (w_db w) rid = None"
  shows "\<exists>w' t. newTriggerCmd (master_client (healthy env) net b err ticks rid now) f [project] w
        = (Inr (), ''Triggered run: '' @ rid @ [CHR 0x0A], w')
    \<and> runs_of (w_db w') = (runs_of (w_db w))(rid \<mapsto> (''api'', RunStateRunning))
    \<and> nodes_of (w_db w') = nodes_of (w_db w) \<and> w_tasks w' = w_tasks w @ [t]
    \<and> (let w2 = run_task (master_manager (healthy env) net b) t w' in
       runs_of (w_db w2) = runs_of (w_db w') \<and> nodes_of (w_db w2) = nodes_of (w_db w')
       \<and> registry_sent (w_disp w2) = registry_sent (w_disp w))"
proof -
  let ?spec = "\<lparr>ps_Workflow = Some \<lparr>wr_Name = project, wr_Version = []\<rparr>, ps_Nodes = []\<rparr>"
  obtain w' where cmd: "newTriggerCmd (master_client (healthy env) net b err ticks rid now) f [project] w
      = (Inr (), ''Triggered run: '' @ rid @ [CHR 0x0A], w')" and "api_started rid ?spec w w'"
    using master_cli.trigger_cmd_ok [OF conjI [OF assms(1,3)], unfolded nl_def] by blast
  then have v: "store_valid (w_db w')"
    and eff: "runs_of (w_db w') = (runs_of (w_db w))(rid \<mapsto> (''api'', RunStateRunning))"
      "nodes_of (w_db w') = set_rows rid (seed_ids ?spec) NodeStatePending (nodes_of (w_db w))"
      "w_disp w' = w_disp w" "w_tasks w' = w_tasks w @ [\<lparr>at_runID = rid, at_spec = ?spec, at_rc = manual_rc\<rparr>]"
    by (simp_all add: api_started_def)
  have nodes: "nodes_of (w_db w') = nodes_of (w_db w)" by (auto simp: eff(2) seed_ids_def set_rows_def)
  let ?t = "\<lparr>at_runID = rid, at_spec = ?spec, at_rc = manual_rc\<rparr>"
  have "registry_ok (w_disp w')" using assms(2) eff(3) by simp
  from master.Advance_outcome [OF v this, of rid manual_rc ?spec "healthy env" net b]
  have "let w2 = run_task (master_manager (healthy env) net b) ?t w' in
       runs_of (w_db w2) = runs_of (w_db w') \<and> nodes_of (w_db w2) = nodes_of (w_db w')
       \<and> registry_sent (w_disp w2) = registry_sent (w_disp w)"
    by (auto simp: loop_outcome_def row_due_def sent_ready_def eff(3) run_task_def master_manager_def
        NewManager_def Let_def)
  with cmd eff(1,4) nodes show ?thesis by blast
qed

theorem cli_trigger_runs_nothing_witness:
  "\<exists>w'. newTriggerCmd (master_client (healthy ex_env) ex_net ex_bus (\<lambda>_. ErrNoRows) [] ''r'' 0) toy_flags [''web''] ex_world
      = (Inr (), ''Triggered run: r'' @ [CHR 0x0A], w')
    \<and> runs_of (w_db w') ''r'' = Some (''api'', RunStateRunning)"
proof -
  have new: "runs_of (w_db ex_world) ''r'' = None" by (simp add: ex_world_def open_store_empty)
  show ?thesis
    using cli_trigger_runs_nothing [OF ex_world_ok new, of ex_env ex_net ex_bus "\<lambda>_. ErrNoRows" "[]" 0 toy_flags "''web''"]
    by auto
qed

end
