(* ===== verification/Cli_Commands.thy ===== *)
theory Cli_Commands
  imports Cli Agent_Conn
begin

text \<open>
  The command tree of \<open>brazier\<close> (\<open>cmd/cli/cmd/root.go\<close> and the constructors of the commands) and its \<open>main\<close>
  (\<open>cmd/cli/main.go\<close>). cobra is a parameter: what it makes of the arguments of the process is an \<open>invocation\<close> of a
  command of the tree.
\<close>

section \<open>Commands and flags\<close>

datatype flag_value =
    Flag_string string
  | Flag_int32 int32
  | Flag_strings "string list"
  | Flag_duration int

text \<open>A flag, with its shorthand and the default of the variable that it is bound to.\<close>

record cobra_flag =
  fl_name :: string
  fl_short :: string
  fl_value :: flag_value

text \<open>\<open>RunE\<close> stands for \<open>Args\<close> and \<open>RunE\<close> of the struct, and is missing for a command that only groups others.\<close>

datatype 'r cobra_command =
  Command (cc_Use: string) (cc_Short: string) (cc_Long: string) (cc_RunE: "'r option")
    (cc_PersistentFlags: "cobra_flag list") (cc_Flags: "cobra_flag list") (cc_Commands: "'r cobra_command list")

text \<open>What the variables hold that the flags are bound to.\<close>

type_synonym flag_vars = "string \<Rightarrow> flag_value option"

fun flag_string :: "flag_value option \<Rightarrow> string" where
  "flag_string (Some (Flag_string s)) = s"
| "flag_string _ = []"

fun flag_int32 :: "flag_value option \<Rightarrow> int32" where
  "flag_int32 (Some (Flag_int32 n)) = n"
| "flag_int32 _ = 0"

fun flag_strings :: "flag_value option \<Rightarrow> string list" where
  "flag_strings (Some (Flag_strings ss)) = ss"
| "flag_strings _ = []"

fun flag_duration :: "flag_value option \<Rightarrow> int" where
  "flag_duration (Some (Flag_duration d)) = d"
| "flag_duration _ = 0"

text \<open>
  What a command finds around it (the files, the decoder of pipelines, the master, the environment, the clock
  and the turns of an agent's loop), and what it changes.
\<close>

record ('s, 'k) cli_env =
  ce_host :: "'s host"
  ce_unmarshal :: "string \<Rightarrow> PipelineSpec result"
  ce_client :: "'k grpc_client"
  ce_Getenv :: "string \<Rightarrow> string"
  ce_now :: nat
  ce_turns :: "(bool \<times> attempt \<times> bool) list"

record ('s, 'k) cli_world =
  cw_host :: 's
  cw_server :: 'k
  cw_agent :: agent_state

text \<open>A command ends with an error or without, or has not ended (\<open>None\<close>), and has written something.\<close>

type_synonym ('s, 'k) runE =
  "flag_vars \<Rightarrow> string list \<Rightarrow> ('s, 'k) cli_world \<Rightarrow> (unit result option \<times> string) \<times> ('s, 'k) cli_world"

text \<open>The variables \<open>masterAddr\<close> and \<open>apiKey\<close> of the package, and the environment.\<close>

definition package_vars :: "('s, 'k) cli_env \<Rightarrow> flag_vars \<Rightarrow> cli_flags" where
  "package_vars ce v =
     \<lparr>cf_masterAddr = flag_string (v ''master''), cf_apiKey = flag_string (v ''api-key''), cf_Getenv = ce_Getenv ce\<rparr>"

section \<open>The commands\<close>

definition run_command :: "('s, 'k) cli_env \<Rightarrow> ('s, 'k) runE cobra_command" where
  "run_command ce =
     Command ''run'' ''Execute the local Brazierfile and submit the pipeline to master'' []
       (Some (\<lambda>v args w.
          case newRunCmd (ce_host ce) (ce_unmarshal ce) (ce_client ce) (package_vars ce v) (flag_string (v ''dir''))
                 (cw_host w, cw_server w) of
            (q, out, s, k) \<Rightarrow> ((Some q, out), w\<lparr>cw_host := s, cw_server := k\<rparr>)))
       [] [\<lparr>fl_name = ''dir'', fl_short = ''d'', fl_value = Flag_string ''.''\<rparr>] []"

definition logs_command :: "('s, 'k) cli_env \<Rightarrow> ('s, 'k) runE cobra_command" where
  "logs_command ce =
     Command ''logs <run-id>'' ''Stream logs for a pipeline run'' []
       (Some (\<lambda>v args w.
          case newLogsCmd (ce_client ce) (package_vars ce v) args (cw_server w) of
            (res, k) \<Rightarrow> (res, w\<lparr>cw_server := k\<rparr>)))
       [] [] []"

definition status_command :: "('s, 'k) cli_env \<Rightarrow> ('s, 'k) runE cobra_command" where
  "status_command ce =
     Command ''status <run-id>'' ''Show the current state of a pipeline run'' []
       (Some (\<lambda>v args w.
          case newStatusCmd (ce_client ce) (package_vars ce v) args (cw_server w) of
            (q, out, k) \<Rightarrow> ((Some q, out), w\<lparr>cw_server := k\<rparr>)))
       [] [] []"

definition trigger_command :: "('s, 'k) cli_env \<Rightarrow> ('s, 'k) runE cobra_command" where
  "trigger_command ce =
     Command ''trigger <project>'' ''Manually trigger a pipeline run for a project on master'' []
       (Some (\<lambda>v args w.
          case newTriggerCmd (ce_client ce) (package_vars ce v) args (cw_server w) of
            (q, out, k) \<Rightarrow> ((Some q, out), w\<lparr>cw_server := k\<rparr>)))
       [] [] []"

text \<open>\<open>agent start\<close> ends when the loop of the agent does; the default timeout is 30 minutes.\<close>

definition agent_start_command :: "('s, 'k) cli_env \<Rightarrow> ('s, 'k) runE cobra_command" where
  "agent_start_command ce =
     Command ''start'' ''Start a bare-metal agent and connect it to master'' []
       (Some (\<lambda>v args w.
          case newAgentStartCmd (package_vars ce v) (flag_string (v ''name'')) (flag_int32 (v ''capacity''))
                 (flag_strings (v ''labels'')) (flag_duration (v ''job-timeout'')) (ce_now ce) (ce_turns ce) (cw_agent w) of
            Inl e \<Rightarrow> ((Some (Inl e), []), w)
          | Inr (out, returned, st) \<Rightarrow> ((if returned then Some (Inr ()) else None, out), w\<lparr>cw_agent := st\<rparr>)))
       []
       [\<lparr>fl_name = ''name'', fl_short = [], fl_value = Flag_string []\<rparr>,
        \<lparr>fl_name = ''capacity'', fl_short = [], fl_value = Flag_int32 4\<rparr>,
        \<lparr>fl_name = ''labels'', fl_short = [], fl_value = Flag_strings []\<rparr>,
        \<lparr>fl_name = ''job-timeout'', fl_short = [], fl_value = Flag_duration (30 * 60 * 1000000000)\<rparr>]
       []"

definition agent_command :: "('s, 'k) cli_env \<Rightarrow> ('s, 'k) runE cobra_command" where
  "agent_command ce = Command ''agent'' ''Manage bare-metal agents'' [] None [] [] [agent_start_command ce]"

text \<open>Strings are bytes, as in Go: the dash of \<open>Short\<close> is its UTF-8 encoding.\<close>

definition Root :: "('s, 'k) cli_env \<Rightarrow> ('s, 'k) runE cobra_command" where
  "Root ce =
     Command ''brazier'' (''Brazier CI '' @ [CHR 0xE2, CHR 0x80, CHR 0x94] @ '' pipeline runner CLI'')
       ''brazier is the command-line interface for the Brazier CI engine.''
       None
       [\<lparr>fl_name = ''master'', fl_short = [], fl_value = Flag_string ''localhost:9000''\<rparr>,
        \<lparr>fl_name = ''api-key'', fl_short = [], fl_value = Flag_string []\<rparr>]
       []
       [run_command ce, logs_command ce, status_command ce, trigger_command ce, agent_command ce]"

section \<open>Running the process\<close>

text \<open>
  What cobra makes of the arguments: an error of theirs, a help text, or the path to a command, with
  the flags that were set and the arguments that are left. It has a help text for a command that cannot run, and an
  error for a path that leads nowhere.
\<close>

datatype invocation =
    Cobra_error go_error
  | Cobra_help string
  | Cobra_run "string list" "(string \<times> flag_value) list" "string list"

record 'r cobra_lib =
  co_parse :: "'r cobra_command \<Rightarrow> string list \<Rightarrow> invocation"
  co_help :: "'r cobra_command \<Rightarrow> string"
  co_unknown :: "string list \<Rightarrow> go_error"

definition cc_Name :: "'r cobra_command \<Rightarrow> string" where
  "cc_Name c = takeWhile (\<lambda>x. x \<noteq> CHR '' '') (cc_Use c)"

text \<open>The command at a path, and the flags that it takes: its own and the persistent ones above it.\<close>

fun cobra_find :: "string list \<Rightarrow> 'r cobra_command \<Rightarrow> ('r cobra_command \<times> cobra_flag list) option" where
  "cobra_find [] c = Some (c, cc_PersistentFlags c @ cc_Flags c)"
| "cobra_find (n # ns) c =
     (case find (\<lambda>d. cc_Name d = n) (cc_Commands c) of
        None \<Rightarrow> None
      | Some d \<Rightarrow> map_option (\<lambda>(e, fs). (e, cc_PersistentFlags c @ fs)) (cobra_find ns d))"

definition bound_vars :: "cobra_flag list \<Rightarrow> (string \<times> flag_value) list \<Rightarrow> flag_vars" where
  "bound_vars flags sets n =
     (case map_of sets n of
        Some x \<Rightarrow> Some x
      | None \<Rightarrow> map_option fl_value (find (\<lambda>f. fl_name f = n) flags))"

definition cli_Execute ::
  "('s, 'k) runE cobra_lib \<Rightarrow> ('s, 'k) cli_env \<Rightarrow> string list \<Rightarrow>
   ('s, 'k) cli_world \<Rightarrow> (unit result option \<times> string) \<times> ('s, 'k) cli_world" where
  "cli_Execute cobra ce argv w =
     (case co_parse cobra (Root ce) argv of
        Cobra_error e \<Rightarrow> ((Some (Inl e), []), w)
      | Cobra_help txt \<Rightarrow> ((Some (Inr ()), txt), w)
      | Cobra_run path sets args \<Rightarrow>
          (case cobra_find path (Root ce) of
             None \<Rightarrow> ((Some (Inl (co_unknown cobra path)), []), w)
           | Some (c, flags) \<Rightarrow>
               (case cc_RunE c of
                  None \<Rightarrow> ((Some (Inr ()), co_help cobra c), w)
                | Some runE \<Rightarrow> runE (bound_vars flags sets) args w)))"

text \<open>The status of the process, if it has ended.\<close>

definition cli_main ::
  "('s, 'k) runE cobra_lib \<Rightarrow> ('s, 'k) cli_env \<Rightarrow> string list \<Rightarrow>
   ('s, 'k) cli_world \<Rightarrow> (nat option \<times> string) \<times> ('s, 'k) cli_world" where
  "cli_main cobra ce argv w =
     (case cli_Execute cobra ce argv w of
        ((q, out), w') \<Rightarrow> ((map_option (\<lambda>r. case r of Inl _ \<Rightarrow> 1 | Inr _ \<Rightarrow> 0) q, out), w'))"

section \<open>What a user gets to see\<close>

lemma cobra_find_logs:
  "cobra_find [''logs''] (Root ce) = Some (logs_command ce, cc_PersistentFlags (Root ce))"
  by (simp add: Root_def run_command_def logs_command_def cc_Name_def)

lemma cli_main_logs:
  assumes "co_parse cobra (Root ce) argv = Cobra_run [''logs''] sets args"
    and "newLogsCmd (ce_client ce) (package_vars ce (bound_vars (cc_PersistentFlags (Root ce)) sets)) args (cw_server w)
      = ((q, out), k)"
  shows "cli_main cobra ce argv w
    = ((map_option (\<lambda>r. case r of Inl _ \<Rightarrow> 1 | Inr _ \<Rightarrow> 0) q, out), w\<lparr>cw_server := k\<rparr>)"
  using assms(2) unfolding One_nat_def
  by (simp add: cli_main_def cli_Execute_def assms(1) cobra_find_logs del: cobra_find.simps)
    (simp add: logs_command_def)

text \<open>The commands that can run, by their paths; \<open>brazier\<close> and \<open>agent\<close> only group them.\<close>

lemma Root_runnable:
  "map (\<lambda>p. map_option (\<lambda>(c, fs). (cc_RunE c \<noteq> None, map fl_name fs)) (cobra_find p (Root ce)))
     [[], [''run''], [''logs''], [''status''], [''trigger''], [''agent''], [''agent'', ''start''], [''start'']]
   = [Some (False, [''master'', ''api-key'']), Some (True, [''master'', ''api-key'', ''dir'']),
      Some (True, [''master'', ''api-key'']), Some (True, [''master'', ''api-key'']), Some (True, [''master'', ''api-key'']),
      Some (False, [''master'', ''api-key'']),
      Some (True, [''master'', ''api-key'', ''name'', ''capacity'', ''labels'', ''job-timeout'']), None]"
  by (simp add: Root_def run_command_def logs_command_def status_command_def trigger_command_def agent_command_def
      agent_start_command_def cc_Name_def)

text \<open>
  The store after a job of an agent, over its network; a job without a spec crashes the agent and leaves it
  alone. What the job writes to the log when its network delivers.
\<close>

definition job_tick :: "sql_env \<Rightarrow> agent_net \<times> os \<times> JobDispatch \<Rightarrow> db_value \<Rightarrow> db_value" where
  "job_tick env = (\<lambda>(N, sys, job) s.
     (case handleJob (master_service N env) sys job (link_to s registry_New) of
        None \<Rightarrow> s
      | Some m \<Rightarrow> al_db m))"

definition job_lines :: "agent_net \<times> os \<times> JobDispatch \<Rightarrow> LogChunk list" where
  "job_lines = (\<lambda>(N, sys, job).
     (case job_outcome sys job of
        None \<Rightarrow> []
      | Some (r, cs) \<Rightarrow> map LogChunk_of_pb (takeWhile chunk_utf8 cs)))"

lemma job_tick_logs:
  assumes "store_valid s" and "delivers (fst j)"
  shows "store_valid (job_tick (healthy env) j s) \<and> runs_of (job_tick (healthy env) j s) = runs_of s
    \<and> logs_of (job_tick (healthy env) j s) = logs_of s @ job_lines j"
proof -
  obtain N sys job where j: "j = (N, sys, job)" by (metis surj_pair)
  show ?thesis
  proof (cases "job_outcome sys job")
    case None
    then show ?thesis using assms(1) by (simp add: job_tick_def job_lines_def j handleJob_None)
  next
    case (Some out)
    then obtain r cs where out: "job_outcome sys job = Some (r, cs)" by (metis surj_pair)
    obtain m' xs where "handleJob (master_service N (healthy env)) sys job (link_to s registry_New) = Some m'"
        "store_valid (al_db m')" "runs_of (al_db m') = runs_of s" "logs_of (al_db m') = logs_of s @ map LogChunk_of_pb xs"
        "delivers N \<longrightarrow> xs = takeWhile chunk_utf8 cs"
      by (rule handleJob_store [OF assms(1) out, of N env registry_New])
    then show ?thesis using assms(2) by (simp add: job_tick_def job_lines_def j out)
  qed
qed

lemma job_lines_named: "c \<in> set (job_lines j) \<Longrightarrow> lc_JobID c = jd_JobId (snd (snd j))"
proof -
  assume c: "c \<in> set (job_lines j)"
  obtain N sys job where j: "j = (N, sys, job)" by (metis surj_pair)
  have "job_outcome sys job \<noteq> None"
  proof
    assume "job_outcome sys job = None"
    then show False using c by (simp add: job_lines_def j)
  qed
  then obtain r cs where out: "job_outcome sys job = Some (r, cs)" by (metis not_None_eq surj_pair)
  then obtain d where "d \<in> set cs" "c = LogChunk_of_pb d"
    using c by (auto simp: job_lines_def j dest: set_takeWhileD)
  then show ?thesis using job_outcome_ids [OF out, of d] by (simp add: LogChunk_of_pb_def j)
qed

text \<open>The run has ended.\<close>

definition run_over :: "db_value \<Rightarrow> string \<Rightarrow> bool" where
  "run_over s rid \<longleftrightarrow>
     (\<exists>p st. runs_of s rid = Some (p, st) \<and> st \<in> {RunStateSuccess, RunStateFailed, RunStateCancelled})"

text \<open>A tick of \<open>StreamLogs\<close>, and then all of them, over a store whose lines are all of jobs with an ID.\<close>

lemma tick_named:
  assumes v: "store_valid s" and named: "[] \<notin> lc_JobID ` set (logs_of s)"
  shows "\<exists>stop n s'. StreamLogs_tick (store_DB (healthy env)) collect rid seen (s, k) = (Inr (stop, n), s', k)
    \<and> store_valid s' \<and> runs_of s' = runs_of s \<and> logs_of s' = logs_of s \<and> (stop \<longrightarrow> run_over s rid)"
proof -
  obtain cs s1 where g: "db_GetLogs (store_DB (healthy env)) rid [] s = (Inr cs, s1)"
    using store_up.get_logs_up [OF v] by blast
  have none: "filter (\<lambda>c. lc_RunID c = rid \<and> lc_JobID c = []) (logs_of s) = []"
    using named by (force simp: filter_empty_conv)
  have cs: "cs = []" using store.get_logs_ok [OF v g] unfolding none by simp
  have v1: "store_valid s1" using store.get_logs [OF v g] by (simp add: reads_only_def)
  obtain q s2 where r: "db_GetRun (store_DB (healthy env)) rid s1 = (q, s2)" by (metis surj_pair)
  define stop where "stop = (case q of Inl _ \<Rightarrow> False
    | Inr r \<Rightarrow> run_State r \<in> {RunStateSuccess, RunStateFailed, RunStateCancelled})"
  have t: "StreamLogs_tick (store_DB (healthy env)) collect rid seen (s, k) = (Inr (stop, 0), s2, k)"
    using g r cs
    by (cases q) (simp_all add: StreamLogs_tick_def Let_def stop_def zero_PipelineRun_def RunStateSuccess_def
        RunStateFailed_def RunStateCancelled_def)
  have runs: "runs_of s1 = runs_of s" "runs_of s2 = runs_of s1"
    using store.get_logs [OF v g] store.get_run [OF v1 r] by (simp_all add: reads_only_def)
  have "run_over s rid" if stop
  proof (cases q)
    case (Inr run)
    then have "run_State run \<in> {RunStateSuccess, RunStateFailed, RunStateCancelled}"
      using that by (simp add: stop_def)
    then show ?thesis using store.get_run_ok [OF v1 r [unfolded Inr]] runs by (simp add: run_over_def)
  qed (use that in \<open>simp add: stop_def\<close>)
  then show ?thesis using t store.StreamLogs_tick_effect [OF v t] runs by (metis (no_types))
qed

lemma StreamLogs_jobs:
  assumes "store_valid s" and "[] \<notin> lc_JobID ` set (logs_of s)"
    and "\<forall>j \<in> set jobs. delivers (fst j) \<and> jd_JobId (snd (snd j)) \<noteq> []"
  shows "\<exists>s' n. StreamLogs (store_DB (healthy env)) collect rid (map (job_tick (healthy env)) jobs) seen (s, k) = (Inr (), s', k)
    \<and> n \<le> length jobs \<and> runs_of s' = runs_of s \<and> logs_of s' = logs_of s @ concat (map job_lines (take n jobs))
    \<and> (if stream_waits (store_DB (healthy env)) rid (map (job_tick (healthy env)) jobs) seen (s, k)
       then n = length jobs else run_over s rid)"
  using assms
proof (induction jobs arbitrary: seen s)
  case (Cons j jobs)
  define s0 where "s0 = job_tick (healthy env) j s"
  have s0: "store_valid s0" "runs_of s0 = runs_of s" "logs_of s0 = logs_of s @ job_lines j"
    using job_tick_logs [OF Cons.prems(1), of j env] Cons.prems(3) by (simp_all add: s0_def)
  have named: "[] \<notin> lc_JobID ` set (logs_of s0)"
    using Cons.prems(2,3) job_lines_named [of _ j] by (auto simp: s0(3))
  obtain stop m s1 where t: "StreamLogs_tick (store_DB (healthy env)) collect rid seen (s0, k) = (Inr (stop, m), s1, k)"
      "store_valid s1" "runs_of s1 = runs_of s0" "logs_of s1 = logs_of s0" "stop \<longrightarrow> run_over s0 rid"
    using tick_named [OF s0(1) named, of env rid seen k] by blast
  have over: "run_over s1 rid = run_over s rid" "run_over s0 rid = run_over s rid"
    using t(3) s0(2) by (simp_all add: run_over_def)
  show ?case
  proof (cases stop)
    case True
    then show ?thesis
      using t s0 over by (intro exI [of _ s1] exI [of _ 1]) (simp add: s0_def [symmetric])
  next
    case False
    have "\<exists>s' n. StreamLogs (store_DB (healthy env)) collect rid (map (job_tick (healthy env)) jobs) m (s1, k) = (Inr (), s', k)
        \<and> n \<le> length jobs \<and> runs_of s' = runs_of s1 \<and> logs_of s' = logs_of s1 @ concat (map job_lines (take n jobs))
        \<and> (if stream_waits (store_DB (healthy env)) rid (map (job_tick (healthy env)) jobs) m (s1, k)
           then n = length jobs else run_over s1 rid)"
      by (rule Cons.IH) (use t named Cons.prems(3) in simp_all)
    then obtain s' n where "StreamLogs (store_DB (healthy env)) collect rid (map (job_tick (healthy env)) jobs) m (s1, k) = (Inr (), s', k)"
        "n \<le> length jobs" "runs_of s' = runs_of s1" "logs_of s' = logs_of s1 @ concat (map job_lines (take n jobs))"
        "if stream_waits (store_DB (healthy env)) rid (map (job_tick (healthy env)) jobs) m (s1, k)
           then n = length jobs else run_over s1 rid" by blast
    then show ?thesis
      using t s0 False over
      by (intro exI [of _ s'] exI [of _ "Suc n"]) (simp add: s0_def [symmetric] split: if_splits)
  qed
qed simp

text \<open>
  Property C37: \<open>brazier logs\<close> shows no line of a job. On a master of whose store no statement fails and whose log
  lines so far all are of jobs with an ID, agents run further jobs with an ID, and their networks deliver
  what they send. Whatever the run, the command prints nothing. Either all these jobs have run, their lines
  (each job's up to the first that is not valid UTF-8) are in the store after those of before, in
  order, and the command still waits; or the run had ended (which these jobs do not change), the command has
  exited with 0, and the lines of the jobs up to there are in the store.
\<close>

theorem cli_logs_show_no_job:
  assumes "co_parse cobra (Root ce) argv = Cobra_run [''logs''] sets [run]"
    and "ce_client ce = master_client (healthy env) net b err (map (job_tick (healthy env)) jobs) rid now"
    and "store_valid (w_db (cw_server w))" and "[] \<notin> lc_JobID ` set (logs_of (w_db (cw_server w)))"
    and "\<forall>j \<in> set jobs. delivers (fst j) \<and> jd_JobId (snd (snd j)) \<noteq> []"
  shows "\<exists>status w' n. cli_main cobra ce argv w = ((status, []), w') \<and> n \<le> length jobs
    \<and> runs_of (w_db (cw_server w')) = runs_of (w_db (cw_server w))
    \<and> logs_of (w_db (cw_server w')) = logs_of (w_db (cw_server w)) @ concat (map job_lines (take n jobs))
    \<and> (status = None \<and> n = length jobs \<or> status = Some 0 \<and> run_over (w_db (cw_server w)) run)"
proof -
  let ?k = "cw_server w" and ?D = "store_DB (healthy env)" and ?fs = "map (job_tick (healthy env)) jobs"
  let ?waits = "stream_waits ?D run ?fs 0 (w_db ?k, [])"
  obtain s' n where s': "StreamLogs ?D collect run ?fs 0 (w_db ?k, []) = (Inr (), s', [])" "n \<le> length jobs"
      "runs_of s' = runs_of (w_db ?k)" "logs_of s' = logs_of (w_db ?k) @ concat (map job_lines (take n jobs))"
      "if ?waits then n = length jobs else run_over (w_db ?k) run"
    using StreamLogs_jobs [OF assms(3-5), of env run 0 "[]"] by blast
  have "newLogsCmd (ce_client ce) (package_vars ce (bound_vars (cc_PersistentFlags (Root ce)) sets)) [run] ?k
      = ((if ?waits then None else Some (Inr ()), []), ?k\<lparr>w_db := s'\<rparr>)"
    using s'(1) by (simp add: newLogsCmd_def dial_def assms(2) master_client_def)
  from cli_main_logs [OF assms(1) this] show ?thesis
    using s'(2-5) by (cases ?waits) auto
qed

text \<open>A store is empty, and two lines come while the command runs, which shows none of them and waits on.\<close>

definition toy_cobra :: "('s, 'k) runE cobra_lib" where
  "toy_cobra = \<lparr>co_parse = (\<lambda>_ argv. Cobra_run (take 1 argv) [] (drop 1 argv)), co_help = cc_Long,
     co_unknown = (\<lambda>p. Errorf ''unknown command'' p)\<rparr>"

definition toy_cli :: "(db_value \<Rightarrow> db_value) list \<Rightarrow> (unit, (db_value, Registry, Event list) world) cli_env" where
  "toy_cli ticks =
     \<lparr>ce_host = toy_dir (\<lambda>_. None), ce_unmarshal = toy_spec_of,
      ce_client = master_client (healthy ex_env) ex_net ex_bus (\<lambda>_. ErrNoRows) ticks ''r2'' 0,
      ce_Getenv = (\<lambda>_. []), ce_now = 0, ce_turns = []\<rparr>"

theorem cli_logs_show_no_job_witness:
  "\<exists>w w'. cli_main toy_cobra (toy_cli (map (job_tick (healthy ex_env)) [(good_net, demo_os, env_job)])) [''logs'', ''r''] w
      = ((None, []), w')
    \<and> logs_of (w_db (cw_server w)) = [] \<and> logs_of (w_db (cw_server w')) = job_lines (good_net, demo_os, env_job)
    \<and> job_lines (good_net, demo_os, env_job) \<noteq> []"
proof -
  obtain c1 c2 where out: "job_outcome demo_os env_job = Some ((False, 2), [c1, c2])" "chunk_utf8 c1"
    by (rule demo_job_outcome)
  let ?jobs = "[(good_net, demo_os, env_job)]"
  have lines: "job_lines (good_net, demo_os, env_job) \<noteq> []" using out by (simp add: job_lines_def)
  let ?w = "\<lparr>cw_host = (), cw_server = ex_world\<lparr>w_db := open_store []\<rparr>, cw_agent = \<lparr>ga_jobs = [], ga_registered = [], ga_conns = 0\<rparr>\<rparr>"
  let ?ce = "toy_cli (map (job_tick (healthy ex_env)) ?jobs)"
  have empty: "logs_of (open_store []) = []" by code_simp
  have parse: "co_parse toy_cobra (Root ?ce) [''logs'', ''r''] = Cobra_run [''logs''] [] [''r'']"
    by (simp add: toy_cobra_def)
  have client: "ce_client ?ce = master_client (healthy ex_env) ex_net ex_bus (\<lambda>_. ErrNoRows)
      (map (job_tick (healthy ex_env)) ?jobs) ''r2'' 0"
    by (simp add: toy_cli_def)
  have hyps: "store_valid (w_db (cw_server ?w))" "[] \<notin> lc_JobID ` set (logs_of (w_db (cw_server ?w)))"
      "\<forall>j \<in> set ?jobs. delivers (fst j) \<and> jd_JobId (snd (snd j)) \<noteq> []"
    using open_store_valid [of "[]"] empty good_net_delivers by (simp_all add: env_job_def)
  have "\<not> run_over (w_db (cw_server ?w)) ''r''" by (simp add: run_over_def open_store_empty)
  with cli_logs_show_no_job [OF parse client hyps] obtain w'
    where w': "cli_main toy_cobra ?ce [''logs'', ''r''] ?w = ((None, []), w')"
      "logs_of (w_db (cw_server w')) = logs_of (open_store []) @ concat (map job_lines ?jobs)"
    by auto
  show ?thesis by (rule exI [of _ ?w], rule exI [of _ w']) (use w' empty lines in simp)
qed

end
