(* ===== verification/Secret_Flow.thy ===== *)
theory Secret_Flow
  imports Master_Props Agent_Client
begin

text \<open>
  What a job gets to see of secrets: the composition of the wired master, which builds the dispatches, and of
  the executor on the agent, which builds the environment of the commands from them.
\<close>

section \<open>What is on the wire\<close>

definition plain_wire :: "Registry \<Rightarrow> bool" where
  "plain_wire r \<longleftrightarrow> (\<forall>(_, j) \<in> set (rg_wire r). jd_Env j = [])"

text \<open>The dispatcher of the master keeps this too, so that its contract gives it for a whole \<open>Advance\<close>.\<close>

lemma registryDispatcher_wire:
  assumes "registryDispatcher_Dispatch net r n j d = (q, d')"
  shows "rg_wire d' = rg_wire d \<or>
    (\<exists>s. rg_wire d' = rg_wire d @ [(s, \<lparr>jd_JobId = n, jd_RunId = r, jd_Spec = j, jd_Env = []\<rparr>)])"
  using assms by (auto simp: registryDispatcher_Dispatch_def Registry_Dispatch_def Let_def split: option.splits)

lemma registryDispatcher_plain:
  "registryDispatcher_Dispatch net r n j d = (q, d') \<Longrightarrow> plain_wire d \<Longrightarrow> plain_wire d'"
  using registryDispatcher_wire [of net r n j d q d'] by (auto simp: plain_wire_def)

interpretation plain: scheduler_context "store_DB env" store_valid runs_of nodes_of
  "registryDispatcher_Dispatch net" "\<lambda>d. registry_ok d \<and> plain_wire d" registry_sent "master_scheduler env net b"
  for env net b
proof unfold_locales
  show "registry_ok d \<and> plain_wire d \<Longrightarrow> registryDispatcher_Dispatch net r n j d = (Inr u, d') \<Longrightarrow>
      (registry_ok d' \<and> plain_wire d') \<and> registry_sent d' = registry_sent d @ [(r, n, j)]" for d r n j and u :: unit and d'
    using registry.dispatch_ok [of d net r n j u d'] registryDispatcher_plain [of net r n j d "Inr u" d'] by simp
  show "registry_ok d \<and> plain_wire d \<Longrightarrow> registryDispatcher_Dispatch net r n j d = (Inl e, d') \<Longrightarrow>
      (registry_ok d' \<and> plain_wire d') \<and> registry_sent d' = registry_sent d" for d r n j e d'
    using registry.dispatch_err [of d net r n j e d'] registryDispatcher_plain [of net r n j d "Inl e" d'] by simp
qed (simp_all add: master_scheduler_def)

lemma plain_step:
  assumes "master_step env net b w w'" and v: "store_valid (w_db w)" and ok: "registry_ok (w_disp w)"
    and plain: "plain_wire (w_disp w)"
  shows "plain_wire (w_disp w')"
  using assms(1) v ok
proof (cases rule: master_step_cases)
  case (start rid now spec project rc q)
  have "w_disp w' = w_disp w"
    using mgr.Start_ok(6) [OF v, of env net b rid now spec project rc] mgr.Start_err [OF v, of env net b rid now spec project rc]
      start by (cases q) auto
  with plain show ?thesis by simp
next
  case (goroutine ts1 t ts2)
  have "loop_outcome store_valid runs_of nodes_of (\<lambda>d. registry_ok d \<and> plain_wire d) registry_sent (at_runID t) (at_rc t)
      (row_states (nodes_of (w_db w)) (at_runID t)) (ps_Nodes (at_spec t)) (w\<lparr>w_tasks := ts1 @ ts2\<rparr>) w'"
    using plain.Advance_outcome [of "w\<lparr>w_tasks := ts1 @ ts2\<rparr>" "at_runID t" "at_rc t" "at_spec t" env net b] v ok plain
    by (simp add: goroutine(2) run_task_def master_manager_def NewManager_def)
  then show ?thesis by (simp add: loop_outcome_def)
next
  case agents
  with plain show ?thesis by (simp add: plain_wire_def)
qed (use plain in simp_all)

lemma plain_reach:
  assumes "master_reach env net b hist w"
  shows "plain_wire (w_disp w)"
  using assms
proof induction
  case boot
  show ?case by (simp add: plain_wire_def registry_New_def)
next
  case (step hist w w')
  from master_reach_inv [OF step.hyps(1)] have "store_valid (w_db w)" "registry_ok (w_disp w)"
    by (simp_all add: wired_inv_def)
  from plain_step [OF step.hyps(2) this step.IH] show ?case .
qed

section \<open>What a job makes of it\<close>

text \<open>The executor looks at the IDs of a dispatch, its commands and its environment.\<close>

lemma runCommand_job:
  "jd_JobId j' = jd_JobId j \<Longrightarrow> jd_RunId j' = jd_RunId j \<Longrightarrow> runCommand out j' sink k = runCommand out j sink k"
  by (cases out) (simp_all add: runCommand_def errChunk_def line_chunk_def)

lemma run_commands_job:
  assumes "jd_JobId j' = jd_JobId j" and "jd_RunId j' = jd_RunId j"
  shows "run_commands sys j' env sink i cs k = run_commands sys j env sink i cs k"
  by (induction cs arbitrary: i k) (simp_all add: runCommand_job [OF assms] split: prod.split)

lemma job_outcome_secrets:
  "jd_Spec j = Some spec \<Longrightarrow>
     job_outcome sys (j\<lparr>jd_Spec := Some (spec\<lparr>js_Secrets := names\<rparr>)\<rparr>) = job_outcome sys j"
  by (simp add: job_outcome_def Executor_Run_def buildEnv_def Let_def)
    (rule run_commands_job [of "j\<lparr>jd_Spec := Some (spec\<lparr>js_Secrets := names\<rparr>)\<rparr>" j], simp_all)

lemma spec_env_Nil: "spec_env {} vars = [] \<longleftrightarrow> vars = []"
  by (cases vars) simp_all

text \<open>
  Property C21: no secret that the master keeps reaches a job. Whatever clients, agents and GitHub do to the
  wired master, each dispatch that it sends carries the job of a pipeline that was submitted, and the
  commands run in an environment of variables of the spec of that job; or, when the spec has none, in the
  environment that the agent itself was started in. Which secrets the spec asks for makes no difference to
  what the job does: its result and its lines are those that it has with any other list of secrets.
  Nothing calls \<open>InjectSecrets\<close>.
\<close>

theorem secrets_never_reach_jobs:
  assumes "master_reach env net b hist w" and "(stream, j) \<in> set (rg_wire (w_disp w))" and "jd_Spec j = Some spec"
  shows "(\<exists>t \<in> set hist. at_runID t = jd_RunId j
        \<and> (\<exists>n \<in> set (ps_Nodes (at_spec t)). (jd_JobId j, Some spec) \<in> set (node_jobs n)))
    \<and> (\<exists>es. buildEnv j = map env_string es \<and> subseq es (js_Env spec))
    \<and> (\<forall>sys. cmd_environ sys (buildEnv j) = (if js_Env spec = [] then os_environ sys else buildEnv j))
    \<and> (\<forall>sys names. job_outcome sys (j\<lparr>jd_Spec := Some (spec\<lparr>js_Secrets := names\<rparr>)\<rparr>) = job_outcome sys j)"
proof -
  have "(jd_RunId j, jd_JobId j, Some spec) \<in> set (registry_sent (w_disp w))"
    using assms(2,3) by (force simp: registry_sent_def)
  then have "\<exists>t \<in> set hist. at_runID t = jd_RunId j
      \<and> (\<exists>n \<in> set (ps_Nodes (at_spec t)). (jd_JobId j, Some spec) \<in> set (node_jobs n))"
    using master_reach_inv [OF assms(1)] unfolding wired_inv_def sent_wired_def by blast
  moreover have "jd_Env j = []" using plain_reach [OF assms(1)] assms(2) by (auto simp: plain_wire_def)
  then have e: "buildEnv j = spec_env {} (js_Env spec)" by (simp add: buildEnv_def assms(3))
  then have "\<exists>es. buildEnv j = map env_string es \<and> subseq es (js_Env spec)"
    using spec_env_entries [of "{}" "js_Env spec"] by auto
  moreover have "\<forall>sys. cmd_environ sys (buildEnv j) = (if js_Env spec = [] then os_environ sys else buildEnv j)"
    by (simp add: cmd_environ_def e spec_env_Nil)
  ultimately show ?thesis using job_outcome_secrets [OF assms(3)] by blast
qed

text \<open>A job that asks for a secret and prints it, submitted to a fresh master with one agent.\<close>

definition sec_job :: JobSpec where
  "sec_job = ex_job\<lparr>js_Env := [\<lparr>ev_Key = ''A'', ev_Value = ''1''\<rparr>], js_Secrets := [''TOKEN'']\<rparr>"

definition sec_spec :: PipelineSpec where
  "sec_spec = \<lparr>ps_Workflow = None, ps_Nodes = [Node ''deploy'' [] [] (Some (Node_Job sec_job))]\<rparr>"

definition sec_submitted :: "(db_value, Registry, Event list) world" where
  "sec_submitted = snd (SubmitPipeline (master_manager ex_env ex_net ex_bus) ''r'' 0 sec_spec wired1)"

definition sec_task :: advance_task where
  "sec_task = \<lparr>at_runID = ''r'', at_spec = sec_spec, at_rc = ex_rc\<rparr>"

definition sec_sent :: "(db_value, Registry, Event list) world" where
  "sec_sent = run_task (master_manager ex_env ex_net ex_bus) sec_task (sec_submitted\<lparr>w_tasks := []\<rparr>)"

lemma sec_facts:
  "w_tasks sec_submitted = [sec_task]" "w_tasks sec_sent = []"
  "rg_wire (w_disp sec_sent) = [(0, \<lparr>jd_JobId = ''deploy'', jd_RunId = ''r'', jd_Spec = Some sec_job, jd_Env = []\<rparr>)]"
  by code_simp+

theorem secrets_never_reach_jobs_witness:
  "\<exists>j es. rg_wire (w_disp sec_sent) = [(0, j)] \<and> jd_Spec j = Some sec_job \<and> js_Secrets sec_job = [''TOKEN'']
    \<and> buildEnv j = map env_string es \<and> subseq es [\<lparr>ev_Key = ''A'', ev_Value = ''1''\<rparr>]
    \<and> job_outcome demo_os (j\<lparr>jd_Spec := Some (sec_job\<lparr>js_Secrets := []\<rparr>)\<rparr>) = job_outcome demo_os j"
proof -
  let ?j = "\<lparr>jd_JobId = ''deploy'', jd_RunId = ''r'', jd_Spec = Some sec_job, jd_Env = []\<rparr>"
  note r = submitted_reach(2) [OF sec_submitted_def sec_facts(1) sec_sent_def sec_facts(2)]
  have j: "(0, ?j) \<in> set (rg_wire (w_disp sec_sent))" "jd_Spec ?j = Some sec_job" by (simp_all add: sec_facts)
  have "js_Env sec_job = [\<lparr>ev_Key = ''A'', ev_Value = ''1''\<rparr>]" "js_Secrets sec_job = [''TOKEN'']"
    by (simp_all add: sec_job_def)
  with secrets_never_reach_jobs [OF r j] show ?thesis
    by (intro exI [of _ ?j]) (simp add: sec_facts)
qed

end
