(* ===== verification/Config_Use.thy ===== *)
theory Config_Use
  imports Master_Main
begin

text \<open>
  What the configuration decides: \<open>run\<close> of \<open>cmd/master/main.go\<close> and \<open>internal/config\<close> together. The backends of secrets and artifacts,
  the runner, the workflows and the choice of the database can be configured, but the master does not look at them.
\<close>

text \<open>The three settings that \<open>run\<close> reads.\<close>

definition settings_used :: "Config \<Rightarrow> string \<times> string \<times> string" where
  "settings_used cfg = (sc_GRPCPort (cfg_Server cfg), sc_HTTPPort (cfg_Server cfg), dc_SQLitePath (cfg_DB cfg))"

lemma open_db_used: "settings_used cfg' = settings_used cfg \<Longrightarrow> open_db os cfg' = open_db os cfg"
  by (simp add: open_db_def settings_used_def Let_def)

lemma run_serve_used:
  assumes "run_config yaml (op_files os) (op_Getenv os ''BRAZIER_CONFIG'') = Inr cfg"
    and "run_config yaml' fs (op_Getenv os ''BRAZIER_CONFIG'') = Inr cfg'" and "settings_used cfg' = settings_used cfg"
  shows "run_serve yaml' (os\<lparr>op_files := fs\<rparr>) env net b h = run_serve yaml os env net b h"
proof -
  have "open_db (os\<lparr>op_files := fs\<rparr>) cfg' = open_db os cfg'" by (simp add: open_db_def Let_def)
  also have "\<dots> = open_db os cfg" by (rule open_db_used [OF assms(3)])
  finally have "open_db (os\<lparr>op_files := fs\<rparr>) cfg' = open_db os cfg" .
  then show ?thesis using assms by (simp add: run_serve_def settings_used_def Let_def cong: sum.case_cong)
qed

lemma open_db_backend:
  "open_db os cfg = Inr s \<Longrightarrow> (\<exists>db. s = DB_Postgres db) \<longleftrightarrow> op_Getenv os ''DATABASE_URL'' \<noteq> []"
  by (cases "OpenPostgres (op_postgres os) (op_Getenv os ''DATABASE_URL'')";
      cases "OpenSQLite (op_sqlite os) (dc_SQLitePath (cfg_DB cfg))")
    (auto simp: open_db_def Let_def split: if_splits)

text \<open>
  Property C34: the master heeds three settings of its configuration only. Two masters in the same environment, started on different
  configuration files that both load and agree on the two ports and the path of the SQLite
  database, are the same master, whatever the files say of the secrets and artifacts backends, the runner, the workflows and the
  database backend: both fail with the same error or serve the same world. A master that serves does so
  on the configured ports, and on Postgres exactly when \<open>DATABASE_URL\<close> is set.
\<close>

theorem config_settings_ignored:
  assumes "run_config yaml (op_files os) (op_Getenv os ''BRAZIER_CONFIG'') = Inr cfg"
    and "run_config yaml' fs (op_Getenv os ''BRAZIER_CONFIG'') = Inr cfg'" and "settings_used cfg' = settings_used cfg"
  shows "run_serve yaml' (os\<lparr>op_files := fs\<rparr>) env net b h = run_serve yaml os env net b h
    \<and> master_main yaml' (os\<lparr>op_files := fs\<rparr>) env net b h ev = master_main yaml os env net b h ev
    \<and> (\<forall>sv. run_serve yaml os env net b h = Inr sv \<longrightarrow>
         sv_grpc sv = '':'' @ sc_GRPCPort (cfg_Server cfg) \<and> sv_http sv = '':'' @ sc_HTTPPort (cfg_Server cfg)
         \<and> ((\<exists>db. w_db (sv_world sv) = DB_Postgres db) \<longleftrightarrow> op_Getenv os ''DATABASE_URL'' \<noteq> []))"
proof -
  note same = run_serve_used [OF assms, of env net b h]
  moreover from same have "master_main yaml' (os\<lparr>op_files := fs\<rparr>) env net b h ev = master_main yaml os env net b h ev"
    by (simp add: master_main_def master_run_def)
  moreover have "sv_grpc sv = '':'' @ sc_GRPCPort (cfg_Server cfg) \<and> sv_http sv = '':'' @ sc_HTTPPort (cfg_Server cfg)
      \<and> ((\<exists>db. w_db (sv_world sv) = DB_Postgres db) \<longleftrightarrow> op_Getenv os ''DATABASE_URL'' \<noteq> [])"
    if "run_serve yaml os env net b h = Inr sv" for sv
    using that open_db_backend [of os cfg] assms(1)
    by (auto simp: run_serve_def Let_def split: sum.splits)
  ultimately show ?thesis by blast
qed

text \<open>A file that asks for Postgres, Vault and Nomad, against no file at all.\<close>

definition other_config :: Config where
  "other_config = Default_Config
     \<lparr>cfg_DB := (cfg_DB Default_Config)\<lparr>dc_Backend := ''postgres''\<rparr>,
      cfg_Secrets := (cfg_Secrets Default_Config)\<lparr>sec_Backend := ''vault''\<rparr>,
      cfg_Runner := (cfg_Runner Default_Config)\<lparr>ru_Type := ''nomad''\<rparr>\<rparr>"

theorem config_settings_ignored_witness:
  "run_config (\<lambda>_ _. Inr other_config) (\<lambda>_. File_exists (Inr [])) [] = Inr other_config \<and> other_config \<noteq> Default_Config
   \<and> run_serve (\<lambda>_ _. Inr other_config) (ex_os\<lparr>op_files := \<lambda>_. File_exists (Inr [])\<rparr>) ex_env ex_net ex_bus [] = Inr ex_serving
   \<and> sv_grpc ex_serving = '':9000'' \<and> {db. w_db (sv_world ex_serving) = DB_Postgres db} = {}"
proof -
  have var: "op_Getenv ex_os v = []" for v by (simp add: ex_os_def)
  have c: "run_config (\<lambda>_ c. Inr c) (op_files ex_os) (op_Getenv ex_os ''BRAZIER_CONFIG'') = Inr Default_Config"
    by (simp add: run_config_def LoadOptional_def ex_os_def)
  have c': "run_config (\<lambda>_ _. Inr other_config) (\<lambda>_. File_exists (Inr [])) (op_Getenv ex_os ''BRAZIER_CONFIG'') = Inr other_config"
    by (simp add: run_config_def LoadOptional_def Load_Config_def ReadFile_def)
  have same: "settings_used other_config = settings_used Default_Config"
    by (simp add: settings_used_def other_config_def)
  have ne: "other_config \<noteq> Default_Config"
    by (simp add: other_config_def Default_Config_def)
  have "sc_GRPCPort (cfg_Server Default_Config) = ''9000''" by (simp add: Default_Config_def)
  then show ?thesis
    using config_settings_ignored [OF c c' same, of ex_env ex_net ex_bus "[]" Signalled] ex_serves c' ne var by simp
qed

end
