(* ===== verification/Spec2Isabelle.thy ===== *)
theory Spec2Isabelle
  imports Master_Props Registry_Props Db_Props Executor Sdk_Go Webhook Config Auth_Props Topo_Sort
    Secret_Props Secret_Services Artifact_Props Workflow_Props Agent_Client Pipeline_Liveness OAuth
    Runner Master_Main Graph_Props Agent_Conn Cli_Commands Secret_Flow Config_Use
begin

text \<open>
  Brazier: a verification development for the Go part of the repository (a CI service: a master, its
  agents, an SDK, a command line client).

  The program. A pipeline is a list of nodes with dependencies and conditions, built with the SDK
  (\<open>sdk/go\<close>) by a Brazierfile, which the command line client (\<open>cmd/cli\<close>) runs (\<open>internal/workflow\<close>)
  and submits to the master as protobuf (\<open>proto/gen\<close>). The master (\<open>cmd/master/main.go\<close>) takes it
  through its gRPC servers (\<open>internal/api\<close>) or is triggered by a GitHub webhook (\<open>internal/webhook\<close>). The
  run manager (\<open>internal/pipeline/run.go\<close>) writes the run and its nodes into a store (\<open>internal/db\<close>,
  SQLite or Postgres) and starts the scheduler (\<open>internal/pipeline/scheduler.go\<close>), which marks the nodes
  that are due and hands their jobs to the agent registry (\<open>internal/registry\<close>); what happens is
  announced on an event bus (\<open>internal/bus\<close>). An agent (\<open>internal/client\<close>) runs the commands of a job
  (\<open>internal/executor\<close>) and sends log lines and a result back. Authentication (\<open>internal/auth\<close>),
  secrets (\<open>internal/secrets\<close>), artifacts (\<open>internal/artifacts\<close>), runners (\<open>internal/runner\<close>) and
  configuration (\<open>internal/config\<close>) stand beside this.

  The model, theory by theory:
  \<^item> \<open>Go_Prelude\<close>: Go errors as values, the functions of the standard library that the code calls
    (\<open>strings\<close>, \<open>encoding/hex\<close>), 32-bit integers, loops that stop at an error. \<open>Base64\<close> and \<open>Filepath\<close>:
    \<open>encoding/base64\<close> and \<open>path/filepath\<close>. \<open>Utf8\<close>: \<open>unicode/utf8\<close>, what of a byte string is valid text.
    \<open>Plain_Names\<close>: the names that stand for themselves in a URL.
  \<^item> \<open>Proto_Msgs\<close>: the messages of \<open>proto/gen\<close>. \<open>Node\<close> is a datatype, as stages hold nodes.
  \<^item> \<open>Db_Types\<close>, \<open>Sql_Tables\<close>, \<open>Db_Sqlite\<close>, \<open>Db_Postgres\<close>: \<open>db.go\<close> and the two backends. A table is the
    list of its rows, a method the meaning of its SQL statement. The parameter \<open>sql_env\<close> decides which
    statements fail, the clock, and the order of rows where SQL leaves it open; \<open>sql_driver\<close> what a
    database holds when it is opened.
  \<^item> \<open>Db_Contract\<close>, \<open>Db_Value\<close>: what the clients rely on, as locales over the interface \<open>DB\<close> (an invariant
    and the tables seen as maps), with an interpretation for each backend and for the value of type
    \<open>db.DB\<close> that the master holds. The locales are layered: \<open>db_contract\<close> is the base, and
    \<open>db_log_contract\<close>, \<open>db_up_contract\<close> (a store that answers) and \<open>db_runs_contract\<close> extend it.
  \<^item> \<open>Event_Bus\<close>, \<open>Registry\<close>, \<open>Conditions\<close>, \<open>Topo_Sort\<close>: \<open>bus.go\<close>, \<open>registry.go\<close>, the pure functions of
    \<open>scheduler.go\<close>. The iteration order of the map of agents and the failures of streams are a parameter
    \<open>net_env\<close>; what was sent is part of the state of the registry.
  \<^item> \<open>Scheduler\<close>, \<open>Dispatch_Contract\<close>, \<open>Scheduler_Props\<close>: \<open>Advance\<close> on a world (store, dispatcher,
    subscribers, goroutines). The locale \<open>dispatcher_contract\<close> says what a dispatcher does to the jobs
    sent, and is interpreted on \<open>registryDispatcher\<close>; \<open>scheduler_context\<close> puts a store and a dispatcher
    together, and holds the lemmas on \<open>Advance\<close> for any of them.
  \<^item> \<open>Run_Manager\<close>: \<open>Start\<close> and \<open>NodeCompleted\<close>, in the locale \<open>manager_context\<close> on top of these.
  \<^item> \<open>Example_World\<close>: the concrete master, spec and agents on which the witnesses are evaluated.
  \<^item> \<open>Pipeline_Safety\<close>, \<open>Pipeline_Props\<close>, \<open>Pipeline_Liveness\<close>: the calls on a run as a step relation with
    its invariant, the properties of \<open>Start\<close>, \<open>Advance\<close> and \<open>NodeCompleted\<close>, and the rounds after which
    a run has ended. \<open>Stage_Props\<close>: what becomes of stages, on the example of the SDK. \<open>Graph_Props\<close>: pipelines
    that \<open>TopoSort\<close> rejects.
  \<^item> \<open>Api_Server\<close>, \<open>Master_System\<close>, \<open>Master_Props\<close>: the gRPC servers, the master as \<open>main.go\<close> wires it (a
    step relation over everything a client, an agent or GitHub can cause), and what holds of it.
  \<^item> \<open>Master_Main\<close>: \<open>run\<close> of \<open>main.go\<close> from the configuration to the end, and restarts. \<open>Config_Use\<close>: what of
    the configuration it heeds. \<open>Secret_Flow\<close>: the dispatches of the wired master as the executor sees them; the
    context of the scheduler is interpreted once more, with an invariant of the wire.
  \<^item> \<open>Registry_Props\<close>, \<open>Db_Props\<close>: properties of the registry and of the stores.
  \<^item> \<open>Executor\<close>, \<open>Agent_Client\<close>: a job on an agent (the operating system is a parameter) and the agent's
    client. Its service is the locale \<open>agent_contract\<close>, extended by \<open>agent_stream_contract\<close> and
    \<open>agent_up_contract\<close>, and interpreted on the \<open>AgentServer\<close> behind a network, the parameter \<open>agent_net\<close>: it decides
    which calls fail, and a message that is not valid UTF-8 is never sent. \<open>Agent_Conn\<close>: the goroutines of an agent
    and its connections as a step relation, with its invariant; each step of a goroutine carries the decision
    of the network.
  \<^item> \<open>Sdk_Go\<close>, \<open>Webhook\<close>, \<open>Config\<close>: the builders, the webhook (HMAC-SHA256 and JSON are parameters), the
    configuration (the YAML decoder is one). \<open>Sdk_Examples\<close>: the two programs of \<open>sdk/go/examples\<close>.
  \<^item> \<open>Auth\<close>, \<open>Auth_Props\<close>, \<open>OAuth\<close>: API keys (bcrypt is a parameter), sessions, the middleware, the login.
  \<^item> \<open>Secrets\<close>, \<open>Secret_Props\<close>, \<open>Secret_Services\<close>: the interface \<open>SecretBackend\<close> with its contract, the
    encrypted table, the injection into a job, and the three services (AES-GCM, their clients and HTTP are
    parameters with stated laws).
  \<^item> \<open>Artifacts\<close>, \<open>Artifact_Local\<close>, \<open>Artifact_Services\<close>, \<open>Artifact_Props\<close>: the interface \<open>ArtifactStore\<close>
    with its contract, the store over a file system and the three services.
  \<^item> \<open>Workflow\<close>, \<open>Workflow_Props\<close>: Brazierfiles and the loader of workflows, over a host.
  \<^item> \<open>Runner\<close>: the two runners, which are stubs. \<open>Cli\<close>: the commands of the client, over the generated
    stubs; what a submission relies on is the locale \<open>submit_contract\<close>, interpreted on the services of the
    wired master. \<open>Cli_Commands\<close>: the command tree (\<open>root.go\<close>) with its flags and defaults, and \<open>main\<close>.

  What is shown. Safety of the scheduler: whatever calls follow the start of a run, a job is only sent
  when its dependencies are done and its conditions hold, and, where the nodes have distinct IDs, at most once, as
  long as calls of \<open>Advance\<close> do not overlap; when they do, or when two nodes share an ID, a job can be sent twice.
  \<open>Advance\<close> refines a specification over the view of the node table. \<open>Start\<close> and \<open>NodeCompleted\<close> do what
  they say on every branch. Liveness of the package: a run whose graph sorts ends, when \<open>Advance\<close> is called again
  and the jobs that were sent are reported as successes; one whose graph does not sort is started all the same, and
  never ends. Both are stated for nodes with distinct IDs, which \<open>Start\<close> does not check. \<open>TopoSort\<close>
  terminates, is sound, and fails exactly on cycles and unknown nodes. The backends are equivalent for texts
  that PostgreSQL takes (valid UTF-8 without a NUL byte) and limits that are not negative; on other lines they
  are shown to differ. The webhook and the middleware let nothing through that is not authentic; the key of the
  client passes. Secrets and artifacts come back as they were stored: from the encrypted table and the local
  store for all names and paths, from the services for plain names and paths, as the URLs and the
  selectors of the services make others collide. The local store stays in its directory for paths
  that are local. An agent logs what its job writes, in order, up to the first line that is not valid UTF-8 or
  the end of its stream or connection: then the rest of the log is lost for good, and without a connection the
  result too. A Brazierfile yields the pipeline that it
  built, and \<open>brazier run\<close> starts it. A workflow is loaded in its version, for plain names and tags or commits, as
  long as loads do not overlap; its commands have the deadlines of the code.
  Of the wiring: no run ever ends, only nodes without dependencies on others that run are started, slots
  are never given back, a restarted master leaves the runs it finds as they are, \<open>brazier trigger\<close> runs
  nothing, \<open>brazier logs\<close> shows no line of a job, no secret reaches a job from the master, and all but three of the
  settings are ignored. And a stage is never complete, whoever reports the completion of
  its jobs: nothing that depends on it is sent.

  Bounds and fuel. \<open>TopoSort\<close> recurses with fuel, the number of nodes and one more, which
  \<open>TopoSort_terminates\<close> shows to be enough. The other loops are structural or have a
  measure; a loop on a stream (\<open>StreamLogs\<close>, the agent's \<open>Run\<close>, \<open>logs\<close>) recurses on what the stream gives,
  and its result says whether it has returned. Counters of the registry are 32-bit words and are shown not to wrap around.

  Conventions. A Go error is a value of \<open>go_error\<close>, a result \<open>(T, error)\<close> is \<open>Inr\<close> or \<open>Inl\<close>. A nil
  message is \<open>None\<close>. A Go map that is read with a zero value is a total function. Strings are lists of
  bytes. Log messages and locks are left out: a method that holds a lock is one step. A context is left out
  too, except in \<open>Workflow\<close>, where it is its deadline.

  Not modelled: the parsing and the help of the command line client, which are cobra's (a parameter of
  \<open>Cli_Commands\<close>); generated code (the
  gRPC stubs, the reflection of the messages), and the protobuf encoding itself; what the operating
  system, the databases, the cloud services and the cryptography do beyond the laws that are stated.
\<close>

end
